(* ===== verification/Prelude.thy ===== *)
theory Prelude
  imports Main "HOL-Library.Word"
begin

text \<open>
  What every component of the development shares: the machine types of the C++ code, the
  text formatting and parsing calls of the C library that the code uses
  (\<open>snprintf\<close> with \<open>%08x\<close> and \<open>%016lx\<close>, \<open>std::to_string\<close>, \<open>strtoull\<close> in base 16), the
  conversion of a 64-bit count to \<open>int\<close>, and the generic lemmas on words, lists and
  association lists that the component proofs rest on.
\<close>

unbundle bit_operations_syntax

named_theorems crc_simps "algebra of the CRC step functions"
named_theorems store_simps "lookups after updates of the session table"
named_theorems pool_simps "bookkeeping of the pinned buffer pool"
named_theorems client_simps "reading the client's call log"

type_synonym u8 = "8 word"
type_synonym u16 = "16 word"
type_synonym u32 = "32 word"
type_synonym u64 = "64 word"

section \<open>Words\<close>

lemma word_induct_len_bits:
  fixes v w :: "'a::len word"
  assumes "\<And>n. n < LENGTH('a) \<Longrightarrow> bit v n \<longleftrightarrow> bit w n"
  shows "v = w"
  using assms by (rule bit_word_eqI) simp

lemma xor_left_cancel [simp]: "(a :: 'a::len word) XOR b = a XOR c \<longleftrightarrow> b = c"
  by (metis bit.xor_left_self)

lemma xor_right_cancel [simp]: "(b :: 'a::len word) XOR a = c XOR a \<longleftrightarrow> b = c"
  by (metis bit.xor_left_self xor.commute)

lemma unat_u64_less: "unat (w :: u64) < 2 ^ 64"
  using unsigned_less [of w] by simp

lemma unat_u32_less: "unat (w :: u32) < 2 ^ 32"
  using unsigned_less [of w] by simp

section \<open>Sums over lists\<close>

lemma sum_list_replicate_zero: "sum_list (replicate n (0 :: 'a::comm_monoid_add)) = 0"
  by (induction n) simp_all

lemma list_all_swap: "list_all P xs \<Longrightarrow> P x \<Longrightarrow> list_all P (xs[i := x])"
  by (auto simp: list_all_iff dest!: set_update_subset_insert [THEN subsetD])

lemma sum_list_split:
  fixes f :: "'a \<Rightarrow> 'b::comm_monoid_add"
  assumes "i < length xs"
  shows "sum_list (map f (xs[i := x])) = (sum_list (map f (take i xs)) + sum_list (map f (drop (Suc i) xs))) + f x"
    "sum_list (map f xs) = (sum_list (map f (take i xs)) + sum_list (map f (drop (Suc i) xs))) + f (xs ! i)"
proof -
  show "sum_list (map f (xs[i := x])) = (sum_list (map f (take i xs)) + sum_list (map f (drop (Suc i) xs))) + f x"
    for x unfolding upd_conv_take_nth_drop [OF assms] by (simp add: ac_simps)
  from this [of "xs ! i"] show "sum_list (map f xs) =
      (sum_list (map f (take i xs)) + sum_list (map f (drop (Suc i) xs))) + f (xs ! i)" by simp
qed

lemma sum_list_swap:
  fixes f :: "'a \<Rightarrow> 'b::comm_monoid_add"
  shows "i < length xs \<Longrightarrow>
    sum_list (map f (xs[i := x])) + f (xs ! i) = sum_list (map f xs) + f x"
proof (induction xs arbitrary: i)
  case (Cons y ys)
  show ?case
  proof (cases i)
    case (Suc j)
    then have "sum_list (map f (ys[j := x])) + f (ys ! j) = sum_list (map f ys) + f x"
      using Cons by simp
    then show ?thesis using Suc by (simp add: add.assoc)
  qed (simp add: ac_simps)
qed simp

lemma count_list_le: "(\<Sum>x\<leftarrow>xs. if P x then 1 else 0 :: nat) \<le> length xs"
  by (induction xs) auto

lemma count_list_all:
  "(\<Sum>x\<leftarrow>xs. if P x then 1 else 0 :: nat) = length xs \<longleftrightarrow> list_all P xs"
proof (induction xs)
  case (Cons x xs)
  then show ?case using count_list_le [of P xs] by auto
qed simp

lemma count_list_less:
  "x \<in> set xs \<Longrightarrow> \<not> P x \<Longrightarrow> (\<Sum>x\<leftarrow>xs. if P x then 1 else 0 :: nat) < length xs"
  using count_list_le [of P xs] count_list_all [of P xs] by (auto simp: list_all_iff)

section \<open>Options\<close>

lemma option_eqI: "(\<And>s. a = Some s \<longleftrightarrow> b = Some s) \<Longrightarrow> a = b"
  by (metis not_Some_eq)

section \<open>Text formatting\<close>

text \<open>One digit as \<open>printf\<close> writes it with \<open>%x\<close> (lower case) or \<open>%d\<close>.\<close>

definition hex_digit :: "nat \<Rightarrow> char" where
  "hex_digit d = (if d < 10 then char_of (48 + d) else char_of (87 + d))"

text \<open>
  \<open>snprintf(buf, n + 1, "%0<n>x", v)\<close> for a value of exactly \<open>4 * n\<close> bits: \<open>n\<close> digits,
  zero-padded on the left, so the buffer of \<open>n + 1\<close> characters never truncates it.
\<close>

fun hex_fixed :: "nat \<Rightarrow> nat \<Rightarrow> string" where
  "hex_fixed 0 v = []"
| "hex_fixed (Suc n) v = hex_fixed n (v div 16) @ [hex_digit (v mod 16)]"

text \<open>\<open>std::to_string\<close> of an unsigned value.\<close>

fun to_string :: "nat \<Rightarrow> string" where
  "to_string n =
     (if n < 10 then [hex_digit n] else to_string (n div 10) @ [hex_digit (n mod 10)])"

declare to_string.simps [simp del]

text \<open>\<open>std::to_string\<close> of a signed value.\<close>

definition int_to_string :: "int \<Rightarrow> string" where
  "int_to_string n = (if n < 0 then CHR ''-'' # to_string (nat (- n)) else to_string (nat n))"

text \<open>The value of one character as a digit of base 16, as \<open>strtoull\<close> reads it.\<close>

definition hex_val :: "char \<Rightarrow> nat option" where
  "hex_val c =
     (let k = of_char c :: nat in
      if 48 \<le> k \<and> k \<le> 57 then Some (k - 48)
      else if 97 \<le> k \<and> k \<le> 102 then Some (k - 87)
      else if 65 \<le> k \<and> k \<le> 70 then Some (k - 55)
      else None)"

definition is_space :: "char \<Rightarrow> bool" where
  "is_space c = (let k = of_char c :: nat in k = 32 \<or> (9 \<le> k \<and> k \<le> 13))"

text \<open>The longest prefix of hexadecimal digits, accumulated.\<close>

fun hex_prefix :: "nat \<Rightarrow> string \<Rightarrow> nat" where
  "hex_prefix acc [] = acc"
| "hex_prefix acc (c # cs) =
     (case hex_val c of None \<Rightarrow> acc | Some d \<Rightarrow> hex_prefix (16 * acc + d) cs)"

text \<open>
  The optional \<open>0x\<close> or \<open>0X\<close> of base 16: it is skipped when a hexadecimal digit follows it;
  otherwise the subject sequence is the single \<open>0\<close>.
\<close>

definition skip_0x :: "string \<Rightarrow> string" where
  "skip_0x s =
     (case s of
        a # b # c # r \<Rightarrow>
          (if a = CHR ''0'' \<and> (b = CHR ''x'' \<or> b = CHR ''X'') \<and> hex_val c \<noteq> None
           then c # r else s)
      | _ \<Rightarrow> s)"

text \<open>
  \<open>strtoull(s, nullptr, 16)\<close>: leading white space, an optional sign, an optional prefix, the
  digits; a value above \<open>ULLONG_MAX\<close> gives \<open>ULLONG_MAX\<close>, and a minus sign negates in the
  unsigned type. No digits at all gives 0.
\<close>

definition strtoull16 :: "string \<Rightarrow> u64" where
  "strtoull16 s =
     (let s1 = dropWhile is_space s;
          neg = (s1 \<noteq> [] \<and> hd s1 = CHR ''-'');
          s2 = (if s1 \<noteq> [] \<and> (hd s1 = CHR ''-'' \<or> hd s1 = CHR ''+'') then tl s1 else s1);
          v = hex_prefix 0 (skip_0x s2)
      in if 2 ^ 64 \<le> v then - 1
         else if neg then - of_nat v
         else of_nat v)"

text \<open>A C string view of a \<open>std::string\<close>: \<open>c_str()\<close> ends at the first NUL.\<close>

definition c_str :: "string \<Rightarrow> string" where
  "c_str s = takeWhile (\<lambda>c. c \<noteq> CHR 0x00) s"

text \<open>\<open>static_cast<int>(x)\<close> of a 64-bit count: the low 32 bits, read as two's complement.\<close>

definition int_cast32 :: "int \<Rightarrow> int" where
  "int_cast32 x = sint (word_of_int x :: u32)"

section \<open>Facts on the formatting calls\<close>

lemma hex_fixed_numeral:
  "hex_fixed (numeral n) v = hex_fixed (pred_numeral n) (v div 16) @ [hex_digit (v mod 16)]"
  unfolding numeral_eq_Suc [of n] by simp

lemma length_hex_fixed [simp]: "length (hex_fixed n v) = n"
  by (induction n arbitrary: v) auto

lemma of_char_hex_digit:
  "d < 16 \<Longrightarrow> of_char (hex_digit d) = (if d < 10 then 48 + d else 87 + d :: nat)"
  by (auto simp: hex_digit_def)

lemma hex_val_digit [simp]: "d < 16 \<Longrightarrow> hex_val (hex_digit d) = Some d"
  by (auto simp: hex_val_def of_char_hex_digit Let_def)

lemma hex_digit_inj: "a < 16 \<Longrightarrow> b < 16 \<Longrightarrow> hex_digit a = hex_digit b \<longleftrightarrow> a = b"
  by (metis hex_val_digit option.inject)

lemma hex_prefix_append:
  "list_all (\<lambda>c. hex_val c \<noteq> None) xs \<Longrightarrow>
   hex_prefix acc (xs @ ys) = hex_prefix (hex_prefix acc xs) ys"
  by (induction xs arbitrary: acc) auto

lemma hex_fixed_digits: "list_all (\<lambda>c. hex_val c \<noteq> None) (hex_fixed n v)"
  by (induction n arbitrary: v) auto

lemma hex_prefix_hex_fixed:
  "v < 16 ^ n \<Longrightarrow> hex_prefix acc (hex_fixed n v) = 16 ^ n * acc + v"
proof (induction n arbitrary: v)
  case 0
  then show ?case by simp
next
  case (Suc n)
  have "v div 16 < 16 ^ n" using Suc.prems by (simp add: less_mult_imp_div_less mult.commute)
  then have "hex_prefix acc (hex_fixed n (v div 16)) = 16 ^ n * acc + v div 16"
    by (rule Suc.IH)
  then show ?case
    by (simp only: hex_fixed.simps hex_prefix_append [OF hex_fixed_digits])
       (simp add: algebra_simps)
qed

lemma hex_fixed_inj:
  "v < 16 ^ n \<Longrightarrow> w < 16 ^ n \<Longrightarrow> hex_fixed n v = hex_fixed n w \<longleftrightarrow> v = w"
  by (metis hex_prefix_hex_fixed add_left_cancel)

lemma to_string_nonempty [simp]: "to_string n \<noteq> []" "[] \<noteq> to_string n"
  by (subst to_string.simps, simp)+

lemma to_string_inj: "to_string m = to_string n \<longleftrightarrow> m = n"
proof
  show "to_string m = to_string n \<Longrightarrow> m = n"
  proof (induction m arbitrary: n rule: to_string.induct)
    case (1 m)
    note eq = "1.prems" [unfolded to_string.simps [of m] to_string.simps [of n]]
    show ?case
    proof (cases "m < 10"; cases "n < 10")
      assume "m < 10" "n < 10"
      then show ?thesis using eq by (simp add: hex_digit_inj)
    next
      assume m: "\<not> m < 10" and n: "\<not> n < 10"
      from eq m n have "to_string (m div 10) = to_string (n div 10)"
        and "hex_digit (m mod 10) = hex_digit (n mod 10)" by auto
      moreover have "m mod 10 < 16" "n mod 10 < 16" by simp_all
      ultimately have "m div 10 = n div 10" "m mod 10 = n mod 10"
        using "1.IH" [OF m] by (auto simp: hex_digit_inj)
      then show ?thesis by (metis div_mult_mod_eq)
    qed (use eq in auto)
  qed
qed simp

lemma hex_val_x [simp]: "hex_val (CHR ''x'') = None" "hex_val (CHR ''X'') = None"
  by (simp_all add: hex_val_def)

lemma skip_0x_digits: "list_all (\<lambda>c. hex_val c \<noteq> None) s \<Longrightarrow> skip_0x s = s"
  by (cases s rule: remdups_adj.cases) (auto simp: skip_0x_def split: list.splits)

lemma hex_digit_not_space: "d < 16 \<Longrightarrow> \<not> is_space (hex_digit d)"
  by (auto simp: is_space_def of_char_hex_digit Let_def)

lemma hex_val_not_sign:
  "hex_val c \<noteq> None \<Longrightarrow> c \<noteq> CHR ''-'' \<and> c \<noteq> CHR ''+'' \<and> \<not> is_space c \<and> c \<noteq> CHR '':''"
  by (auto simp: hex_val_def is_space_def Let_def split: if_splits)

text \<open>Reading back what \<open>%016lx\<close> wrote.\<close>

lemma strtoull16_hex_fixed: "strtoull16 (hex_fixed 16 (unat (v :: u64))) = v"
proof -
  let ?s = "hex_fixed 16 (unat v)"
  have dig: "\<forall>c \<in> set ?s. hex_val c \<noteq> None"
    using hex_fixed_digits [of 16 "unat v"] by (simp add: list_all_iff)
  have len: "length ?s = 16" by simp
  then obtain c cs where s: "?s = c # cs" by (cases ?s) auto
  have c: "hex_val c \<noteq> None" using dig s by simp
  have sk: "skip_0x ?s = ?s"
    by (rule skip_0x_digits) (rule hex_fixed_digits)
  have dw: "dropWhile is_space ?s = ?s" using hex_val_not_sign [OF c] s by simp
  have val: "hex_prefix 0 ?s = unat v"
    using hex_prefix_hex_fixed [of "unat v" 16 0] unat_u64_less [of v] by simp
  show ?thesis
    unfolding strtoull16_def Let_def dw
    using hex_val_not_sign [OF c] s sk val unat_u64_less [of v] by simp
qed

end
