(* ===== verification/Crc_Algebra.thy ===== *)
theory Crc_Algebra
  imports Prelude
begin

text \<open>
  The mathematics both CRC implementations share, for a reflected generator polynomial
  \<open>p\<close> of degree 32: one step of the shift register, its linearity over \<open>XOR\<close>, its
  injectivity when the top bit of \<open>p\<close> is set, the table lemma, and the bit-serial
  reference checksum. Then the two interfaces the rest of the system relies on: a
  checksum that can be fed in chunks, and one that detects short bursts.
\<close>

section \<open>The shift register\<close>

definition crc_shift :: "u32 \<Rightarrow> u32 \<Rightarrow> u32" where
  "crc_shift p c = drop_bit 1 c XOR (if odd c then p else 0)"

lemma odd_xor_word: "odd (a XOR b) \<longleftrightarrow> odd (a :: u32) \<noteq> odd b"
  by (simp flip: bit_0 add: bit_xor_iff)

lemma crc_shift_zero [crc_simps]: "crc_shift p 0 = 0"
  by (simp add: crc_shift_def)

lemma crc_shift_xor [crc_simps]: "crc_shift p (a XOR b) = crc_shift p a XOR crc_shift p b"
  by (auto simp: crc_shift_def odd_xor_word drop_bit_xor ac_simps)

lemma crc_shifts_zero [crc_simps]: "(crc_shift p ^^ n) 0 = 0"
  by (induction n) (simp_all add: crc_simps)

lemma crc_shifts_xor [crc_simps]:
  "(crc_shift p ^^ n) (a XOR b) = (crc_shift p ^^ n) a XOR (crc_shift p ^^ n) b"
  by (induction n) (simp_all add: crc_simps)

lemma crc_shift_inj:
  assumes top: "bit p 31" and eq: "crc_shift p a = crc_shift p b"
  shows "a = b"
proof -
  have top_bit: "bit (crc_shift p c) 31 \<longleftrightarrow> odd c" for c
    using top bit_imp_le_length [of c 32] by (auto simp: crc_shift_def bit_simps)
  have odd: "odd a \<longleftrightarrow> odd b" using eq top_bit by metis
  with eq have "drop_bit 1 a = drop_bit 1 b" by (auto simp: crc_shift_def split: if_splits)
  with odd show ?thesis
    by (metis bits_ident even_take_bit_eq one_neq_zero take_bit_Suc_0 One_nat_def
        odd_iff_mod_2_eq_one even_iff_mod_2_eq_zero)
qed

lemma crc_shifts_inj:
  assumes "bit p 31" and "(crc_shift p ^^ n) a = (crc_shift p ^^ n) b"
  shows "a = b"
  using assms(2) by (induction n) (auto dest: crc_shift_inj [OF assms(1)])

text \<open>Shifting out zeros is a plain shift.\<close>

lemma crc_shifts_low_zero:
  "take_bit n x = 0 \<Longrightarrow> (crc_shift p ^^ n) x = drop_bit n x"
proof (induction n)
  case 0
  then show ?case by simp
next
  case (Suc n)
  have bits: "\<not> bit x i" if "i < Suc n" for i
    using Suc.prems that by (metis bit_take_bit_iff bit_0_eq bot_fun_def bot_bool_def)
  have "take_bit n x = 0"
    using bits by (intro bit_word_eqI) (auto simp: bit_take_bit_iff)
  then have "(crc_shift p ^^ Suc n) x = crc_shift p (drop_bit n x)" using Suc.IH by simp
  also have "\<dots> = drop_bit 1 (drop_bit n x)"
    using bits by (simp add: crc_shift_def flip: bit_0) (simp add: bit_drop_bit_eq)
  finally show ?case by simp
qed

lemma crc_shifts_push:
  "drop_bit n (push_bit n x) = x \<Longrightarrow> (crc_shift p ^^ n) (push_bit n x) = x"
  by (subst crc_shifts_low_zero) (auto intro!: bit_word_eqI simp: bit_simps)

text \<open>The table lemma: eight steps are one shift by a byte and one table entry.\<close>

lemma crc_shifts_byte:
  "(crc_shift p ^^ 8) x = drop_bit 8 x XOR (crc_shift p ^^ 8) (x AND 255)"
proof -
  have split: "x = (x AND 255) XOR (x AND NOT 255)" for x :: u32
    by (rule bit_word_eqI) (auto simp: bit_simps)
  have m: "(255 :: u32) = mask 8" by (simp add: mask_eq_decr_exp)
  have low: "take_bit 8 (x AND NOT 255) = 0"
    by (rule bit_word_eqI) (auto simp: m bit_simps)
  have high: "drop_bit 8 (x AND NOT 255) = drop_bit 8 x"
    by (rule bit_word_eqI) (auto simp: m bit_simps dest: bit_imp_le_length)
  have "(crc_shift p ^^ 8) x
      = (crc_shift p ^^ 8) (x AND 255) XOR (crc_shift p ^^ 8) (x AND NOT 255)"
    by (subst split) (rule crc_shifts_xor)
  then show ?thesis
    using crc_shifts_low_zero [OF low] high by (simp add: xor.commute)
qed

section \<open>Absorbing bytes\<close>

definition crc_byte :: "u32 \<Rightarrow> u32 \<Rightarrow> u8 \<Rightarrow> u32" where
  "crc_byte p s b = (crc_shift p ^^ 8) (s XOR ucast b)"

definition crc_bytes :: "u32 \<Rightarrow> u32 \<Rightarrow> u8 list \<Rightarrow> u32" where
  "crc_bytes p s bs = foldl (crc_byte p) s bs"

lemma crc_bytes_Nil [crc_simps]: "crc_bytes p s [] = s"
  and crc_bytes_Cons [crc_simps]: "crc_bytes p s (b # bs) = crc_bytes p (crc_byte p s b) bs"
  and crc_bytes_append [crc_simps]: "crc_bytes p s (xs @ ys) = crc_bytes p (crc_bytes p s xs) ys"
  by (simp_all add: crc_bytes_def)

lemma crc_byte_xor:
  "crc_byte p (s XOR t) (a XOR b) = crc_byte p s a XOR crc_byte p t b"
proof -
  have "(ucast (a XOR b) :: u32) = ucast a XOR ucast b" by (rule unsigned_xor_eq)
  then have "(s XOR t) XOR ucast (a XOR b) = (s XOR ucast a) XOR (t XOR ucast b)"
    by (simp add: ac_simps)
  then show ?thesis unfolding crc_byte_def by (simp only: crc_shifts_xor [symmetric])
qed

lemma crc_bytes_xor:
  "length xs = length ys \<Longrightarrow>
   crc_bytes p (s XOR t) (map2 (XOR) xs ys) = crc_bytes p s xs XOR crc_bytes p t ys"
  by (induction xs ys arbitrary: s t rule: list_induct2) (simp_all add: crc_simps crc_byte_xor)

lemma crc_bytes_state_inj:
  "bit p 31 \<Longrightarrow> crc_bytes p s xs = crc_bytes p t xs \<longleftrightarrow> s = t"
proof (induction xs arbitrary: s t)
  case (Cons x xs)
  then show ?case by (auto simp: crc_simps crc_byte_def dest: crc_shifts_inj)
qed (simp add: crc_simps)

text \<open>A block of at most four bytes enters the register as one little-endian word.\<close>

fun le_word :: "u8 list \<Rightarrow> u32" where
  "le_word [] = 0"
| "le_word (b # bs) = ucast b XOR push_bit 8 (le_word bs)"

lemma bit_le_word: "bit (le_word bs) n \<Longrightarrow> n < 8 * length bs"
proof (induction bs arbitrary: n)
  case (Cons b bs)
  from Cons.prems consider "bit b n" | "8 \<le> n" "bit (le_word bs) (n - 8)"
    by (auto simp: bit_simps)
  then show ?case
  proof cases
    case 1
    then have "n < 8" using bit_imp_le_length [of b n] by simp
    then show ?thesis by simp
  next
    case 2
    then show ?thesis using Cons.IH [of "n - 8"] by simp
  qed
qed simp

lemma crc_bytes_block:
  "length bs \<le> 4 \<Longrightarrow> crc_bytes p s bs = (crc_shift p ^^ (8 * length bs)) (s XOR le_word bs)"
proof (induction bs arbitrary: s)
  case (Cons b bs)
  let ?w = "le_word bs"
  have small: "drop_bit 8 (push_bit 8 ?w) = ?w"
  proof (rule bit_word_eqI)
    fix n assume "n < LENGTH(32)"
    then show "bit (drop_bit 8 (push_bit 8 ?w)) n = bit ?w n"
      using bit_le_word [of bs n] Cons.prems by (auto simp: bit_simps)
  qed
  have "crc_bytes p s (b # bs)
      = (crc_shift p ^^ (8 * length bs)) ((crc_shift p ^^ 8) (s XOR ucast b) XOR ?w)"
    using Cons by (simp add: crc_simps crc_byte_def)
  moreover have "(crc_shift p ^^ 8) (s XOR ucast b) XOR ?w
      = (crc_shift p ^^ 8) (s XOR ucast b XOR push_bit 8 ?w)"
    by (simp only: crc_shifts_xor crc_shifts_push [OF small] xor.assoc)
  moreover have "(crc_shift p ^^ (8 * length bs)) ((crc_shift p ^^ 8) (s XOR ucast b XOR push_bit 8 ?w))
      = (crc_shift p ^^ (8 * length bs + 8)) (s XOR le_word (b # bs))"
    by (simp only: funpow_add comp_apply le_word.simps)
  ultimately show ?case by (simp add: add.commute)
qed (simp add: crc_simps)

lemma le_word_inj:
  "length xs = length ys \<Longrightarrow> length xs \<le> 4 \<Longrightarrow> le_word xs = le_word ys \<longleftrightarrow> xs = ys"
proof (induction xs ys rule: list_induct2)
  case (Cons x xs y ys)
  have small: "drop_bit 8 (push_bit 8 (le_word zs)) = le_word zs" if "length zs \<le> 3" for zs
  proof (rule bit_word_eqI)
    fix n assume "n < LENGTH(32)"
    then show "bit (drop_bit 8 (push_bit 8 (le_word zs))) n = bit (le_word zs) n"
      using bit_le_word [of zs n] that by (auto simp: bit_simps)
  qed
  have low: "ucast (le_word (z # zs)) = z" for z :: u8 and zs
    by (rule bit_word_eqI) (auto simp: bit_simps)
  have high: "drop_bit 8 (le_word (z # zs)) = le_word zs" if "length zs \<le> 3" for z zs
  proof -
    have "drop_bit 8 (ucast z :: u32) = 0"
      by (rule bit_word_eqI) (auto simp: bit_simps dest: bit_imp_le_length)
    then show ?thesis using small [OF that] by (simp add: drop_bit_xor)
  qed
  show ?case
  proof
    assume eq: "le_word (x # xs) = le_word (y # ys)"
    then have "x = y" using low by metis
    moreover have "le_word xs = le_word ys" 
      using arg_cong [OF eq, of "drop_bit 8"] high [of xs x] high [of ys y] Cons by simp
    ultimately show "x # xs = y # ys" using Cons by simp
  qed simp
qed simp

text \<open>
  A change confined to at most four consecutive bytes changes the register, and no later
  byte can undo it.
\<close>

lemma crc_burst_detected:
  assumes "bit p 31" and "length xs = length ys" and "length xs \<le> 4"
    and eq: "crc_bytes p s (pre @ xs @ post) = crc_bytes p s (pre @ ys @ post)"
  shows "xs = ys"
proof -
  let ?s = "crc_bytes p s pre"
  from eq have "crc_bytes p ?s xs = crc_bytes p ?s ys"
    by (simp add: crc_simps crc_bytes_state_inj [OF assms(1)])
  then have "?s XOR le_word xs = ?s XOR le_word ys"
    using assms(2,3) by (auto simp: crc_bytes_block dest: crc_shifts_inj [OF assms(1)])
  then show ?thesis using le_word_inj assms(2,3) by simp
qed

text \<open>Evaluation on concrete values.\<close>

lemma crc_byte_eval:
  "crc_byte p s b = crc_shift p (crc_shift p (crc_shift p (crc_shift p
     (crc_shift p (crc_shift p (crc_shift p (crc_shift p (s XOR ucast b))))))))"
  by (simp add: crc_byte_def eval_nat_numeral)

lemma crc_shift_odd: "odd c \<Longrightarrow> crc_shift p c = drop_bit 1 c XOR p"
  and crc_shift_even: "even c \<Longrightarrow> crc_shift p c = drop_bit 1 c"
  by (simp_all add: crc_shift_def)

lemmas crc_eval = crc_bytes_def crc_byte_eval crc_shift_odd crc_shift_even

section \<open>The bit-serial reference\<close>

text \<open>
  The checksum as its definition has it: the register starts with all ones, takes the
  message one bit at a time (least significant bit of each byte first), and is complemented
  at the end.
\<close>

definition crc_bit_step :: "u32 \<Rightarrow> u32 \<Rightarrow> bool \<Rightarrow> u32" where
  "crc_bit_step p s b = drop_bit 1 s XOR (if odd s \<noteq> b then p else 0)"

definition byte_bits :: "u8 \<Rightarrow> bool list" where
  "byte_bits b = map (bit b) [0..<8]"

definition crc_reference :: "u32 \<Rightarrow> u8 list \<Rightarrow> u32" where
  "crc_reference p bs = NOT (foldl (crc_bit_step p) (NOT 0) (concat (map byte_bits bs)))"

lemma crc_bit_step_shift: "crc_bit_step p s b = crc_shift p (s XOR of_bool b)"
proof -
  have "drop_bit 1 (of_bool b :: u32) = 0" by (cases b) simp_all
  then show ?thesis by (cases b) (auto simp: crc_bit_step_def crc_shift_def odd_xor_word drop_bit_xor)
qed

lemma crc_bits_prefix:
  "n \<le> 8 \<Longrightarrow> foldl (crc_bit_step p) s (map (bit b) [0..<n])
    = (crc_shift p ^^ n) (s XOR take_bit n (ucast (b :: u8)))"
proof (induction n)
  case (Suc n)
  let ?w = "push_bit n (of_bool (bit b n)) :: u32"
  have "drop_bit n (push_bit n (of_bool (bit b n))) = (of_bool (bit b n) :: u32)"
    using Suc.prems by (intro bit_word_eqI) (auto simp: bit_simps)
  then have bitpos: "(crc_shift p ^^ n) ?w = of_bool (bit b n)" by (rule crc_shifts_push)
  have tb: "take_bit (Suc n) (ucast b :: u32) = take_bit n (ucast b) XOR ?w"
    using Suc.prems by (intro bit_word_eqI) (auto simp: bit_simps less_Suc_eq)
  have "foldl (crc_bit_step p) s (map (bit b) [0..<Suc n])
      = crc_shift p ((crc_shift p ^^ n) (s XOR take_bit n (ucast b)) XOR of_bool (bit b n))"
    using Suc by (simp flip: crc_bit_step_shift)
  also have "\<dots> = crc_shift p ((crc_shift p ^^ n) (s XOR take_bit (Suc n) (ucast b)))"
    by (simp only: tb crc_shifts_xor bitpos xor.assoc)
  finally show ?case by simp
qed simp

lemma crc_byte_bits: "foldl (crc_bit_step p) s (byte_bits b) = crc_byte p s b"
proof -
  have "take_bit 8 (ucast b :: u32) = ucast b"
    by (rule bit_word_eqI) (auto simp: bit_simps dest: bit_imp_le_length)
  then show ?thesis using crc_bits_prefix [of 8 p s b] by (simp add: byte_bits_def crc_byte_def)
qed

lemma crc_reference_bytes: "crc_reference p bs = NOT (crc_bytes p (NOT 0) bs)"
proof -
  have "foldl (crc_bit_step p) s (concat (map byte_bits bs)) = crc_bytes p s bs" for s
    by (induction bs arbitrary: s) (simp_all add: crc_byte_bits crc_simps)
  then show ?thesis by (simp add: crc_reference_def)
qed

section \<open>The interfaces\<close>

text \<open>A checksum that can be fed piece by piece.\<close>

locale stream_checksum =
  fixes init :: "'s" and update :: "'s \<Rightarrow> u8 list \<Rightarrow> 's" and finalize :: "'s \<Rightarrow> u32"
  assumes update_Nil: "update s [] = s"
    and update_append: "update s (xs @ ys) = update (update s xs) ys"
begin

lemma update_chunks: "foldl update s chunks = update s (concat chunks)"
  by (induction chunks arbitrary: s) (simp_all add: update_Nil update_append)

lemma chunked_digest: "finalize (foldl update init chunks) = finalize (update init (concat chunks))"
  by (simp add: update_chunks)

end

text \<open>One whose register forgets nothing and separates short blocks.\<close>

locale burst_checksum = stream_checksum +
  assumes finalize_inj: "finalize s = finalize t \<Longrightarrow> s = t"
    and update_inj: "update s xs = update t xs \<Longrightarrow> s = t"
    and block_inj: "length xs = length ys \<Longrightarrow> length xs \<le> 4 \<Longrightarrow>
      update s xs = update s ys \<Longrightarrow> xs = ys"
begin

lemma burst_detected:
  assumes "length xs = length ys" and "length xs \<le> 4"
    and "finalize (update init (pre @ xs @ post)) = finalize (update init (pre @ ys @ post))"
  shows "xs = ys"
proof -
  have "update (update init pre) xs = update (update init pre) ys"
    using finalize_inj [OF assms(3)] update_inj by (simp add: update_append)
  then show ?thesis using block_inj assms(1,2) by blast
qed

end

end
