(* ===== verification/Client_Crc32c.thy ===== *)
theory Client_Crc32c
  imports Backend_Crc32c
begin

text \<open>
  The client's own copy of CRC-32C (\<open>client/src/data/crc32c.cpp\<close>). The repository keeps the
  two copies apart on purpose and asks that every change be made to both; the lemmas show
  that the copies compute the same function, with the client's copy modelled from its own
  source file, and that it has the streaming and burst-detection laws as well.
\<close>

section \<open>The client's table and operations\<close>

definition cl_kPoly :: u32 where
  "cl_kPoly = 0x82F63B78"

definition cl_table_step :: "u32 \<Rightarrow> u32" where
  "cl_table_step c = (if c AND 1 \<noteq> 0 then drop_bit 1 c XOR cl_kPoly else drop_bit 1 c)"

fun cl_table_loop :: "nat \<Rightarrow> u32 \<Rightarrow> u32" where
  "cl_table_loop 0 c = c"
| "cl_table_loop (Suc k) c = cl_table_loop k (cl_table_step c)"

definition cl_MakeTable :: "u32 list" where
  "cl_MakeTable = map (\<lambda>i. cl_table_loop 8 (word_of_nat i)) [0..<256]"

definition cl_kTable :: "u32 list" where
  "cl_kTable = cl_MakeTable"

definition cl_Crc32cInit :: u32 where
  "cl_Crc32cInit = 0xFFFFFFFF"

fun cl_Crc32cUpdate :: "u32 \<Rightarrow> u8 list \<Rightarrow> u32" where
  "cl_Crc32cUpdate state [] = state"
| "cl_Crc32cUpdate state (b # p) =
     cl_Crc32cUpdate (drop_bit 8 state XOR cl_kTable ! unat ((state XOR ucast b) AND 0xFF)) p"

definition cl_Crc32cFinalize :: "u32 \<Rightarrow> u32" where
  "cl_Crc32cFinalize state = state XOR 0xFFFFFFFF"

definition cl_Crc32c :: "u8 list \<Rightarrow> u32" where
  "cl_Crc32c data = cl_Crc32cFinalize (cl_Crc32cUpdate cl_Crc32cInit data)"

definition cl_Crc32c_text :: "string \<Rightarrow> u32" where
  "cl_Crc32c_text data =
     cl_Crc32cFinalize (cl_Crc32cUpdate cl_Crc32cInit (map of_char data))"

section \<open>Agreement with the backend's copy\<close>

lemma cl_table_loop_eq: "cl_table_loop k c = table_loop k c"
  by (induction k arbitrary: c)
     (simp_all add: cl_table_step_def table_step_def cl_kPoly_def kPoly_def)

lemma cl_kTable_eq: "cl_kTable = kTable"
  by (simp add: cl_kTable_def cl_MakeTable_def kTable_def MakeTable_def cl_table_loop_eq)

lemma cl_Crc32cUpdate_eq: "cl_Crc32cUpdate s bs = Crc32cUpdate s bs"
  by (induction bs arbitrary: s) (simp_all add: cl_kTable_eq)

lemma cl_Crc32c_eq: "cl_Crc32c bs = Crc32c bs"
  by (simp add: cl_Crc32c_def Crc32c_def cl_Crc32cUpdate_eq cl_Crc32cInit_def Crc32cInit_def
      cl_Crc32cFinalize_def Crc32cFinalize_def)

interpretation client_crc: burst_checksum cl_Crc32cInit cl_Crc32cUpdate cl_Crc32cFinalize
proof -
  have "cl_Crc32cUpdate = Crc32cUpdate"
    "cl_Crc32cFinalize = Crc32cFinalize"
    by (simp_all add: fun_eq_iff cl_Crc32cUpdate_eq
        cl_Crc32cFinalize_def Crc32cFinalize_def)
  then show "burst_checksum cl_Crc32cUpdate cl_Crc32cFinalize"
    using backend_crc.burst_checksum_axioms by simp
qed

end
