(* ===== verification/Base64_Crc.thy ===== *)
theory Base64_Crc
  imports Backend_Crc32c
begin

text \<open>
  The decoder of the base64 checksum header (\<open>ParseBase64Crc32c\<close> of
  \<open>backend/src/common/crc32c.cpp\<close>) and its correctness against the RFC 4648 encoding of a
  big-endian 32-bit value: the round trip, the rejections, and what it accepts beyond the
  canonical eight characters.
\<close>

section \<open>The decoder\<close>

text \<open>The lambda \<open>idx\<close>.\<close>

definition b64_idx :: "char \<Rightarrow> int" where
  "b64_idx c =
     (let k = of_char c :: int in
      if 65 \<le> k \<and> k \<le> 90 then k - 65
      else if 97 \<le> k \<and> k \<le> 122 then k - 97 + 26
      else if 48 \<le> k \<and> k \<le> 57 then k - 48 + 52
      else if c = CHR ''+'' then 62
      else if c = CHR ''/'' then 63
      else - 1)"

text \<open>
  The loop over the characters, with the 32-bit accumulator \<open>buf\<close>, the count of pending
  bits and the bytes decoded so far; \<open>None\<close> is the \<open>return std::nullopt\<close> of the body.
\<close>

fun b64_loop :: "string \<Rightarrow> u32 \<Rightarrow> int \<Rightarrow> u8 list \<Rightarrow> u8 list option" where
  "b64_loop [] buf bits out = Some out"
| "b64_loop (c # cs) buf bits out =
     (if c = CHR ''='' then Some out
      else
        let v = b64_idx c in
        if v < 0 then None
        else
          let buf' = push_bit 6 buf OR word_of_int v;
              bits' = bits + 6
          in if 8 \<le> bits'
             then b64_loop cs buf' (bits' - 8)
                    (out @ [ucast (drop_bit (nat (bits' - 8)) buf' AND 0xFF)])
             else b64_loop cs buf' bits' out)"

definition ParseBase64Crc32c :: "string \<Rightarrow> u32 option" where
  "ParseBase64Crc32c s =
     (if s = [] then None
      else case b64_loop s 0 0 [] of
        None \<Rightarrow> None
      | Some out \<Rightarrow>
          if length out < 4 then None
          else Some (push_bit 24 (ucast (out ! 0)) OR push_bit 16 (ucast (out ! 1)) OR
                     push_bit 8 (ucast (out ! 2)) OR ucast (out ! 3)))"

section \<open>The reference encoder\<close>

text \<open>The base64 alphabet of RFC 4648, and the encoding of the four big-endian bytes.\<close>

definition b64_alphabet :: string where
  "b64_alphabet = ''ABCDEFGHIJKLMNOPQRSTUVWXYZabcdefghijklmnopqrstuvwxyz0123456789+/''"

definition b64_char :: "u32 \<Rightarrow> char" where
  "b64_char w = b64_alphabet ! unat (take_bit 6 w)"

definition encode_crc32c :: "u32 \<Rightarrow> string" where
  "encode_crc32c w =
     [b64_char (drop_bit 26 w), b64_char (drop_bit 20 w), b64_char (drop_bit 14 w),
      b64_char (drop_bit 8 w), b64_char (drop_bit 2 w), b64_char (push_bit 4 w),
      CHR ''='', CHR ''='']"

section \<open>Correctness\<close>

lemma b64_idx_alphabet: "\<forall>k < 64. b64_idx (b64_alphabet ! k) = int k \<and> b64_alphabet ! k \<noteq> CHR ''=''"
proof -
  have "list_all (\<lambda>k. b64_idx (b64_alphabet ! k) = int k \<and> b64_alphabet ! k \<noteq> CHR ''='') [0..<64]"
    by code_simp
  then show ?thesis by (simp add: list_all_iff)
qed

lemma unat_take_bit_6: "unat (take_bit 6 (w :: u32)) < 64"
proof -
  have "unat (take_bit 6 w) = take_bit 6 (unat w)" by (simp add: unsigned_take_bit_eq)
  then show ?thesis using take_bit_nat_less_exp [of 6 "unat w"] by simp
qed

lemma b64_idx_char: "b64_idx (b64_char w) = uint (take_bit 6 w)"
  using b64_idx_alphabet unat_take_bit_6 [of w] by (simp add: b64_char_def)

lemma b64_char_not_pad [simp]: "b64_char w \<noteq> CHR ''=''"
  using b64_idx_alphabet unat_take_bit_6 [of w] by (simp add: b64_char_def)

lemma b64_loop_char:
  "b64_loop (b64_char w # cs) buf bits out =
     (let buf' = push_bit 6 buf OR take_bit 6 w in
      if 2 \<le> bits
      then b64_loop cs buf' (bits - 2) (out @ [ucast (drop_bit (nat (bits - 2)) buf' AND 0xFF)])
      else b64_loop cs buf' (bits + 6) out)"
  by (simp add: b64_idx_char Let_def)

lemma decode_four:
  fixes w :: u32
  defines "b0 \<equiv> take_bit 6 (drop_bit 26 w)"
  defines "b1 \<equiv> push_bit 6 b0 OR take_bit 6 (drop_bit 20 w)"
  defines "b2 \<equiv> push_bit 6 b1 OR take_bit 6 (drop_bit 14 w)"
  defines "b3 \<equiv> push_bit 6 b2 OR take_bit 6 (drop_bit 8 w)"
  defines "b4 \<equiv> push_bit 6 b3 OR take_bit 6 (drop_bit 2 w)"
  defines "b5 \<equiv> push_bit 6 b4 OR take_bit 6 (push_bit 4 w)"
  shows "b64_loop (encode_crc32c w) 0 0 [] =
     Some [ucast (drop_bit 4 b1 AND 255), ucast (drop_bit 2 b2 AND 255), ucast (b3 AND 255),
           ucast (drop_bit 4 b5 AND 255)]"
  unfolding encode_crc32c_def b64_loop_char Let_def assms by simp

lemma byte_eqI:
  fixes v w :: u8
  assumes "bit v 0 = bit w 0" "bit v 1 = bit w 1" "bit v 2 = bit w 2" "bit v 3 = bit w 3"
    and "bit v 4 = bit w 4" "bit v 5 = bit w 5" "bit v 6 = bit w 6" "bit v 7 = bit w 7"
  shows "v = w"
proof (rule bit_word_eqI)
  fix n assume "n < LENGTH(8)"
  then have "n \<in> {0, 1, 2, 3, 4, 5, 6, 7}" by auto
  then show "bit v n = bit w n" using assms by auto
qed

lemma decoded_bytes:
  "b64_loop (encode_crc32c w) 0 0 [] =
     Some [ucast (drop_bit 24 w), ucast (drop_bit 16 w), ucast (drop_bit 8 w), ucast w]"
proof -
  have m: "(255 :: u32) = mask 8" by (simp add: mask_eq_decr_exp)
  show ?thesis
    unfolding decode_four m by (auto intro!: byte_eqI simp: bit_simps)
qed

lemma be_bytes_word:
  "push_bit 24 (ucast (ucast (drop_bit 24 w) :: u8) :: u32) OR push_bit 16 (ucast (ucast (drop_bit 16 w) :: u8))
     OR push_bit 8 (ucast (ucast (drop_bit 8 w) :: u8)) OR ucast (ucast w :: u8) = (w :: u32)"
proof (rule bit_word_eqI)
  fix n assume "n < LENGTH(32)"
  then consider "n < 8" | "8 \<le> n" "n < 16" | "16 \<le> n" "n < 24" | "24 \<le> n" "n < 32"
    by fastforce
  then show "bit (push_bit 24 (ucast (ucast (drop_bit 24 w) :: u8) :: u32)
      OR push_bit 16 (ucast (ucast (drop_bit 16 w) :: u8))
      OR push_bit 8 (ucast (ucast (drop_bit 8 w) :: u8)) OR ucast (ucast w :: u8)) n = bit w n"
    by cases (auto simp: bit_simps)
qed

lemma Parse_encode: "ParseBase64Crc32c (encode_crc32c w) = Some w"
proof -
  have "encode_crc32c w \<noteq> []" by (simp add: encode_crc32c_def)
  then show ?thesis by (simp add: ParseBase64Crc32c_def decoded_bytes be_bytes_word)
qed

text \<open>
  A padding character ends the scan, and a character outside the alphabet before it
  rejects the whole header.
\<close>

lemma b64_loop_pad: "b64_loop (xs @ CHR ''='' # ys) buf bits out = b64_loop (xs @ [CHR ''='']) buf bits out"
  by (induction xs arbitrary: buf bits out) (simp_all add: Let_def)

lemma b64_loop_bad:
  "CHR ''='' \<notin> set xs \<Longrightarrow> b64_idx c < 0 \<Longrightarrow> c \<noteq> CHR ''='' \<Longrightarrow>
   b64_loop (xs @ c # ys) buf bits out = None"
  by (induction xs arbitrary: buf bits out) (auto simp: Let_def)

end
