(* ===== verification/Crc_Properties.thy ===== *)
theory Crc_Properties
  imports Client_Crc32c Base64_Crc
begin

text \<open>
  The properties of the checksum code: the backend's and the client's CRC-32C and the decoder
  of the base64 checksum header.
\<close>

section \<open>What the decoder accepts\<close>

lemma b64_loop_takeWhile: "b64_loop s buf bits out = b64_loop (takeWhile (\<lambda>c. c \<noteq> CHR ''='') s) buf bits out"
  by (induction s buf bits out rule: b64_loop.induct) (auto simp: Let_def)

lemma b64_loop_accepts:
  assumes "list_all (\<lambda>c. c \<noteq> CHR ''='' \<and> 0 \<le> b64_idx c) s" and "0 \<le> bits" "bits < 8"
  shows "\<exists>res. b64_loop s buf bits out = Some res \<and>
     int (length res) = int (length out) + (6 * int (length s) + bits) div 8"
  using assms
proof (induction s arbitrary: buf bits out)
  case (Cons c cs)
  define buf' where "buf' = push_bit 6 buf OR (word_of_int (b64_idx c) :: u32)"
  define byte where "byte = (ucast (drop_bit (nat (bits - 2)) buf' AND 0xFF) :: u8)"
  have c: "c \<noteq> CHR ''=''" "\<not> b64_idx c < 0" using Cons.prems(1) by auto
  show ?case
  proof (cases "8 \<le> bits + 6")
    case True
    then obtain res where "b64_loop cs buf' (bits - 2) (out @ [byte]) = Some res"
        "int (length res) = int (length (out @ [byte])) + (6 * int (length cs) + (bits - 2)) div 8"
      using Cons.IH [of "bits - 2" buf' "out @ [byte]"] Cons.prems by auto
    moreover have "(6 * int (length (c # cs)) + bits) div 8 = 1 + (6 * int (length cs) + (bits - 2)) div 8"
      by simp
    ultimately show ?thesis using c True by (simp add: Let_def buf'_def byte_def)
  next
    case False
    then obtain res where "b64_loop cs buf' (bits + 6) out = Some res"
        "int (length res) = int (length out) + (6 * int (length cs) + (bits + 6)) div 8"
      using Cons.IH [of "bits + 6" buf' out] Cons.prems by auto
    then show ?thesis using c False by (simp add: Let_def buf'_def algebra_simps)
  qed
qed simp

lemma b64_loop_rejects:
  assumes "c \<in> set s" "b64_idx c < 0" "CHR ''='' \<notin> set s"
  shows "b64_loop s buf bits out = None"
proof -
  obtain xs ys where "s = xs @ c # ys" using assms(1) by (auto dest: split_list)
  then show ?thesis using b64_loop_bad [of xs c ys] assms by auto
qed

section \<open>Properties\<close>

text \<open>
  C35: the table-driven CRC-32C of the backend computes, for every input, what the bit-serial
  definition with the reflected Castagnoli polynomial computes, and it has the published check
  value for the nine digits.
\<close>

theorem crc32c_is_bit_serial:
  "Crc32c bs = crc_reference kPoly bs \<and> Crc32c_text ''123456789'' = 0xE3069283"
  by (simp add: Crc32c_reference) (simp add: Crc32c_text_bytes Crc32c_eval)

text \<open>
  C36: two inputs that differ only within four consecutive bytes have different checksums.
\<close>

theorem crc32c_detects_bursts:
  assumes "length xs = length ys" and "length xs \<le> 4" and "xs \<noteq> ys"
  shows "Crc32c (pre @ xs @ post) \<noteq> Crc32c (pre @ ys @ post)"
  using backend_crc.burst_detected [OF assms(1,2), of pre post] assms(3)
  by (auto simp: Crc32c_def)

theorem crc32c_detects_bursts_witness:
  "Crc32c ([1] @ [2, 3] @ [4]) \<noteq> Crc32c ([1] @ [2, 5] @ [4])"
  using crc32c_detects_bursts [of "[2, 3]" "[2, 5]" "[1]" "[4]"] by simp

text \<open>
  Strings of different lengths are another matter: the checksum does not see zeros at the end of a
  string whose own checksum has all bits set, such as four bytes of ones.
\<close>

lemma crc_zeros: "crc_bytes p 0 (replicate n 0) = 0"
  by (induction n) (simp_all add: crc_simps crc_byte_def)

lemma zeros_unseen: "Crc32c bs = 0xFFFFFFFF \<Longrightarrow> Crc32c (bs @ replicate n 0) = 0xFFFFFFFF"
proof -
  assume c: "Crc32c bs = 0xFFFFFFFF"
  let ?r = "crc_bytes kPoly 0xFFFFFFFF bs"
  have "?r = (?r XOR 0xFFFFFFFF) XOR 0xFFFFFFFF" by (simp only: xor.assoc xor_self_eq xor.right_neutral)
  also have "\<dots> = 0" using c by (simp only: Crc32c_bytes xor_self_eq)
  finally show "Crc32c (bs @ replicate n 0) = 0xFFFFFFFF"
    by (simp add: Crc32c_bytes crc_simps crc_zeros)
qed

lemma ones_then_zeros: "Crc32c (replicate 4 0xFF @ replicate n 0) = Crc32c (replicate 4 0xFF)"
proof -
  have four: "replicate 4 (0xFF :: u8) = [0xFF, 0xFF, 0xFF, 0xFF]" by (simp add: numeral_eq_Suc)
  have "Crc32c (replicate 4 0xFF) = 0xFFFFFFFF" unfolding four by (simp add: Crc32c_eval)
  then show ?thesis using zeros_unseen by simp
qed

text \<open>
  Feeding the input in any chunks, as the streaming operations allow, gives the checksum
  of the whole.
\<close>

theorem crc32c_in_chunks:
  "Crc32cFinalize (foldl Crc32cUpdate Crc32cInit chunks) = Crc32c (concat chunks)"
  by (simp only: backend_crc.chunked_digest Crc32c_def)

text \<open>
  The client's copy of the checksum has the table and the function of the backend's copy.
\<close>

theorem crc32c_copies_agree:
  "cl_kTable = kTable \<and> cl_Crc32c bs = Crc32c bs \<and> cl_Crc32c_text s = Crc32c_text s"
  by (simp add: cl_kTable_eq cl_Crc32c_eq cl_Crc32c_text_def Crc32c_text_def cl_Crc32cUpdate_eq
      cl_Crc32cInit_def Crc32cInit_def cl_Crc32cFinalize_def Crc32cFinalize_def)

lemma base64_accepted:
  "ParseBase64Crc32c s \<noteq> None \<longleftrightarrow>
     (let t = takeWhile (\<lambda>c. c \<noteq> CHR ''='') s
      in 6 \<le> length t \<and> list_all (\<lambda>c. 0 \<le> b64_idx c) t)"
proof -
  let ?t = "takeWhile (\<lambda>c. c \<noteq> CHR ''='') s"
  have pad: "CHR ''='' \<notin> set ?t" by (auto dest: set_takeWhileD)
  show ?thesis
  proof (cases "list_all (\<lambda>c. 0 \<le> b64_idx c) ?t")
    case True
    then have "list_all (\<lambda>c. c \<noteq> CHR ''='' \<and> 0 \<le> b64_idx c) ?t"
      using pad by (auto simp: list_all_iff)
    then obtain res where "b64_loop s 0 0 [] = Some res"
        "int (length res) = 6 * int (length ?t) div 8"
      using b64_loop_accepts [of ?t 0 0 "[]"] b64_loop_takeWhile [of s 0 0 "[]"] by auto
    moreover have "length ?t = 0" if "s = []" using that by simp
    ultimately show ?thesis using True by (auto simp: ParseBase64Crc32c_def Let_def)
  next
    case False
    then obtain c where "c \<in> set ?t" "b64_idx c < 0" by (auto simp: list_all_iff not_le)
    then have "b64_loop s 0 0 [] = None"
      using b64_loop_rejects [OF _ _ pad] b64_loop_takeWhile [of s 0 0 "[]"] by simp
    then show ?thesis using False by (auto simp: ParseBase64Crc32c_def Let_def)
  qed
qed

text \<open>
  C37: the decoder of the checksum header reads every checksum back from its base64 form, and
  accepts exactly the strings that start with at least six characters before any padding, all of
  them in the alphabet.
\<close>

theorem base64_decodes:
  "ParseBase64Crc32c (encode_crc32c w) = Some w \<and>
   (ParseBase64Crc32c s \<noteq> None \<longleftrightarrow>
     (let t = takeWhile (\<lambda>c. c \<noteq> CHR ''='') s
      in 6 \<le> length t \<and> list_all (\<lambda>c. 0 \<le> b64_idx c) t))"
  using Parse_encode base64_accepted by blast

end
