(* ===== verification/Utc_Time.thy ===== *)
theory Utc_Time
  imports Prelude
begin

text \<open>
  The C library calls behind \<open>expire_at\<close>: \<open>system_clock::to_time_t\<close> on nanoseconds,
  \<open>gmtime_r\<close>, and \<open>strftime\<close> with the format \<open>%Y-%m-%dT%H:%M:%SZ\<close>. The Gregorian calendar
  repeats every 400 years (146097 days), so the year is found inside one cycle.
\<close>

definition is_leap :: "int \<Rightarrow> bool" where
  "is_leap y \<longleftrightarrow> y mod 4 = 0 \<and> (y mod 100 \<noteq> 0 \<or> y mod 400 = 0)"

definition days_in_year :: "int \<Rightarrow> nat" where
  "days_in_year y = (if is_leap y then 366 else 365)"

definition month_lengths :: "int \<Rightarrow> nat list" where
  "month_lengths y =
     [31, if is_leap y then 29 else 28, 31, 30, 31, 30, 31, 31, 30, 31, 30, 31]"

function find_year :: "int \<Rightarrow> nat \<Rightarrow> int \<times> nat" where
  "find_year y d =
     (if d < days_in_year y then (y, d) else find_year (y + 1) (d - days_in_year y))"
  by pat_completeness auto
termination
  by (relation "measure snd") (auto simp: days_in_year_def)

declare find_year.simps [simp del]

fun find_month :: "nat list \<Rightarrow> nat \<Rightarrow> nat \<Rightarrow> nat \<times> nat" where
  "find_month [] m d = (m, d)"
| "find_month (l # ls) m d = (if d < l then (m, d) else find_month ls (Suc m) (d - l))"

text \<open>Year, month (from 1) and day of the month (from 1) of a day count since 1970-01-01.\<close>

definition civil_date :: "int \<Rightarrow> int \<times> nat \<times> nat" where
  "civil_date days =
     (let (y, doy) = find_year 1970 (nat (days mod 146097));
          (m, d) = find_month (month_lengths y) 1 doy
      in (y + 400 * (days div 146097), m, d + 1))"

definition pad2 :: "nat \<Rightarrow> string" where
  "pad2 n = [hex_digit (n div 10 mod 10), hex_digit (n mod 10)]"

definition format_utc :: "int \<Rightarrow> string" where
  "format_utc t =
     (let (y, m, d) = civil_date (t div 86400);
          s = nat (t mod 86400)
      in int_to_string y @ ''-'' @ pad2 m @ ''-'' @ pad2 d @ ''T'' @ pad2 (s div 3600) @ '':''
         @ pad2 (s div 60 mod 60) @ '':'' @ pad2 (s mod 60) @ ''Z'')"

text \<open>\<open>duration_cast<seconds>\<close> truncates towards zero.\<close>

definition to_time_t :: "int \<Rightarrow> int" where
  "to_time_t ns = sgn ns * (\<bar>ns\<bar> div 1000000000)"

lemma find_year_bound:
  "find_year y d = (y', d') \<Longrightarrow> y \<le> y' \<and> d' < days_in_year y' \<and> y' - y \<le> int d div 365"
proof (induction y d rule: find_year.induct)
  case (1 y d)
  show ?case
  proof (cases "d < days_in_year y")
    case True
    with 1 show ?thesis by (auto simp: find_year.simps [of y d])
  next
    case False
    have ge: "365 \<le> days_in_year y" by (simp add: days_in_year_def)
    from False 1 have IH: "y + 1 \<le> y' \<and> d' < days_in_year y' \<and>
        y' - (y + 1) \<le> int (d - days_in_year y) div 365"
      by (simp add: find_year.simps [of y d])
    have "int (d - days_in_year y) \<le> int d - 365" using False ge by simp
    then have "int (d - days_in_year y) div 365 \<le> (int d - 365) div 365"
      by (rule zdiv_mono1) simp
    also have "(int d - 365) div 365 = int d div 365 - 1"
      using div_mult_self1 [of 365 "int d" "- 1"] by simp
    finally show ?thesis using IH by linarith
  qed
qed

end
