(* ===== verification/Messages.thy ===== *)
theory Messages
  imports Prelude
begin

text \<open>
  The messages of the control plane (\<open>proto/control_plane.proto\<close>) that the code under
  \<open>src/\<close> builds or reads, one record each with the fields of the proto file in their order
  (the map fields \<open>headers\<close> and \<open>extra_headers\<close>, which no code reads or writes, are left
  out), and the outcome of a handler: the two overloads of \<open>Controller::SetFailed\<close> that
  the handlers call, or the response.
\<close>

record OpenSessionRequest =
  osq_request_id :: string
  osq_session_id :: string
  osq_bucket :: string
  osq_object_key :: string
  osq_op_type :: string
  osq_data_flow :: string
  osq_buffer_type :: string
  osq_offset :: u64
  osq_expected_size :: u64
  osq_idempotency_key :: string
  osq_is_multipart_part :: bool

record OpenSessionResponse =
  osr_request_id :: string
  osr_session_id :: string
  osr_ticket :: string
  osr_gateway_id :: string
  osr_data_endpoint :: string
  osr_expire_at :: string

record HeadObjectRequest =
  hoq_bucket :: string
  hoq_object_key :: string

record HeadObjectResponse =
  hor_content_length :: u64
  hor_etag :: string
  hor_version :: string

record GdsChunkRequest =
  gcq_request_id :: string
  gcq_session_id :: string
  gcq_transfer_ticket :: string
  gcq_bucket :: string
  gcq_object_key :: string
  gcq_data_flow :: string
  gcq_buffer_type :: string
  gcq_checksum_policy :: string
  gcq_chunk_offset :: u64
  gcq_chunk_size :: u64
  gcq_rdma_token :: string
  gcq_upload_id :: string
  gcq_part_number :: u32

record GdsChunkResponse =
  gcr_selected_gateway :: string
  gcr_gateway_id :: string
  gcr_transfer_status :: string
  gcr_rdma_reply :: string
  gcr_etag :: string
  gcr_version :: string
  gcr_crc32c :: u32
  gcr_bytes_received :: u64

record StartUploadRequest =
  suq_bucket :: string
  suq_object_key :: string
  suq_expected_total_size :: u64
  suq_data_flow :: string
  suq_idempotency_key :: string

record StartUploadResponse =
  sur_upload_id :: string
  sur_max_part_size :: u64

record CompleteUploadRequest =
  cuq_upload_id :: string
  cuq_parts :: "(u32 \<times> string) list"
  cuq_data_flow :: string

record CompleteUploadResponse =
  cur_etag :: string
  cur_version :: string
  cur_content_length :: u64

record AbortUploadRequest =
  auq_upload_id :: string
  auq_data_flow :: string

text \<open>\<open>AbortUploadResponse\<close> has no field.\<close>

datatype AbortUploadResponse = AbortUploadResponse

record AbortSessionRequest =
  asq_session_id :: string

record AbortSessionResponse =
  asr_erased :: bool

record ReportGdsPutRequest =
  rgq_session_id :: string
  rgq_etag :: string
  rgq_crc32c :: u32
  rgq_bytes_transferred :: u64

record ReportGdsPutResponse =
  rgr_accepted :: bool

text \<open>A message whose fields all have their proto3 default.\<close>

definition empty_OpenSessionRequest :: OpenSessionRequest where
  "empty_OpenSessionRequest =
     \<lparr>osq_request_id = [], osq_session_id = [], osq_bucket = [], osq_object_key = [],
      osq_op_type = [], osq_data_flow = [], osq_buffer_type = [], osq_offset = 0,
      osq_expected_size = 0, osq_idempotency_key = [], osq_is_multipart_part = False\<rparr>"

definition empty_GdsChunkRequest :: GdsChunkRequest where
  "empty_GdsChunkRequest =
     \<lparr>gcq_request_id = [], gcq_session_id = [], gcq_transfer_ticket = [], gcq_bucket = [],
      gcq_object_key = [], gcq_data_flow = [], gcq_buffer_type = [], gcq_checksum_policy = [],
      gcq_chunk_offset = 0, gcq_chunk_size = 0, gcq_rdma_token = [], gcq_upload_id = [],
      gcq_part_number = 0\<rparr>"

definition empty_GdsChunkResponse :: GdsChunkResponse where
  "empty_GdsChunkResponse =
     \<lparr>gcr_selected_gateway = [], gcr_gateway_id = [], gcr_transfer_status = [],
      gcr_rdma_reply = [], gcr_etag = [], gcr_version = [], gcr_crc32c = 0,
      gcr_bytes_received = 0\<rparr>"

definition empty_CompleteUploadResponse :: CompleteUploadResponse where
  "empty_CompleteUploadResponse =
     \<lparr>cur_etag = [], cur_version = [], cur_content_length = 0\<rparr>"

text \<open>
  What a handler leaves in the controller when it fails: \<open>SetFailed(reason)\<close> has no error
  code of the handler's own, \<open>SetFailed(code, fmt, ...)\<close> has one.
\<close>

datatype set_failed =
    SetFailedReason string
  | SetFailedCode int string

type_synonym 'a handled = "set_failed + 'a"

text \<open>\<open>brpc::ENOMETHOD\<close>.\<close>

definition ENOMETHOD :: int where
  "ENOMETHOD = 1002"

text \<open>
  What the caller of a stub finds in its controller afterwards: \<open>Failed()\<close> with an error
  code and text, or a response.
\<close>

datatype rpc_error = RpcError (rpc_code: int) (rpc_text: string)

type_synonym 'a rpc_result = "rpc_error + 'a"

end
