(* ===== verification/Session_Interface.thy ===== *)
theory Session_Interface
  imports Prelude
begin

text \<open>
  What the control-plane service relies on in the session table, as a locale over any table
  type \<open>'m\<close> and session type \<open>'s\<close>: creation stores a session that is not completed,
  completion marks exactly the named session, and a query by ticket finds a completed
  session exactly when the table holds one. The lifecycle facts are proved once, here.
\<close>

locale session_store =
  fixes inv :: "'m \<Rightarrow> bool"
    and lookup :: "string \<Rightarrow> 'm \<Rightarrow> 's option"
    and get_completed :: "string \<Rightarrow> 'm \<Rightarrow> 's option"
    and id_of :: "'s \<Rightarrow> string"
    and ticket_of :: "'s \<Rightarrow> string"
    and is_completed :: "'s \<Rightarrow> bool"
    and create :: "int \<Rightarrow> string \<Rightarrow> string \<Rightarrow> string \<Rightarrow> u64 \<Rightarrow> 'm \<Rightarrow> 's \<times> 'm"
    and complete :: "string \<Rightarrow> string \<Rightarrow> u32 \<Rightarrow> u64 \<Rightarrow> 'm \<Rightarrow> bool \<times> 'm"
    and mark :: "string \<Rightarrow> u32 \<Rightarrow> u64 \<Rightarrow> 's \<Rightarrow> 's"
  assumes create_inv: "inv m \<Longrightarrow> inv (snd (create now h b k n m))"
    and complete_inv: "inv m \<Longrightarrow> inv (snd (complete sid tag crc bytes m))"
    and create_lookup: "create now h b k n m = (s, m') \<Longrightarrow>
      lookup i m' = (if i = id_of s then Some s else lookup i m) \<and> \<not> is_completed s"
    and complete_result: "complete sid tag crc bytes m = (ok, m') \<Longrightarrow> ok \<longleftrightarrow> lookup sid m \<noteq> None"
    and complete_lookup: "complete sid tag crc bytes m = (ok, m') \<Longrightarrow>
      lookup i m' = (if i = sid then map_option (mark tag crc bytes) (lookup i m) else lookup i m)"
    and mark_completed: "is_completed (mark tag crc bytes s)"
    and mark_ticket: "ticket_of (mark tag crc bytes s) = ticket_of s"
    and get_completed_iff: "inv m \<Longrightarrow> get_completed t m = Some s \<longleftrightarrow>
      (\<exists>i. lookup i m = Some s \<and> is_completed s \<and> ticket_of s = t)"
    and ticket_unique: "inv m \<Longrightarrow> lookup i m = Some s \<Longrightarrow> lookup j m = Some r \<Longrightarrow>
      ticket_of s = ticket_of r \<Longrightarrow> i = j"
begin

text \<open>A session that was just created has no completed entry under its ticket.\<close>

lemma created_not_completed:
  assumes inv: "inv m" and c: "create now h b k n m = (s, m')"
  shows "get_completed (ticket_of s) m' = None"
proof (rule ccontr)
  have inv': "inv m'" using create_inv [OF inv, of now h b k n] c by simp
  assume "get_completed (ticket_of s) m' \<noteq> None"
  then obtain r where "get_completed (ticket_of s) m' = Some r" by blast
  then obtain i where i: "lookup i m' = Some r" "is_completed r" "ticket_of r = ticket_of s"
    using get_completed_iff [OF inv'] by blast
  have s: "lookup (id_of s) m' = Some s" using create_lookup [OF c] by simp
  have "i = id_of s" using ticket_unique [OF inv' i(1) s i(3)] .
  with i s create_lookup [OF c, of i] show False by simp
qed

text \<open>After the report, the ticket answers with exactly the reported data.\<close>

lemma completed_found:
  assumes inv: "inv m" and s: "lookup sid m = Some s"
    and c: "complete sid tag crc bytes m = (ok, m')"
  shows "ok \<and> get_completed (ticket_of s) m' = Some (mark tag crc bytes s)"
proof -
  have inv': "inv m'" using complete_inv [OF inv, of sid tag crc bytes] c by simp
  have "lookup sid m' = Some (mark tag crc bytes s)" using complete_lookup [OF c, of sid] s by simp
  then show ?thesis
    using get_completed_iff [OF inv'] mark_completed mark_ticket complete_result [OF c] s by auto
qed

lemma open_report_query:
  assumes inv: "inv m" and c: "create now h b k n m = (s, m1)"
    and r: "complete (id_of s) tag crc bytes m1 = (ok, m2)"
  shows "ok \<and> get_completed (ticket_of s) m2 = Some (mark tag crc bytes s)"
proof (rule completed_found [OF _ _ r])
  show "inv m1" using create_inv [OF inv, of now h b k n] c by simp
  show "lookup (id_of s) m1 = Some s" using create_lookup [OF c] by simp
qed

text \<open>A report for one session leaves every other session's answer as it was.\<close>

lemma complete_frame:
  assumes inv: "inv m" and c: "complete sid tag crc bytes m = (ok, m')"
    and s: "lookup i m = Some s" and ne: "i \<noteq> sid"
  shows "get_completed (ticket_of s) m' = get_completed (ticket_of s) m"
proof -
  have inv': "inv m'" using complete_inv [OF inv, of sid tag crc bytes] c by simp
  have same: "lookup j n = Some r \<and> ticket_of r = ticket_of s \<longrightarrow> j = i"
    if "inv n" "lookup i n = Some s" for n j r
    using ticket_unique [OF that(1) that(2)] by metis
  have s': "lookup i m' = Some s" using complete_lookup [OF c, of i] s ne by simp
  have "get_completed (ticket_of s) m' = Some r \<longleftrightarrow> get_completed (ticket_of s) m = Some r" for r
    unfolding get_completed_iff [OF inv] get_completed_iff [OF inv']
    using same [OF inv s] same [OF inv' s'] s s' by (metis option.inject)
  then show ?thesis by (rule option_eqI)
qed

end

end
