(* ===== verification/Session_Manager.thy ===== *)
theory Session_Manager
  imports Utc_Time Messages Session_Interface "HOL-Library.AList" "HOL-Library.Multiset"
begin

text \<open>
  The session table of the proxy (\<open>proxy/src/session/session_manager.{h,cpp}\<close>): creation
  with generated or given identifiers, completion by the backend's report, and the two
  queries. The hash map is an association list with distinct keys, in some iteration order;
  the lemmas show that no result depends on that order. The interface of the table that the
  control-plane service relies on is the locale \<open>session_store\<close>, interpreted here.
\<close>

section \<open>State and operations\<close>

datatype Status = kPending | kCompleted | kFailed

record Session =
  session_id :: string
  ticket :: string
  expire_at :: string
  bucket :: string
  object_key :: string
  expected_size :: u64
  status :: Status
  etag :: string
  crc32c :: u32
  bytes_transferred :: u64

record SessionManager =
  ttl_sec :: int
  seq_no :: u64
  sessions_tab :: "(string \<times> Session) list"

definition new_SessionManager :: "int \<Rightarrow> SessionManager" where
  "new_SessionManager ttl = \<lparr>ttl_sec = ttl, seq_no = 0, sessions_tab = []\<rparr>"

definition kSessionIdPrefix :: string where
  "kSessionIdPrefix = ''pxs-''"

definition ticket_for :: "string \<Rightarrow> string" where
  "ticket_for sid = ''tkt-'' @ sid"

text \<open>
  The expiry. \<open>system_clock\<close> counts nanoseconds in a signed 64-bit integer; the sum here has no
  bound, and is the one of the source where it fits (\<open>clock_fits\<close> in \<open>Session_Types\<close>). Where it
  does not, the addition of the source overflows and its result is undefined.
\<close>

definition expire_at_for :: "int \<Rightarrow> int \<Rightarrow> string" where
  "expire_at_for now ttl = format_utc (to_time_t (now + ttl * 1000000000))"

text \<open>
  \<open>CreateSession\<close>, with the reading of \<open>system_clock\<close> in nanoseconds as an argument. The
  insertion \<open>sessions_tab[session.session_id] = session\<close> overwrites an entry with that key.
\<close>

definition CreateSession ::
  "int \<Rightarrow> string \<Rightarrow> string \<Rightarrow> string \<Rightarrow> u64 \<Rightarrow> SessionManager \<Rightarrow> Session \<times> SessionManager" where
  "CreateSession now session_id_hint bkt key sz m =
     (let (sid, seq') =
            (if session_id_hint \<noteq> [] then (session_id_hint, seq_no m)
             else (kSessionIdPrefix @ to_string (unat (seq_no m)), seq_no m + 1));
          session =
            \<lparr>session_id = sid, ticket = ticket_for sid,
             expire_at = expire_at_for now (ttl_sec m),
             bucket = bkt, object_key = key, expected_size = sz,
             status = kPending, etag = [], crc32c = 0, bytes_transferred = 0\<rparr>
      in (session, m\<lparr>seq_no := seq', sessions_tab := AList.update sid session (sessions_tab m)\<rparr>))"

definition CompleteSession ::
  "string \<Rightarrow> string \<Rightarrow> u32 \<Rightarrow> u64 \<Rightarrow> SessionManager \<Rightarrow> bool \<times> SessionManager" where
  "CompleteSession sid tag crc bytes m =
     (case map_of (sessions_tab m) sid of
        None \<Rightarrow> (False, m)
      | Some s \<Rightarrow>
          (True, m\<lparr>sessions_tab := AList.update sid
             (s\<lparr>status := kCompleted, etag := tag, crc32c := crc, bytes_transferred := bytes\<rparr>)
             (sessions_tab m)\<rparr>))"

definition GetSession :: "string \<Rightarrow> SessionManager \<Rightarrow> Session option" where
  "GetSession sid m = map_of (sessions_tab m) sid"

text \<open>The loop of \<open>GetCompletedSession\<close>: the first match in iteration order.\<close>

fun find_completed :: "string \<Rightarrow> (string \<times> Session) list \<Rightarrow> Session option" where
  "find_completed t [] = None"
| "find_completed t ((k, s) # rest) =
     (if ticket s = t \<and> status s = kCompleted then Some s else find_completed t rest)"

definition GetCompletedSession :: "string \<Rightarrow> SessionManager \<Rightarrow> Session option" where
  "GetCompletedSession t m = find_completed t (sessions_tab m)"

section \<open>The invariant of the table\<close>

definition table_inv :: "(string \<times> Session) list \<Rightarrow> bool" where
  "table_inv al \<longleftrightarrow> distinct (map fst al) \<and>
     (\<forall>(k, s) \<in> set al. session_id s = k \<and> ticket s = ticket_for k)"

definition sm_inv :: "SessionManager \<Rightarrow> bool" where
  "sm_inv m \<longleftrightarrow> table_inv (sessions_tab m)"

lemma ticket_for_inj [simp]: "ticket_for a = ticket_for b \<longleftrightarrow> a = b"
  by (simp add: ticket_for_def)

lemma sm_inv_new [intro]: "sm_inv (new_SessionManager ttl)"
  by (simp add: sm_inv_def table_inv_def new_SessionManager_def)

lemma set_update_subset: "set (AList.update k v al) \<subseteq> insert (k, v) (set al)"
  by (induction al) auto

lemma table_inv_update:
  assumes "table_inv al" and "session_id s = k" and "ticket s = ticket_for k"
  shows "table_inv (AList.update k s al)"
  using assms set_update_subset [of k s al] by (fastforce simp: table_inv_def distinct_update)

lemma sm_inv_entry:
  "sm_inv m \<Longrightarrow> (k, s) \<in> set (sessions_tab m) \<Longrightarrow> session_id s = k \<and> ticket s = ticket_for k"
  by (auto simp: sm_inv_def table_inv_def)

lemma sm_inv_lookup:
  "sm_inv m \<Longrightarrow> GetSession k m = Some s \<Longrightarrow> session_id s = k \<and> ticket s = ticket_for k"
  by (auto simp: sm_inv_def table_inv_def GetSession_def dest!: map_of_SomeD)

text \<open>The two ways \<open>CreateSession\<close> chooses an identifier, as one equation.\<close>

definition created_id :: "string \<Rightarrow> SessionManager \<Rightarrow> string" where
  "created_id hint m =
     (if hint \<noteq> [] then hint else kSessionIdPrefix @ to_string (unat (seq_no m)))"

definition pending_session ::
  "string \<Rightarrow> string \<Rightarrow> string \<Rightarrow> string \<Rightarrow> u64 \<Rightarrow> Session" where
  "pending_session sid expiry bkt key sz =
     \<lparr>session_id = sid, ticket = ticket_for sid, expire_at = expiry,
      bucket = bkt, object_key = key, expected_size = sz,
      status = kPending, etag = [], crc32c = 0, bytes_transferred = 0\<rparr>"

lemma CreateSession_eq:
  "CreateSession now hint bkt key sz m =
     (let s = pending_session (created_id hint m) (expire_at_for now (ttl_sec m)) bkt key sz in
      (s, m\<lparr>seq_no := (if hint \<noteq> [] then seq_no m else seq_no m + 1),
            sessions_tab := AList.update (created_id hint m) s (sessions_tab m)\<rparr>))"
  by (simp add: CreateSession_def created_id_def pending_session_def)

lemma pending_session_simps [simp]:
  "session_id (pending_session i e b k n) = i" "ticket (pending_session i e b k n) = ticket_for i"
  "expire_at (pending_session i e b k n) = e" "bucket (pending_session i e b k n) = b"
  "object_key (pending_session i e b k n) = k" "expected_size (pending_session i e b k n) = n"
  "status (pending_session i e b k n) = kPending" "etag (pending_session i e b k n) = []"
  by (simp_all add: pending_session_def)

definition mark_completed :: "string \<Rightarrow> u32 \<Rightarrow> u64 \<Rightarrow> Session \<Rightarrow> Session" where
  "mark_completed tag crc bytes s =
     s\<lparr>status := kCompleted, etag := tag, crc32c := crc, bytes_transferred := bytes\<rparr>"

lemma mark_completed_simps [simp]:
  "session_id (mark_completed t c n s) = session_id s" "ticket (mark_completed t c n s) = ticket s"
  "bucket (mark_completed t c n s) = bucket s" "object_key (mark_completed t c n s) = object_key s"
  "expected_size (mark_completed t c n s) = expected_size s"
  "status (mark_completed t c n s) = kCompleted" "etag (mark_completed t c n s) = t"
  "crc32c (mark_completed t c n s) = c" "bytes_transferred (mark_completed t c n s) = n"
  by (simp_all add: mark_completed_def)

lemma CompleteSession_eq:
  "CompleteSession sid tag crc bytes m =
     (case GetSession sid m of
        None \<Rightarrow> (False, m)
      | Some s \<Rightarrow> (True, m\<lparr>sessions_tab :=
          AList.update sid (mark_completed tag crc bytes s) (sessions_tab m)\<rparr>))"
  by (simp add: CompleteSession_def GetSession_def mark_completed_def split: option.split)

lemma CreateSession_inv: "sm_inv m \<Longrightarrow> sm_inv (snd (CreateSession now h b k n m))"
  by (simp add: CreateSession_eq Let_def sm_inv_def table_inv_update)

lemma CompleteSession_inv: "sm_inv m \<Longrightarrow> sm_inv (snd (CompleteSession sid tag crc bytes m))"
  by (auto simp: CompleteSession_eq sm_inv_def intro!: table_inv_update
      dest: sm_inv_lookup [unfolded sm_inv_def] split: option.splits)

section \<open>Lookups\<close>

lemma CreateSession_lookup [store_simps]:
  "CreateSession now h b k n m = (s, m') \<Longrightarrow>
   GetSession i m' = (if i = session_id s then Some s else GetSession i m)"
  by (auto simp: CreateSession_eq GetSession_def Let_def update_conv')

lemma CompleteSession_lookup [store_simps]:
  "CompleteSession sid tag crc bytes m = (ok, m') \<Longrightarrow>
   GetSession i m' = (if i = sid then map_option (mark_completed tag crc bytes) (GetSession i m)
                      else GetSession i m)"
  by (auto simp: CompleteSession_eq GetSession_def update_conv' split: option.splits)

lemma CompleteSession_ok:
  "CompleteSession sid tag crc bytes m = (ok, m') \<Longrightarrow> ok \<longleftrightarrow> GetSession sid m \<noteq> None"
  by (auto simp: CompleteSession_def GetSession_def split: option.splits)

lemma find_completed_sound:
  "find_completed t al = Some s \<Longrightarrow> \<exists>k. (k, s) \<in> set al \<and> ticket s = t \<and> status s = kCompleted"
  by (induction t al rule: find_completed.induct) (auto split: if_splits)

lemma find_completed_None:
  "find_completed t al = None \<longleftrightarrow> (\<forall>(k, s) \<in> set al. \<not> (ticket s = t \<and> status s = kCompleted))"
  by (induction t al rule: find_completed.induct) auto

text \<open>Under the invariant the scan is a lookup: at most one entry has the ticket.\<close>

lemma GetCompletedSession_iff:
  assumes inv: "sm_inv m"
  shows "GetCompletedSession t m = Some s \<longleftrightarrow>
     (\<exists>i. GetSession i m = Some s \<and> status s = kCompleted \<and> ticket s = t)"
proof
  assume "GetCompletedSession t m = Some s"
  then obtain k where "(k, s) \<in> set (sessions_tab m)" "ticket s = t" "status s = kCompleted"
    unfolding GetCompletedSession_def by (blast dest: find_completed_sound)
  then show "\<exists>i. GetSession i m = Some s \<and> status s = kCompleted \<and> ticket s = t"
    using inv by (auto simp: sm_inv_def table_inv_def GetSession_def)
next
  assume "\<exists>i. GetSession i m = Some s \<and> status s = kCompleted \<and> ticket s = t"
  then obtain i where i: "GetSession i m = Some s" "status s = kCompleted" "ticket s = t" by blast
  then have "(i, s) \<in> set (sessions_tab m)" by (auto simp: GetSession_def dest: map_of_SomeD)
  with i have "find_completed t (sessions_tab m) \<noteq> None" by (auto simp: find_completed_None)
  then obtain r where r: "find_completed t (sessions_tab m) = Some r" by blast
  then obtain k where k: "(k, r) \<in> set (sessions_tab m)" "ticket r = t"
    using find_completed_sound by blast
  have "ticket_for k = ticket_for i"
    using sm_inv_entry [OF inv k(1)] sm_inv_entry [OF inv \<open>(i, s) \<in> set (sessions_tab m)\<close>] k(2) i(3)
    by simp
  then have "map_of (sessions_tab m) i = Some r"
    using k(1) inv by (simp add: sm_inv_def table_inv_def)
  then have "r = s" using i(1) by (simp add: GetSession_def)
  with r show "GetCompletedSession t m = Some s" by (simp add: GetCompletedSession_def)
qed

text \<open>Any two iteration orders of the same table give the same answer.\<close>

lemma GetCompletedSession_order:
  assumes "sm_inv m" and "mset al = mset (sessions_tab m)"
  shows "GetCompletedSession t (m\<lparr>sessions_tab := al\<rparr>) = GetCompletedSession t m"
proof -
  have set: "set al = set (sessions_tab m)" using assms(2) by (rule mset_eq_setD)
  have "mset (map fst al) = mset (map fst (sessions_tab m))" using assms(2) by simp
  then have dist: "distinct (map fst al)"
    using mset_eq_imp_distinct_iff assms(1) unfolding sm_inv_def table_inv_def by blast
  then have inv: "sm_inv (m\<lparr>sessions_tab := al\<rparr>)"
    using assms(1) set by (simp add: sm_inv_def table_inv_def dist)
  have "map_of al = map_of (sessions_tab m)"
    using map_of_inject_set [OF dist, of "sessions_tab m"] assms(1) set
    by (simp add: sm_inv_def table_inv_def)
  then have lookup: "GetSession i (m\<lparr>sessions_tab := al\<rparr>) = GetSession i m" for i
    by (simp add: GetSession_def)
  show ?thesis
    by (rule option_eqI)
       (simp add: GetCompletedSession_iff [OF inv] GetCompletedSession_iff [OF assms(1)] lookup)
qed

section \<open>The interface, provided\<close>

interpretation session_mgr: session_store
  sm_inv GetSession GetCompletedSession session_id ticket "\<lambda>s. status s = kCompleted"
  CreateSession CompleteSession mark_completed
proof unfold_locales
  show "sm_inv (snd (CreateSession now h b k n m))" if "sm_inv m" for now h b k n m
    using that by (rule CreateSession_inv)
  show "sm_inv (snd (CompleteSession sid tag crc bytes m))" if "sm_inv m" for sid tag crc bytes m
    using that by (rule CompleteSession_inv)
  show "GetSession i m' = (if i = session_id s then Some s else GetSession i m)
      \<and> status s \<noteq> kCompleted"
    if "CreateSession now h b k n m = (s, m')" for now h b k n m s m' i
    using that CreateSession_lookup [OF that]
    by (auto simp: CreateSession_eq Let_def)
  show "ok \<longleftrightarrow> GetSession sid m \<noteq> None" if "CompleteSession sid tag crc bytes m = (ok, m')"
    for sid tag crc bytes m ok m'
    using that by (rule CompleteSession_ok)
  show "i = j" if "sm_inv m" "GetSession i m = Some s" "GetSession j m = Some r" "ticket s = ticket r"
    for m i j s r
    using sm_inv_lookup [OF that(1,2)] sm_inv_lookup [OF that(1,3)] that(4) by simp
qed (simp_all add: CompleteSession_lookup GetCompletedSession_iff)

section \<open>Generated identifiers\<close>

text \<open>
  A run of the table's mutating operations. Identifiers generated from the counter stay
  fresh as long as no caller passes one with the reserved prefix and the counter does not
  wrap around.
\<close>

datatype sm_op =
    OpCreate int string string string u64
  | OpComplete string string u32 u64

fun sm_step :: "sm_op \<Rightarrow> SessionManager \<Rightarrow> SessionManager" where
  "sm_step (OpCreate now h b k n) m = snd (CreateSession now h b k n m)"
| "sm_step (OpComplete sid tag crc bytes) m = snd (CompleteSession sid tag crc bytes m)"

definition sm_run :: "sm_op list \<Rightarrow> SessionManager \<Rightarrow> SessionManager" where
  "sm_run ops m = fold sm_step ops m"

fun op_hint_ok :: "sm_op \<Rightarrow> bool" where
  "op_hint_ok (OpCreate now h b k n) \<longleftrightarrow> take 4 h \<noteq> kSessionIdPrefix"
| "op_hint_ok (OpComplete sid tag crc bytes) \<longleftrightarrow> True"

fun op_generates :: "sm_op \<Rightarrow> bool" where
  "op_generates (OpCreate now h b k n) \<longleftrightarrow> h = []"
| "op_generates (OpComplete sid tag crc bytes) \<longleftrightarrow> False"

text \<open>Every identifier with the reserved prefix in the table was generated from a number below \<open>n\<close>.\<close>

definition generated_below :: "nat \<Rightarrow> SessionManager \<Rightarrow> bool" where
  "generated_below n m \<longleftrightarrow> unat (seq_no m) = n \<and>
     (\<forall>i. GetSession (kSessionIdPrefix @ to_string i) m \<noteq> None \<longrightarrow> i < n)"

lemma sm_step_inv: "sm_inv m \<Longrightarrow> sm_inv (sm_step p m)"
  by (cases p) (simp_all add: CreateSession_inv CompleteSession_inv)

lemma sm_run_inv: "sm_inv m \<Longrightarrow> sm_inv (sm_run ops m)"
  unfolding sm_run_def by (induction ops arbitrary: m) (simp_all add: sm_step_inv)

lemma prefix_take [simp]: "take 4 (kSessionIdPrefix @ xs) = kSessionIdPrefix"
  by (simp add: kSessionIdPrefix_def)

lemma CreateSession_id: "session_id (fst (CreateSession now h b k n m)) = created_id h m"
  by (simp add: CreateSession_eq Let_def)

lemma CreateSession_seq:
  "seq_no (snd (CreateSession now h b k n m)) = (if h \<noteq> [] then seq_no m else seq_no m + 1)"
  by (simp add: CreateSession_eq Let_def)

lemma CompleteSession_seq: "seq_no (snd (CompleteSession sid tag crc bytes m)) = seq_no m"
  by (simp add: CompleteSession_eq split: option.splits)

lemma sm_step_generated:
  assumes "generated_below n m" and "op_hint_ok p" and "n + of_bool (op_generates p) < 2 ^ 64"
  shows "generated_below (n + of_bool (op_generates p)) (sm_step p m)"
proof (cases p)
  case (OpCreate now h b k sz)
  obtain s m' where c: "CreateSession now h b k sz m = (s, m')" by force
  have id: "session_id s = created_id h m" using CreateSession_id [of now h b k sz m] c by simp
  have seq: "seq_no m' = (if h \<noteq> [] then seq_no m else seq_no m + 1)"
    using CreateSession_seq [of now h b k sz m] c by simp
  have "unat (seq_no m + 1) = n + 1" if "h = []"
    using assms that OpCreate by (simp add: generated_below_def unat_word_ariths)
  moreover have "kSessionIdPrefix @ to_string i \<noteq> h" for i
    using assms(2) OpCreate prefix_take by (metis op_hint_ok.simps(1))
  ultimately show ?thesis
    using assms(1) OpCreate seq id
    by (auto simp: c generated_below_def CreateSession_lookup [OF c] created_id_def to_string_inj
        less_Suc_eq split: if_splits)
next
  case (OpComplete sid tag crc bytes)
  obtain ok m' where c: "CompleteSession sid tag crc bytes m = (ok, m')" by force
  show ?thesis
    using assms(1) OpComplete CompleteSession_seq [of sid tag crc bytes m]
    by (auto simp: c generated_below_def CompleteSession_lookup [OF c])
qed

lemma sm_run_generated:
  assumes "generated_below n m" and "list_all op_hint_ok ops"
    and "n + length (filter op_generates ops) < 2 ^ 64"
  shows "generated_below (n + length (filter op_generates ops)) (sm_run ops m)"
  using assms
proof (induction ops arbitrary: n m)
  case (Cons p ops)
  let ?n = "n + of_bool (op_generates p)"
  have "generated_below ?n (sm_step p m)"
    using Cons.prems by (intro sm_step_generated) (auto split: if_splits)
  then have "generated_below (?n + length (filter op_generates ops)) (sm_run ops (sm_step p m))"
    using Cons.prems by (intro Cons.IH) (auto split: if_splits)
  then show ?case by (cases "op_generates p") (simp_all add: sm_run_def)
qed (simp add: sm_run_def)

lemma generated_below_new: "generated_below 0 (new_SessionManager ttl)"
  by (simp add: generated_below_def new_SessionManager_def GetSession_def)

lemma generated_fresh:
  assumes "generated_below n m"
  shows "GetSession (created_id [] m) m = None"
proof (rule ccontr)
  assume "GetSession (created_id [] m) m \<noteq> None"
  then have "unat (seq_no m) < n"
    using assms by (auto simp: generated_below_def created_id_def)
  then show False using assms by (simp add: generated_below_def)
qed

end
