(* ===== verification/Error_Codes.thy ===== *)
theory Error_Codes
  imports Prelude
begin

text \<open>
  The two error vocabularies: the enumeration shared by client and server
  (\<open>include/us3_turbo/common/error_code.h\<close>) with its names, and the integer codes of the
  proxy's control plane (\<open>proxy/src/common/errors.h\<close>) with their messages.
\<close>

section \<open>The shared enumeration\<close>

datatype ErrorCode =
    kSuccess | kInvalidArgument | kUnsupported | kInternal | kRpcError
  | kSerializationError | kControlPlaneError | kRegistrationFailed | kTransportError
  | kNotFound | kBadRequest | kRangeNotSatisfiable | kBackendUnavailable
  | kCapacityExceeded | kRdmaUnavailable | kSessionNotFound | kTicketInvalid
  | kStaleState | kPayloadTooLarge | kMethodNotAllowed | kTimeout

definition all_codes :: "ErrorCode list" where
  "all_codes =
     [kSuccess, kInvalidArgument, kUnsupported, kInternal, kRpcError,
      kSerializationError, kControlPlaneError, kRegistrationFailed, kTransportError,
      kNotFound, kBadRequest, kRangeNotSatisfiable, kBackendUnavailable,
      kCapacityExceeded, kRdmaUnavailable, kSessionNotFound, kTicketInvalid,
      kStaleState, kPayloadTooLarge, kMethodNotAllowed, kTimeout]"

text \<open>The numeric value: the enumerators count up from \<open>kSuccess = 0\<close>.\<close>

primrec code_value :: "ErrorCode \<Rightarrow> int" where
  "code_value kSuccess = 0"
| "code_value kInvalidArgument = 1"
| "code_value kUnsupported = 2"
| "code_value kInternal = 3"
| "code_value kRpcError = 4"
| "code_value kSerializationError = 5"
| "code_value kControlPlaneError = 6"
| "code_value kRegistrationFailed = 7"
| "code_value kTransportError = 8"
| "code_value kNotFound = 9"
| "code_value kBadRequest = 10"
| "code_value kRangeNotSatisfiable = 11"
| "code_value kBackendUnavailable = 12"
| "code_value kCapacityExceeded = 13"
| "code_value kRdmaUnavailable = 14"
| "code_value kSessionNotFound = 15"
| "code_value kTicketInvalid = 16"
| "code_value kStaleState = 17"
| "code_value kPayloadTooLarge = 18"
| "code_value kMethodNotAllowed = 19"
| "code_value kTimeout = 20"

text \<open>
  \<open>ToString\<close>, on the underlying integer of the enumeration: a value that is none of the
  enumerators (which a cast can produce) falls out of the switch and is \<open>unknown\<close>.
\<close>

primrec code_name :: "ErrorCode \<Rightarrow> string" where
  "code_name kSuccess = ''success''"
| "code_name kInvalidArgument = ''invalid_argument''"
| "code_name kUnsupported = ''unsupported''"
| "code_name kInternal = ''internal''"
| "code_name kRpcError = ''rpc_error''"
| "code_name kSerializationError = ''serialization_error''"
| "code_name kControlPlaneError = ''control_plane_error''"
| "code_name kRegistrationFailed = ''registration_failed''"
| "code_name kTransportError = ''transport_error''"
| "code_name kNotFound = ''not_found''"
| "code_name kBadRequest = ''bad_request''"
| "code_name kRangeNotSatisfiable = ''range_not_satisfiable''"
| "code_name kBackendUnavailable = ''backend_unavailable''"
| "code_name kCapacityExceeded = ''capacity_exceeded''"
| "code_name kRdmaUnavailable = ''rdma_unavailable''"
| "code_name kSessionNotFound = ''session_not_found''"
| "code_name kTicketInvalid = ''ticket_invalid''"
| "code_name kStaleState = ''stale_state''"
| "code_name kPayloadTooLarge = ''payload_too_large''"
| "code_name kMethodNotAllowed = ''method_not_allowed''"
| "code_name kTimeout = ''timeout''"

definition ToString :: "int \<Rightarrow> string" where
  "ToString n = (case find (\<lambda>c. code_value c = n) all_codes of
     Some c \<Rightarrow> code_name c
   | None \<Rightarrow> ''unknown'')"

lemma all_codes_complete: "c \<in> set all_codes"
  by (cases c) (simp_all add: all_codes_def)

lemma all_codes_values: "map code_value all_codes = [0..20]"
  by code_simp

lemma code_value_inj: "code_value a = code_value b \<longleftrightarrow> a = b"
proof
  assume eq: "code_value a = code_value b"
  have "distinct (map code_value all_codes)" by (simp add: all_codes_values)
  then have "inj_on code_value (set all_codes)" by (simp add: distinct_map)
  with eq all_codes_complete show "a = b" by (auto dest: inj_onD)
qed simp

text \<open>The enumeration ordered by its values, as a comparison of the underlying integers.\<close>

instantiation ErrorCode :: linorder
begin

definition less_eq_ErrorCode :: "ErrorCode \<Rightarrow> ErrorCode \<Rightarrow> bool" where
  "less_eq_ErrorCode a b \<longleftrightarrow> code_value a \<le> code_value b"

definition less_ErrorCode :: "ErrorCode \<Rightarrow> ErrorCode \<Rightarrow> bool" where
  "less_ErrorCode a b \<longleftrightarrow> code_value a < code_value b"

instance
  by standard (auto simp: less_eq_ErrorCode_def less_ErrorCode_def code_value_inj)

end

lemma find_code_value: "find (\<lambda>c'. code_value c' = code_value c) all_codes = Some c"
  using all_codes_complete [of c] by (simp add: code_value_inj find_Some_iff in_set_conv_nth)
    (metis (full_types) code_value_inj all_codes_values distinct_upto distinct_map nth_eq_iff_index_eq less_trans nat_neq_iff)

lemma ToString_code: "ToString (code_value c) = code_name c"
  by (simp add: ToString_def find_code_value)

lemma code_names_distinct: "distinct (''unknown'' # map code_name all_codes)"
  by (simp add: all_codes_def)

lemma ToString_unknown: "n \<notin> {0..20} \<Longrightarrow> ToString n = ''unknown''"
proof -
  assume n: "n \<notin> {0..20}"
  have "code_value c \<in> {0..20}" for c by (cases c) simp_all
  with n have "find (\<lambda>c. code_value c = n) all_codes = None" by (auto simp: find_None_iff)
  then show ?thesis by (simp add: ToString_def)
qed

section \<open>The proxy's control-plane codes\<close>

definition PROXY_ERR_INVALID_PARAM :: int where "PROXY_ERR_INVALID_PARAM = 10001"
definition PROXY_ERR_SESSION_EXPIRED :: int where "PROXY_ERR_SESSION_EXPIRED = 11001"
definition PROXY_ERR_SESSION_NOT_FOUND :: int where "PROXY_ERR_SESSION_NOT_FOUND = 11002"
definition PROXY_ERR_BACKEND_UNAVAILABLE :: int where "PROXY_ERR_BACKEND_UNAVAILABLE = 12001"
definition PROXY_ERR_BACKEND_RPC :: int where "PROXY_ERR_BACKEND_RPC = 12002"
definition PROXY_ERR_UNSUPPORTED_PATH :: int where "PROXY_ERR_UNSUPPORTED_PATH = 13001"
definition PROXY_ERR_NOT_IMPLEMENTED :: int where "PROXY_ERR_NOT_IMPLEMENTED = 90001"

lemmas proxy_codes =
  PROXY_ERR_INVALID_PARAM_def PROXY_ERR_SESSION_EXPIRED_def PROXY_ERR_SESSION_NOT_FOUND_def
  PROXY_ERR_BACKEND_UNAVAILABLE_def PROXY_ERR_BACKEND_RPC_def PROXY_ERR_UNSUPPORTED_PATH_def
  PROXY_ERR_NOT_IMPLEMENTED_def

definition ErrorMessage :: "int \<Rightarrow> string" where
  "ErrorMessage code =
     (if code = PROXY_ERR_INVALID_PARAM then ''invalid parameter''
      else if code = PROXY_ERR_SESSION_EXPIRED then ''session expired''
      else if code = PROXY_ERR_SESSION_NOT_FOUND then ''session not found''
      else if code = PROXY_ERR_BACKEND_UNAVAILABLE then ''no backend available''
      else if code = PROXY_ERR_BACKEND_RPC then ''backend rpc failed''
      else if code = PROXY_ERR_UNSUPPORTED_PATH then ''unsupported data_flow''
      else if code = PROXY_ERR_NOT_IMPLEMENTED then ''not implemented in proxy v1''
      else ''unknown error'')"

end
