(* ===== verification/Proxy_Service.thy ===== *)
theory Proxy_Service
  imports Session_Manager Error_Codes
begin

text \<open>
  The control-plane service of the proxy
  (\<open>proxy/src/service/proxy_control_plane_service.{h,cpp}\<close>): one definition per RPC handler,
  from the session table to the handler's outcome and the next table, and the sequence of
  handlers as the server runs them. The lemmas give the outcome of \<open>OpenSession\<close> on every
  guard, the lifecycle of a PUT, and what every reachable table satisfies.
\<close>

section \<open>The service and its handlers\<close>

record ProxyControlPlaneService =
  ps_gateway_id :: string
  ps_backend_endpoint :: string

definition kGdsDataPath :: string where
  "kGdsDataPath = ''gds-cuobject''"

definition kOpTypePut :: string where
  "kOpTypePut = ''PUT''"

definition proxy_OpenSession ::
  "ProxyControlPlaneService \<Rightarrow> int \<Rightarrow> OpenSessionRequest \<Rightarrow> SessionManager \<Rightarrow>
   OpenSessionResponse handled \<times> SessionManager" where
  "proxy_OpenSession svc now request m =
     (if osq_data_flow request \<noteq> kGdsDataPath then
        (Inl (SetFailedCode PROXY_ERR_UNSUPPORTED_PATH
           (''proxy v1 only accepts data_flow=gds-cuobject, got: '' @ c_str (osq_data_flow request))), m)
      else if osq_op_type request \<noteq> kOpTypePut then
        (Inl (SetFailedCode PROXY_ERR_UNSUPPORTED_PATH
           (''proxy v1 only accepts op_type=PUT, got: '' @ c_str (osq_op_type request))), m)
      else if osq_is_multipart_part request then
        (Inl (SetFailedCode PROXY_ERR_INVALID_PARAM
           ''proxy v1 does not support multipart part sessions''), m)
      else if osq_bucket request = [] \<or> osq_object_key request = [] then
        (Inl (SetFailedCode PROXY_ERR_INVALID_PARAM ''missing bucket or object_key''), m)
      else if osq_expected_size request = 0 then
        (Inl (SetFailedCode PROXY_ERR_INVALID_PARAM ''expected_size must be > 0 for GDS PUT''), m)
      else
        (let (session, m') = CreateSession now (osq_session_id request) (osq_bucket request)
               (osq_object_key request) (osq_expected_size request) m
         in (Inr \<lparr>osr_request_id = osq_request_id request,
                  osr_session_id = session_id session,
                  osr_ticket = ticket session,
                  osr_gateway_id = ps_gateway_id svc,
                  osr_data_endpoint = ps_backend_endpoint svc,
                  osr_expire_at = expire_at session\<rparr>, m')))"

definition proxy_ReportGdsPut ::
  "ReportGdsPutRequest \<Rightarrow> SessionManager \<Rightarrow> ReportGdsPutResponse handled \<times> SessionManager" where
  "proxy_ReportGdsPut request m =
     (let (ok, m') = CompleteSession (rgq_session_id request) (rgq_etag request)
            (rgq_crc32c request) (rgq_bytes_transferred request) m
      in (Inr \<lparr>rgr_accepted = ok\<rparr>, m'))"

definition proxy_CompleteUpload ::
  "CompleteUploadRequest \<Rightarrow> SessionManager \<Rightarrow> CompleteUploadResponse handled \<times> SessionManager" where
  "proxy_CompleteUpload request m =
     (case GetCompletedSession (cuq_upload_id request) m of
        None \<Rightarrow> (Inl (SetFailedCode PROXY_ERR_SESSION_NOT_FOUND
                   ''session not found or not yet completed''), m)
      | Some session \<Rightarrow> (Inr (empty_CompleteUploadResponse\<lparr>cur_etag := etag session\<rparr>), m))"

text \<open>The six placeholders.\<close>

definition proxy_HeadObject ::
  "HeadObjectRequest \<Rightarrow> SessionManager \<Rightarrow> HeadObjectResponse handled \<times> SessionManager" where
  "proxy_HeadObject request m =
     (Inl (SetFailedCode PROXY_ERR_NOT_IMPLEMENTED (ErrorMessage PROXY_ERR_NOT_IMPLEMENTED)), m)"

definition proxy_GdsGet ::
  "GdsChunkRequest \<Rightarrow> SessionManager \<Rightarrow> GdsChunkResponse handled \<times> SessionManager" where
  "proxy_GdsGet request m =
     (Inl (SetFailedCode PROXY_ERR_NOT_IMPLEMENTED (ErrorMessage PROXY_ERR_NOT_IMPLEMENTED)), m)"

definition proxy_GdsPut ::
  "GdsChunkRequest \<Rightarrow> SessionManager \<Rightarrow> GdsChunkResponse handled \<times> SessionManager" where
  "proxy_GdsPut request m =
     (Inl (SetFailedCode PROXY_ERR_NOT_IMPLEMENTED (ErrorMessage PROXY_ERR_NOT_IMPLEMENTED)), m)"

definition proxy_AbortSession ::
  "AbortSessionRequest \<Rightarrow> SessionManager \<Rightarrow> AbortSessionResponse handled \<times> SessionManager" where
  "proxy_AbortSession request m =
     (Inl (SetFailedCode PROXY_ERR_NOT_IMPLEMENTED (ErrorMessage PROXY_ERR_NOT_IMPLEMENTED)), m)"

definition proxy_StartUpload ::
  "StartUploadRequest \<Rightarrow> SessionManager \<Rightarrow> StartUploadResponse handled \<times> SessionManager" where
  "proxy_StartUpload request m =
     (Inl (SetFailedCode PROXY_ERR_NOT_IMPLEMENTED (ErrorMessage PROXY_ERR_NOT_IMPLEMENTED)), m)"

definition proxy_AbortUpload ::
  "AbortUploadRequest \<Rightarrow> SessionManager \<Rightarrow> AbortUploadResponse handled \<times> SessionManager" where
  "proxy_AbortUpload request m =
     (Inl (SetFailedCode PROXY_ERR_NOT_IMPLEMENTED (ErrorMessage PROXY_ERR_NOT_IMPLEMENTED)), m)"

section \<open>The outcome of OpenSession\<close>

text \<open>The requests the service accepts.\<close>

definition open_valid :: "OpenSessionRequest \<Rightarrow> bool" where
  "open_valid rq \<longleftrightarrow> osq_data_flow rq = kGdsDataPath \<and> osq_op_type rq = kOpTypePut \<and>
     \<not> osq_is_multipart_part rq \<and> osq_bucket rq \<noteq> [] \<and> osq_object_key rq \<noteq> [] \<and>
     osq_expected_size rq \<noteq> 0"

definition open_error_code :: "OpenSessionRequest \<Rightarrow> int" where
  "open_error_code rq =
     (if osq_data_flow rq \<noteq> kGdsDataPath \<or> osq_op_type rq \<noteq> kOpTypePut
      then PROXY_ERR_UNSUPPORTED_PATH else PROXY_ERR_INVALID_PARAM)"

lemma OpenSession_invalid:
  assumes "\<not> open_valid rq"
  shows "\<exists>msg. proxy_OpenSession svc now rq m = (Inl (SetFailedCode (open_error_code rq) msg), m)"
  using assms by (auto simp: open_valid_def proxy_OpenSession_def open_error_code_def)

lemma OpenSession_valid:
  assumes "open_valid rq"
  shows "proxy_OpenSession svc now rq m =
     (let (s, m') = CreateSession now (osq_session_id rq) (osq_bucket rq) (osq_object_key rq)
            (osq_expected_size rq) m
      in (Inr \<lparr>osr_request_id = osq_request_id rq, osr_session_id = session_id s,
               osr_ticket = ticket s, osr_gateway_id = ps_gateway_id svc,
               osr_data_endpoint = ps_backend_endpoint svc, osr_expire_at = expire_at s\<rparr>, m'))"
  using assms by (simp add: open_valid_def proxy_OpenSession_def)

lemma OpenSession_Inr:
  assumes "proxy_OpenSession svc now rq m = (Inr resp, m')"
  obtains s where "open_valid rq"
    and "CreateSession now (osq_session_id rq) (osq_bucket rq) (osq_object_key rq)
           (osq_expected_size rq) m = (s, m')"
    and "resp = \<lparr>osr_request_id = osq_request_id rq, osr_session_id = session_id s,
               osr_ticket = ticket s, osr_gateway_id = ps_gateway_id svc,
               osr_data_endpoint = ps_backend_endpoint svc, osr_expire_at = expire_at s\<rparr>"
proof -
  have v: "open_valid rq"
    using assms OpenSession_invalid [of rq svc now m] by (cases "open_valid rq") auto
  obtain s m'' where c: "CreateSession now (osq_session_id rq) (osq_bucket rq)
      (osq_object_key rq) (osq_expected_size rq) m = (s, m'')" by force
  show ?thesis
    using assms OpenSession_valid [OF v, of svc now m] c by (intro that [OF v]) auto
qed

section \<open>The server as a sequence of handler calls\<close>

datatype proxy_call =
    CallOpenSession OpenSessionRequest
  | CallReportGdsPut ReportGdsPutRequest
  | CallCompleteUpload CompleteUploadRequest
  | CallHeadObject HeadObjectRequest
  | CallGdsGet GdsChunkRequest
  | CallGdsPut GdsChunkRequest
  | CallAbortSession AbortSessionRequest
  | CallStartUpload StartUploadRequest
  | CallAbortUpload AbortUploadRequest

text \<open>The table after one call, made when the clock reads \<open>now\<close>.\<close>

fun proxy_step :: "ProxyControlPlaneService \<Rightarrow> int \<times> proxy_call \<Rightarrow> SessionManager \<Rightarrow> SessionManager" where
  "proxy_step svc (now, CallOpenSession q) m = snd (proxy_OpenSession svc now q m)"
| "proxy_step svc (now, CallReportGdsPut q) m = snd (proxy_ReportGdsPut q m)"
| "proxy_step svc (now, CallCompleteUpload q) m = snd (proxy_CompleteUpload q m)"
| "proxy_step svc (now, CallHeadObject q) m = snd (proxy_HeadObject q m)"
| "proxy_step svc (now, CallGdsGet q) m = snd (proxy_GdsGet q m)"
| "proxy_step svc (now, CallGdsPut q) m = snd (proxy_GdsPut q m)"
| "proxy_step svc (now, CallAbortSession q) m = snd (proxy_AbortSession q m)"
| "proxy_step svc (now, CallStartUpload q) m = snd (proxy_StartUpload q m)"
| "proxy_step svc (now, CallAbortUpload q) m = snd (proxy_AbortUpload q m)"

definition proxy_run ::
  "ProxyControlPlaneService \<Rightarrow> (int \<times> proxy_call) list \<Rightarrow> SessionManager \<Rightarrow> SessionManager" where
  "proxy_run svc calls m = fold (proxy_step svc) calls m"

lemmas proxy_placeholders =
  proxy_HeadObject_def proxy_GdsGet_def proxy_GdsPut_def proxy_AbortSession_def
  proxy_StartUpload_def proxy_AbortUpload_def

lemma CompleteUpload_table [simp]: "snd (proxy_CompleteUpload q m) = m"
  by (simp add: proxy_CompleteUpload_def split: option.splits)

lemma ReportGdsPut_table:
  "snd (proxy_ReportGdsPut q m) = snd (CompleteSession (rgq_session_id q) (rgq_etag q)
     (rgq_crc32c q) (rgq_bytes_transferred q) m)"
  by (simp add: proxy_ReportGdsPut_def split: prod.splits)

lemma OpenSession_table:
  "snd (proxy_OpenSession svc now q m) =
     (if open_valid q then snd (CreateSession now (osq_session_id q) (osq_bucket q)
        (osq_object_key q) (osq_expected_size q) m) else m)"
  using OpenSession_invalid [of q svc now m] OpenSession_valid [of q svc now m]
  by (auto simp: Let_def split: prod.splits)

lemmas proxy_tables = CompleteUpload_table ReportGdsPut_table OpenSession_table

lemma proxy_step_inv: "sm_inv m \<Longrightarrow> sm_inv (proxy_step svc c m)"
  by (cases "(svc, c, m)" rule: proxy_step.cases)
     (simp_all add: proxy_tables proxy_placeholders CreateSession_inv CompleteSession_inv)

lemma proxy_run_inv: "sm_inv m \<Longrightarrow> sm_inv (proxy_run svc calls m)"
  unfolding proxy_run_def by (induction calls arbitrary: m) (simp_all add: proxy_step_inv)

text \<open>What one call does to one entry of the table.\<close>

lemma proxy_step_entry:
  assumes "GetSession i (proxy_step svc (now, c) m) = Some s"
  obtains (old) "GetSession i m = Some s"
  | (opened) q where "c = CallOpenSession q" "open_valid q"
      "s = pending_session i (expire_at_for now (ttl_sec m)) (osq_bucket q) (osq_object_key q)
             (osq_expected_size q)" "i = created_id (osq_session_id q) m"
  | (reported) q r where "c = CallReportGdsPut q" "i = rgq_session_id q" "GetSession i m = Some r"
      "s = mark_completed (rgq_etag q) (rgq_crc32c q) (rgq_bytes_transferred q) r"
proof (cases c)
  case (CallOpenSession q)
  show ?thesis
  proof (cases "open_valid q")
    case True
    obtain r m' where cs: "CreateSession now (osq_session_id q) (osq_bucket q) (osq_object_key q)
        (osq_expected_size q) m = (r, m')" by force
    then have r: "r = pending_session (created_id (osq_session_id q) m)
        (expire_at_for now (ttl_sec m)) (osq_bucket q) (osq_object_key q) (osq_expected_size q)"
      by (simp add: CreateSession_eq Let_def)
    show ?thesis
      using assms CallOpenSession True cs CreateSession_lookup [OF cs, of i] r that(1,2)
      by (auto simp: proxy_tables split: if_splits)
  qed (use assms CallOpenSession that(1) in \<open>simp add: proxy_tables\<close>)
next
  case (CallReportGdsPut q)
  obtain ok m' where cs: "CompleteSession (rgq_session_id q) (rgq_etag q) (rgq_crc32c q)
      (rgq_bytes_transferred q) m = (ok, m')" by force
  show ?thesis
    using assms CallReportGdsPut cs CompleteSession_lookup [OF cs, of i] that(1,3)
    by (auto simp: proxy_tables split: if_splits)
qed (use assms that(1) in \<open>simp_all add: proxy_placeholders\<close>)

section \<open>Where the entries of the table come from\<close>

text \<open>
  Every entry goes back to a valid \<open>OpenSession\<close> among the calls made so far, and carries
  either nothing (pending) or the data of a report for its own identifier, made after the open.
\<close>

definition opened_in :: "(int \<times> proxy_call) list \<Rightarrow> string \<Rightarrow> Session \<Rightarrow> bool" where
  "opened_in calls i s \<longleftrightarrow> (\<exists>now q. (now, CallOpenSession q) \<in> set calls \<and> open_valid q \<and>
     bucket s = osq_bucket q \<and> object_key s = osq_object_key q \<and>
     expected_size s = osq_expected_size q \<and> (osq_session_id q = i \<or> osq_session_id q = []))"

definition reported_in :: "(int \<times> proxy_call) list \<Rightarrow> string \<Rightarrow> Session \<Rightarrow> bool" where
  "reported_in calls i s \<longleftrightarrow> (\<exists>before now q after.
     calls = before @ (now, CallReportGdsPut q) # after \<and> opened_in before i s \<and>
     rgq_session_id q = i \<and> etag s = rgq_etag q \<and> crc32c s = rgq_crc32c q \<and>
     bytes_transferred s = rgq_bytes_transferred q)"

definition justified :: "(int \<times> proxy_call) list \<Rightarrow> SessionManager \<Rightarrow> bool" where
  "justified calls m \<longleftrightarrow> (\<forall>i s. GetSession i m = Some s \<longrightarrow> opened_in calls i s \<and>
     (status s = kPending \<and> etag s = [] \<or> status s = kCompleted \<and> reported_in calls i s))"

lemma opened_in_mono: "opened_in calls i s \<Longrightarrow> opened_in (calls @ later) i s"
  by (auto simp: opened_in_def)

lemma reported_in_mono: "reported_in calls i s \<Longrightarrow> reported_in (calls @ later) i s"
  unfolding reported_in_def by (metis append.assoc append_Cons)

lemma opened_in_mark: "opened_in calls i (mark_completed t c n s) \<longleftrightarrow> opened_in calls i s"
  by (simp add: opened_in_def)

lemma justified_new: "justified calls (new_SessionManager ttl)"
  by (simp add: justified_def new_SessionManager_def GetSession_def)

lemma justified_step:
  assumes "justified calls m"
  shows "justified (calls @ [(now, c)]) (proxy_step svc (now, c) m)"
  unfolding justified_def
proof (intro allI impI)
  fix i s
  assume "GetSession i (proxy_step svc (now, c) m) = Some s"
  then show "opened_in (calls @ [(now, c)]) i s \<and> (status s = kPending \<and> etag s = [] \<or>
      status s = kCompleted \<and> reported_in (calls @ [(now, c)]) i s)"
  proof (cases rule: proxy_step_entry)
    case old
    then show ?thesis
      using assms opened_in_mono reported_in_mono unfolding justified_def by blast
  next
    case (opened q)
    then have "opened_in (calls @ [(now, c)]) i s"
      by (auto simp: opened_in_def created_id_def)
    with opened show ?thesis by simp
  next
    case (reported q r)
    then have r: "opened_in calls i r" using assms unfolding justified_def by blast
    moreover have "reported_in (calls @ [(now, c)]) i s"
      unfolding reported_in_def using reported r
      by (intro exI [of _ calls] exI [of _ now] exI [of _ q] exI [of _ "[]"])
        (simp add: opened_in_mark)
    ultimately show ?thesis using reported by (simp add: opened_in_mark opened_in_mono)
  qed
qed

lemma justified_run: "justified done m \<Longrightarrow> justified (done @ calls) (proxy_run svc calls m)"
proof (induction calls arbitrary: "done" m)
  case (Cons c calls)
  have "justified (done @ [c]) (proxy_step svc c m)"
    using justified_step [OF Cons.prems, of "fst c" "snd c" svc] by simp
  then have "justified ((done @ [c]) @ calls) (proxy_run svc calls (proxy_step svc c m))"
    by (rule Cons.IH)
  then show ?case by (simp add: proxy_run_def)
qed (simp add: proxy_run_def)

lemma CompleteUpload_Inr:
  assumes "sm_inv m" and "proxy_CompleteUpload q m = (Inr resp, m')"
  obtains i s where "GetSession i m = Some s" "status s = kCompleted"
    "cuq_upload_id q = ticket_for i" "cur_etag resp = etag s"
proof -
  from assms(2) obtain s where s: "GetCompletedSession (cuq_upload_id q) m = Some s"
    and e: "cur_etag resp = etag s"
    by (auto simp: proxy_CompleteUpload_def empty_CompleteUploadResponse_def split: option.splits)
  then obtain i where i: "GetSession i m = Some s" "status s = kCompleted"
      "ticket s = cuq_upload_id q"
    using GetCompletedSession_iff [OF assms(1)] by blast
  have "ticket s = ticket_for i" using sm_inv_lookup [OF assms(1) i(1)] by simp
  then show ?thesis using that [OF i(1,2)] i(3) e by simp
qed

text \<open>No call removes an entry.\<close>

lemma proxy_step_keeps:
  assumes "GetSession i m \<noteq> None"
  shows "GetSession i (proxy_step svc c m) \<noteq> None"
proof (cases "(svc, c, m)" rule: proxy_step.cases)
  case (1 svc' now q m')
  obtain s m1 where cs: "CreateSession now (osq_session_id q) (osq_bucket q) (osq_object_key q)
      (osq_expected_size q) m = (s, m1)" by force
  show ?thesis using assms 1 cs CreateSession_lookup [OF cs, of i] by (simp add: proxy_tables)
next
  case (2 svc' now q m')
  obtain ok m1 where cs: "CompleteSession (rgq_session_id q) (rgq_etag q) (rgq_crc32c q)
      (rgq_bytes_transferred q) m = (ok, m1)" by force
  show ?thesis using assms 2 cs CompleteSession_lookup [OF cs, of i] by (auto simp: proxy_tables)
qed (use assms in \<open>simp_all add: proxy_placeholders\<close>)

lemma proxy_run_keeps: "GetSession i m \<noteq> None \<Longrightarrow> GetSession i (proxy_run svc calls m) \<noteq> None"
  unfolding proxy_run_def
proof (induction calls arbitrary: m)
  case (Cons c calls)
  then show ?case using proxy_step_keeps [of i m svc c] by simp
qed simp

end
