(* ===== verification/Utc_Calendar.thy ===== *)
theory Utc_Calendar
  imports Utc_Time
begin

text \<open>
  The calendar against a reference: the number of a day counted with the leap-year rule, and a
  reader of the timestamp text. The lemmas show that the date computed for a day has that number
  and exists in the calendar, and that the text of an instant reads back as that instant.
\<close>

section \<open>The day number of a date\<close>

definition leap_days_before :: "int \<Rightarrow> int" where
  "leap_days_before y = (y - 1) div 4 - (y - 1) div 100 + (y - 1) div 400"

text \<open>The number of the first of January, counted from 1970-01-01.\<close>

definition year_start :: "int \<Rightarrow> int" where
  "year_start y = 365 * (y - 1970) + leap_days_before y - 477"

definition valid_date :: "int \<times> nat \<times> nat \<Rightarrow> bool" where
  "valid_date = (\<lambda>(y, m, d). 1 \<le> m \<and> m \<le> 12 \<and> 1 \<le> d \<and> d \<le> month_lengths y ! (m - 1))"

definition day_number :: "int \<times> nat \<times> nat \<Rightarrow> int" where
  "day_number = (\<lambda>(y, m, d). year_start y + int (sum_list (take (m - 1) (month_lengths y))) + int d - 1)"

lemma div_step:
  assumes "0 < k"
  shows "(y :: int) div k = (y - 1) div k + (if y mod k = 0 then 1 else 0)"
proof (cases "y mod k = 0")
  case True
  then obtain q where y: "y = k * q" by (auto elim: dvdE simp: mod_eq_0_iff_dvd)
  have "(k * q - 1) div k = q - 1"
    using assms by (intro int_div_pos_eq [of _ _ _ "k - 1"]) (simp_all add: algebra_simps)
  then show ?thesis using assms y by simp
next
  case False
  have "0 \<le> y mod k" "y mod k < k" using assms by simp_all
  then have "(y - 1) div k = y div k"
    using False minus_mult_div_eq_mod [of y k]
    by (intro int_div_pos_eq [of _ _ _ "y mod k - 1"]) (simp_all add: algebra_simps)
  then show ?thesis using False by simp
qed

lemma year_start_Suc: "year_start (y + 1) = year_start y + int (days_in_year y)"
proof -
  have "y mod 400 mod 100 = y mod 100" "y mod 100 mod 4 = y mod 4" by (rule mod_mod_cancel, simp)+
  then have imp: "y mod 400 = 0 \<Longrightarrow> y mod 100 = 0" "y mod 100 = 0 \<Longrightarrow> y mod 4 = 0" by (metis mod_0)+
  have step: "y div 4 = (y - 1) div 4 + (if y mod 4 = 0 then 1 else 0)"
    "y div 100 = (y - 1) div 100 + (if y mod 100 = 0 then 1 else 0)"
    "y div 400 = (y - 1) div 400 + (if y mod 400 = 0 then 1 else 0)"
    by (rule div_step, simp)+
  have "leap_days_before (y + 1) = leap_days_before y + (if is_leap y then 1 else 0)"
    unfolding leap_days_before_def add_diff_cancel_right' step is_leap_def
    using imp by (cases "y mod 4 = 0"; cases "y mod 100 = 0"; cases "y mod 400 = 0") simp_all
  then show ?thesis by (simp add: year_start_def days_in_year_def)
qed

lemma year_start_cycle: "year_start (y + 400 * k) = year_start y + 146097 * k"
proof -
  have "(y - 1 + 4 * (100 * k)) div 4 = 100 * k + (y - 1) div 4"
    "(y - 1 + 100 * (4 * k)) div 100 = 4 * k + (y - 1) div 100"
    "(y - 1 + 400 * k) div 400 = k + (y - 1) div 400"
    by (rule div_mult_self2, simp)+
  then show ?thesis by (simp add: year_start_def leap_days_before_def algebra_simps)
qed

lemma month_lengths_cycle: "month_lengths (y + 400 * k) = month_lengths y"
proof -
  have "(y + 4 * (100 * k)) mod 4 = y mod 4" "(y + 100 * (4 * k)) mod 100 = y mod 100"
    "(y + 400 * k) mod 400 = y mod 400" by (rule mod_mult_self2)+
  then show ?thesis by (simp add: month_lengths_def is_leap_def)
qed

lemma find_year_day: "find_year y d = (y', d') \<Longrightarrow> year_start y' + int d' = year_start y + int d"
proof (induction y d rule: find_year.induct)
  case (1 y d)
  show ?case
  proof (cases "d < days_in_year y")
    case True
    then show ?thesis using "1.prems" by (simp add: find_year.simps [of y d])
  next
    case False
    then show ?thesis using 1 by (simp add: find_year.simps [of y d] year_start_Suc)
  qed
qed

lemma find_month_day:
  "find_month ls m d = (m', d') \<Longrightarrow> d < sum_list ls \<Longrightarrow>
   m \<le> m' \<and> m' - m < length ls \<and> d' < ls ! (m' - m) \<and> sum_list (take (m' - m) ls) + d' = d"
proof (induction ls m d rule: find_month.induct)
  case (2 l ls m d)
  show ?case
  proof (cases "d < l")
    case False
    then have "Suc m \<le> m' \<and> m' - Suc m < length ls \<and> d' < ls ! (m' - Suc m) \<and>
        sum_list (take (m' - Suc m) ls) + d' = d - l" using 2 by auto
    then show ?thesis using False using take_Cons' [of "m' - m" l ls] nth_Cons' [of l ls "m' - m"] by auto
  qed (use 2 in auto)
qed simp

lemma sum_month_lengths: "sum_list (month_lengths y) = days_in_year y"
  by (simp add: month_lengths_def days_in_year_def)

lemma civil_date_day:
  "day_number (civil_date n) = n \<and> valid_date (civil_date n)"
proof -
  obtain y doy where fy: "find_year 1970 (nat (n mod 146097)) = (y, doy)" by (metis surj_pair)
  obtain m d where fm: "find_month (month_lengths y) 1 doy = (m, d)" by (metis surj_pair)
  have "doy < sum_list (month_lengths y)" using find_year_bound [OF fy] by (simp add: sum_month_lengths)
  note month = find_month_day [OF fm this]
  have c: "civil_date n = (y + 400 * (n div 146097), m, d + 1)" 
    by (simp add: civil_date_def fy fm [unfolded One_nat_def])
  have "year_start 1970 = 0" by (simp add: year_start_def leap_days_before_def)
  then have "year_start y + int doy = n mod 146097" using find_year_day [OF fy] by simp
  moreover have "int doy = int (sum_list (take (m - 1) (month_lengths y))) + int d"
    using month by (metis of_nat_add)
  moreover have "n = 146097 * (n div 146097) + n mod 146097" by (rule mult_div_mod_eq [symmetric])
  ultimately have "day_number (civil_date n) = n"
    unfolding c day_number_def prod.case year_start_cycle month_lengths_cycle by linarith
  moreover have "length (month_lengths y) = 12" by (simp add: month_lengths_def)
  then have "valid_date (civil_date n)"
    using month unfolding c by (auto simp: valid_date_def month_lengths_cycle)
  ultimately show ?thesis by blast
qed

section \<open>Reading a timestamp back\<close>

definition is_digit_char :: "char \<Rightarrow> bool" where
  "is_digit_char c \<longleftrightarrow> 48 \<le> (of_char c :: nat) \<and> (of_char c :: nat) \<le> 57"

definition read_number :: "string \<Rightarrow> nat" where
  "read_number s = fold (\<lambda>c n. 10 * n + (of_char c - 48)) s 0"

definition timestamp_shape :: "string \<Rightarrow> bool" where
  "timestamp_shape s \<longleftrightarrow> length s = 20 \<and> list_all (\<lambda>i. is_digit_char (s ! i)) [0, 1, 2, 3, 5, 6, 8, 9, 11, 12, 14, 15, 17, 18] \<and>
     s ! 4 = CHR ''-'' \<and> s ! 7 = CHR ''-'' \<and> s ! 10 = CHR ''T'' \<and> s ! 13 = CHR '':'' \<and> s ! 16 = CHR '':'' \<and>
     s ! 19 = CHR ''Z''"

definition timestamp_date :: "string \<Rightarrow> int \<times> nat \<times> nat" where
  "timestamp_date s = (int (read_number (take 4 s)), read_number (take 2 (drop 5 s)), read_number (take 2 (drop 8 s)))"

definition timestamp_seconds :: "string \<Rightarrow> nat" where
  "timestamp_seconds s = 3600 * read_number (take 2 (drop 11 s)) + 60 * read_number (take 2 (drop 14 s)) +
     read_number (take 2 (drop 17 s))"

text \<open>
  The instant a timestamp denotes, in seconds since 1970: the four fixed places of the year, an
  existing date and a time of the day.
\<close>

definition read_utc :: "string \<Rightarrow> int option" where
  "read_utc s =
     (if timestamp_shape s \<and> valid_date (timestamp_date s) \<and> read_number (take 2 (drop 11 s)) < 24 \<and>
         read_number (take 2 (drop 14 s)) < 60 \<and> read_number (take 2 (drop 17 s)) < 60
      then Some (86400 * day_number (timestamp_date s) + int (timestamp_seconds s)) else None)"

lemma year_start_mono: "y \<le> z \<Longrightarrow> year_start y \<le> year_start z"
  by (induction z rule: int_ge_induct) (auto simp: year_start_Suc)

lemma day_in_year:
  assumes "valid_date (y, m, d)"
  shows "year_start y \<le> day_number (y, m, d)" "day_number (y, m, d) < year_start (y + 1)"
proof -
  have m: "m - 1 < length (month_lengths y)" "1 \<le> d" "d \<le> month_lengths y ! (m - 1)"
    using assms by (auto simp: valid_date_def month_lengths_def)
  have "sum_list (take (Suc (m - 1)) (month_lengths y)) \<le> sum_list (month_lengths y)"
    by (metis append_take_drop_id sum_list_append le_add1)
  then have "sum_list (take (m - 1) (month_lengths y)) + d \<le> days_in_year y"
    using m by (simp add: take_Suc_conv_app_nth sum_month_lengths)
  then show "year_start y \<le> day_number (y, m, d)" "day_number (y, m, d) < year_start (y + 1)"
    using m(2) by (simp_all add: day_number_def year_start_Suc)
qed

text \<open>The years of four digits.\<close>

lemma four_digit_year:
  assumes "civil_date n = (y, m, d)" "- 354285 \<le> n" "n < 2932897"
  shows "1000 \<le> y" "y < 10000"
proof -
  have n: "day_number (y, m, d) = n" "valid_date (y, m, d)" using civil_date_day [of n] assms(1) by simp_all
  note year = day_in_year [OF n(2)]
  have "year_start 1000 = - 354285" "year_start 10000 = 2932897"
    by (simp_all add: year_start_def leap_days_before_def)
  then show "1000 \<le> y" "y < 10000"
    using year n(1) assms(2,3) year_start_mono [of "y + 1" 1000] year_start_mono [of 10000 y] by linarith+
qed

lemma to_string_four:
  assumes "1000 \<le> n" "n < 10000"
  shows "to_string n = [hex_digit (n div 10 div 10 div 10), hex_digit (n div 10 div 10 mod 10),
    hex_digit (n div 10 mod 10), hex_digit (n mod 10)]"
proof -
  have snoc: "10 \<le> k \<Longrightarrow> to_string k = to_string (k div 10) @ [hex_digit (k mod 10)]" for k
    by (simp add: to_string.simps [of k])
  have "10 \<le> n" "10 \<le> n div 10" "10 \<le> n div 10 div 10" "n div 10 div 10 div 10 < 10" using assms by linarith+
  then show ?thesis
    using snoc [of n] snoc [of "n div 10"] snoc [of "n div 10 div 10"]
      to_string.simps [of "n div 10 div 10 div 10"] by simp
qed

lemma decimal_digit [simp]:
  "d < 10 \<Longrightarrow> is_digit_char (hex_digit d)" "d < 10 \<Longrightarrow> of_char (hex_digit d) - 48 = d"
  by (simp_all add: is_digit_char_def of_char_hex_digit)

lemma read_pad2: "n < 100 \<Longrightarrow> read_number (pad2 n) = n"
  by (simp add: read_number_def pad2_def)

lemma read_four: "1000 \<le> n \<Longrightarrow> n < 10000 \<Longrightarrow> read_number (to_string n) = n"
proof -
  assume n: "1000 \<le> n" "n < 10000"
  then have "n div 10 div 10 div 10 < 10" by linarith
  moreover have "10 * (n div 10) + n mod 10 = n" for n :: nat by simp
  ultimately show ?thesis by (simp add: read_number_def to_string_four [OF n] del: div_mult2_eq [symmetric])
qed

lemma month_length_le: "i < 12 \<Longrightarrow> month_lengths y ! i \<le> 31"
  by (auto simp: month_lengths_def less_Suc_eq numeral_eq_Suc)

lemma time_of_day:
  assumes "s < 86400"
  shows "s div 3600 < 24" "s div 60 mod 60 < 60" "s mod 60 < (60 :: nat)"
    "3600 * (s div 3600) + 60 * (s div 60 mod 60) + s mod 60 = s"
proof -
  have "s div 60 div 60 = s div 3600" by (simp add: div_mult2_eq [symmetric])
  moreover have "s = 60 * (s div 60) + s mod 60" "s div 60 = 60 * (s div 60 div 60) + s div 60 mod 60" by simp_all
  ultimately show "3600 * (s div 3600) + 60 * (s div 60 mod 60) + s mod 60 = s" by linarith
  show "s div 3600 < 24" "s div 60 mod 60 < 60" "s mod 60 < 60" using assms by simp_all
qed

text \<open>The text of an instant in a year of four digits denotes that instant.\<close>

lemma read_format_utc:
  assumes "- 354285 * 86400 \<le> t" "t < 2932897 * 86400"
  shows "read_utc (format_utc t) = Some t"
proof -
  obtain y m d where c: "civil_date (t div 86400) = (y, m, d)" by (metis surj_pair)
  have "- 354285 \<le> t div 86400" "t div 86400 < 2932897" using assms by linarith+
  then have y: "1000 \<le> nat y" "nat y < 10000" "0 \<le> y" using four_digit_year [OF c] by simp_all
  have v: "valid_date (y, m, d)" "day_number (y, m, d) = t div 86400"
    using civil_date_day [of "t div 86400"] c by simp_all
  have "d \<le> month_lengths y ! (m - 1)" "m - 1 < 12" "m \<le> 12" using v(1) by (auto simp: valid_date_def)
  then have md: "m < 100" "d < 100" using month_length_le [of "m - 1" y] by simp_all
  define s where "s = nat (t mod 86400)"
  have s: "s < 86400" "int s = t mod 86400" by (simp_all add: s_def nat_less_iff)
  note time = time_of_day [OF s(1)]
  have fmt: "format_utc t = to_string (nat y) @ ''-'' @ pad2 m @ ''-'' @ pad2 d @ ''T'' @ pad2 (s div 3600) @ '':''
         @ pad2 (s div 60 mod 60) @ '':'' @ pad2 (s mod 60) @ ''Z''"
    using y(3) by (simp add: format_utc_def c s_def int_to_string_def Let_def)
  have len: "length (to_string (nat y)) = 4" "length (pad2 n) = 2" for n
    by (simp_all add: to_string_four [OF y(1,2)] pad2_def)
  have "timestamp_date (format_utc t) = (y, m, d)" "timestamp_seconds (format_utc t) = s"
    using read_pad2 [of m] read_pad2 [of d] read_pad2 [of "s div 3600"] read_pad2 [of "s div 60 mod 60"]
      read_pad2 [of "s mod 60"] read_four [OF y(1,2)] md time y(3)
    by (simp_all add: fmt timestamp_date_def timestamp_seconds_def len drop_Cons')
  moreover have "timestamp_shape (format_utc t)"
    unfolding fmt using y(2) by (simp add: timestamp_shape_def to_string_four [OF y(1,2)] pad2_def less_mult_imp_div_less)
  moreover have "read_number (take 2 (drop 11 (format_utc t))) = s div 3600"
    "read_number (take 2 (drop 14 (format_utc t))) = s div 60 mod 60"
    "read_number (take 2 (drop 17 (format_utc t))) = s mod 60"
    using time read_pad2 by (simp_all add: fmt len drop_Cons')
  ultimately have "read_utc (format_utc t) = Some (86400 * (t div 86400) + int s)"
    using v time(1-3) by (simp add: read_utc_def)
  then show ?thesis using s(2) by simp
qed

end
