(* ===== verification/Scheduled.thy ===== *)
theory Scheduled
  imports Prelude
begin

text \<open>
  Invariants of event-driven systems, as a locale over any state \<open>'st\<close> and event type \<open>'e\<close>: the
  events a statement allows keep its invariant, so every run of such events does. The threads of
  the buffer pool, of the session table and of the client's memory manager are such systems, and
  so is the proxy serving its calls.
\<close>

locale scheduled =
  fixes step :: "'e \<Rightarrow> 'st \<Rightarrow> 'st"
    and allowed :: "'e \<Rightarrow> bool"
    and inv :: "'st \<Rightarrow> bool"
  assumes step_inv: "inv st \<Longrightarrow> allowed e \<Longrightarrow> inv (step e st)"
begin

lemma run_inv: "inv st \<Longrightarrow> list_all allowed evs \<Longrightarrow> inv (fold step evs st)"
  by (induction evs arbitrary: st) (simp_all add: step_inv)

text \<open>The invariant holds at every moment of the run.\<close>

lemma run_inv_prefix:
  assumes "inv st" "list_all allowed (before @ after)"
  shows "inv (fold step before st)"
  using run_inv [OF assms(1), of before] assms(2) by simp

end

end
