(* ===== verification/Session_Types.thy ===== *)
theory Session_Types
  imports Proxy_Service Utc_Calendar Scheduled
begin

text \<open>
  What every session of a reachable table looks like: its keys, its timestamp and its fields by
  status, as a well-formedness predicate that each operation of the table preserves; and the calls
  that leave a given session alone.
\<close>

section \<open>Well-formed sessions\<close>

text \<open>
  The readings of the clock for which the expiry fits the 64-bit count of nanoseconds of
  \<open>system_clock\<close>; outside of it the addition in \<open>CreateSession\<close> overflows.
\<close>

definition clock_fits :: "int \<Rightarrow> int \<Rightarrow> bool" where
  "clock_fits ttl now \<longleftrightarrow> 0 \<le> now \<and> 0 \<le> ttl \<and> now + ttl * 1000000000 < 2 ^ 63"

definition session_wf :: "string \<Rightarrow> Session \<Rightarrow> bool" where
  "session_wf k s \<longleftrightarrow> k \<noteq> [] \<and> session_id s = k \<and> ticket s = ticket_for k \<and> read_utc (expire_at s) \<noteq> None \<and>
     bucket s \<noteq> [] \<and> object_key s \<noteq> [] \<and> expected_size s \<noteq> 0 \<and>
     (case status s of
        kPending \<Rightarrow> etag s = [] \<and> crc32c s = 0 \<and> bytes_transferred s = 0
      | kCompleted \<Rightarrow> True
      | kFailed \<Rightarrow> False)"

definition table_wf :: "SessionManager \<Rightarrow> bool" where
  "table_wf m \<longleftrightarrow> distinct (map fst (sessions_tab m)) \<and> list_all (\<lambda>(k, s). session_wf k s) (sessions_tab m)"

lemma expire_at_reads:
  assumes "clock_fits ttl now"
  shows "read_utc (expire_at_for now ttl) = Some (now div 1000000000 + ttl)"
proof -
  let ?t = "to_time_t (now + ttl * 1000000000)"
  have "0 \<le> now + ttl * 1000000000" "now + ttl * 1000000000 < 9223372036854775808"
    using assms by (simp_all add: clock_fits_def)
  moreover from this have t: "?t = (now + ttl * 1000000000) div 1000000000"
    by (auto simp: to_time_t_def sgn_if)
  ultimately have "- 354285 * 86400 \<le> ?t" "?t < 2932897 * 86400" by linarith+
  then have "read_utc (format_utc ?t) = Some ?t" by (rule read_format_utc)
  then show ?thesis using t by (simp add: expire_at_for_def)
qed

lemma pending_wf:
  assumes "k \<noteq> []" "clock_fits ttl now" "b \<noteq> []" "key \<noteq> []" "n \<noteq> 0"
  shows "session_wf k (pending_session k (expire_at_for now ttl) b key n)"
  using assms by (simp add: session_wf_def expire_at_reads) (simp add: pending_session_def)

lemma completed_wf: "session_wf k s \<Longrightarrow> session_wf k (mark_completed tag crc bytes s)"
  by (simp add: session_wf_def) (simp add: mark_completed_def)

lemma update_wf:
  assumes "distinct (map fst al)" "list_all (\<lambda>(k, s). session_wf k s) al" "session_wf k s"
  shows "distinct (map fst (AList.update k s al)) \<and> list_all (\<lambda>(k, s). session_wf k s) (AList.update k s al)"
  using assms set_update_subset [of k s al] by (auto simp: list_all_iff distinct_update)

lemma created_id_nonempty [simp]: "created_id h m \<noteq> []"
  by (simp add: created_id_def kSessionIdPrefix_def)

lemma CreateSession_wf:
  assumes "table_wf m" "clock_fits (ttl_sec m) now" "b \<noteq> []" "key \<noteq> []" "n \<noteq> 0"
  shows "table_wf (snd (CreateSession now h b key n m))"
  using assms update_wf pending_wf by (simp add: CreateSession_eq table_wf_def Let_def)

lemma CompleteSession_wf:
  assumes "table_wf m"
  shows "table_wf (snd (CompleteSession sid tag crc bytes m))"
proof (cases "GetSession sid m")
  case None
  then show ?thesis using assms by (simp add: CompleteSession_eq)
next
  case (Some s)
  then have "(sid, s) \<in> set (sessions_tab m)" by (simp add: GetSession_def map_of_SomeD)
  then have "session_wf sid s" using assms by (auto simp: table_wf_def list_all_iff)
  then show ?thesis
    using assms Some update_wf [of "sessions_tab m", OF _ _ completed_wf] by (simp add: CompleteSession_eq table_wf_def)
qed

lemma proxy_step_ttl [simp]: "ttl_sec (proxy_step svc c m) = ttl_sec m"
  by (cases "(svc, c, m)" rule: proxy_step.cases)
     (simp_all add: proxy_tables proxy_placeholders CreateSession_eq CompleteSession_eq Let_def split: option.split)

lemma proxy_step_wf:
  assumes "table_wf m" "clock_fits (ttl_sec m) (fst c)"
  shows "table_wf (proxy_step svc c m)"
  using assms
  by (cases "(svc, c, m)" rule: proxy_step.cases)
     (simp_all add: proxy_tables proxy_placeholders CreateSession_wf CompleteSession_wf open_valid_def)

interpretation typed_table: scheduled
  "proxy_step svc" "\<lambda>(now, c). clock_fits ttl now" "\<lambda>m. table_wf m \<and> ttl_sec m = ttl"
  for svc :: ProxyControlPlaneService and ttl :: int
  by unfold_locales (auto simp: proxy_step_wf)

lemma proxy_run_wf:
  "table_wf m \<Longrightarrow> list_all (\<lambda>(now, c). clock_fits (ttl_sec m) now) calls \<Longrightarrow> table_wf (proxy_run svc calls m)"
  using typed_table.run_inv by (simp add: proxy_run_def)

lemma table_wf_new: "table_wf (new_SessionManager ttl)"
  by (simp add: table_wf_def new_SessionManager_def)

lemma OpenSession_answer:
  assumes "open_valid rq"
  shows "\<exists>resp m'. proxy_OpenSession svc now rq m = (Inr resp, m') \<and> osr_expire_at resp = expire_at_for now (ttl_sec m)"
  using assms by (simp add: OpenSession_valid CreateSession_eq Let_def)

section \<open>Calls that leave a session alone\<close>

definition leaves_alone :: "string \<Rightarrow> proxy_call \<Rightarrow> SessionManager \<Rightarrow> bool" where
  "leaves_alone i c m =
     (case c of
        CallOpenSession q \<Rightarrow> open_valid q \<longrightarrow> created_id (osq_session_id q) m \<noteq> i
      | CallReportGdsPut q \<Rightarrow> rgq_session_id q \<noteq> i
      | _ \<Rightarrow> True)"

fun run_leaves_alone ::
  "ProxyControlPlaneService \<Rightarrow> string \<Rightarrow> (int \<times> proxy_call) list \<Rightarrow> SessionManager \<Rightarrow> bool" where
  "run_leaves_alone svc i [] m = True"
| "run_leaves_alone svc i (c # cs) m = (leaves_alone i (snd c) m \<and> run_leaves_alone svc i cs (proxy_step svc c m))"

lemma proxy_step_leaves:
  assumes "leaves_alone i (snd c) m"
  shows "GetSession i (proxy_step svc c m) = GetSession i m"
proof (cases "(svc, c, m)" rule: proxy_step.cases)
  case (1 svc' now q m')
  then show ?thesis
    using assms by (auto simp: proxy_tables leaves_alone_def CreateSession_eq GetSession_def Let_def update_conv')
next
  case (2 svc' now q m')
  then show ?thesis
    using assms by (auto simp: proxy_tables leaves_alone_def CompleteSession_eq GetSession_def update_conv' split: option.split)
qed (use assms in \<open>simp_all add: proxy_placeholders\<close>)

lemma proxy_run_leaves: "run_leaves_alone svc i cs m \<Longrightarrow> GetSession i (proxy_run svc cs m) = GetSession i m"
proof (induction cs arbitrary: m)
  case (Cons c cs)
  then show ?case using proxy_step_leaves [of i c m svc] by (simp add: proxy_run_def)
qed (simp add: proxy_run_def)

end
