(* ===== verification/Proxy_Properties.thy ===== *)
theory Proxy_Properties
  imports Session_Types
begin

text \<open>
  The properties of the proxy: its session table, its handlers, the sequence of calls it
  serves, and the shared error codes.
\<close>

section \<open>A request for the witnesses\<close>

definition sample_open :: "string \<Rightarrow> OpenSessionRequest" where
  "sample_open i = empty_OpenSessionRequest
     \<lparr>osq_request_id := ''r'', osq_session_id := i, osq_bucket := ''b'', osq_object_key := ''k'',
      osq_op_type := ''PUT'', osq_data_flow := ''gds-cuobject'', osq_expected_size := 5\<rparr>"

definition sample_report :: "string \<Rightarrow> ReportGdsPutRequest" where
  "sample_report i = \<lparr>rgq_session_id = i, rgq_etag = ''e'', rgq_crc32c = 7, rgq_bytes_transferred = 5\<rparr>"

section \<open>Calls in sequence\<close>

text \<open>
  C3: a successful \<open>CompleteUpload\<close> on a proxy that has served any sequence of calls comes
  from a valid \<open>OpenSession\<close> followed by a \<open>ReportGdsPut\<close> for the session whose ticket was
  asked for, and answers the reported tag; it changes nothing.
\<close>

theorem no_phantom_completion:
  assumes "proxy_CompleteUpload q (proxy_run svc calls (new_SessionManager ttl)) = (Inr resp, m')"
  shows "m' = proxy_run svc calls (new_SessionManager ttl) \<and>
     (\<exists>before now rq after now' oq. calls = before @ (now, CallReportGdsPut rq) # after \<and>
        (now', CallOpenSession oq) \<in> set before \<and> open_valid oq \<and>
        (osq_session_id oq = rgq_session_id rq \<or> osq_session_id oq = []) \<and>
        cuq_upload_id q = ticket_for (rgq_session_id rq) \<and> cur_etag resp = rgq_etag rq)"
proof -
  let ?m = "proxy_run svc calls (new_SessionManager ttl)"
  have inv: "sm_inv ?m" by (simp add: proxy_run_inv sm_inv_new)
  obtain i s where s: "GetSession i ?m = Some s" "status s = kCompleted"
      "cuq_upload_id q = ticket_for i" "cur_etag resp = etag s"
    using CompleteUpload_Inr [OF inv assms] .
  have "justified calls ?m"
    using justified_run [OF justified_new, of "[]"] by simp
  then have "status s = kPending \<or> reported_in calls i s" using s(1) unfolding justified_def by blast
  then have "reported_in calls i s" using s(2) by simp
  then obtain before now rq after where r: "calls = before @ (now, CallReportGdsPut rq) # after"
      "opened_in before i s" "rgq_session_id rq = i" "etag s = rgq_etag rq"
    by (auto simp: reported_in_def)
  then obtain now' oq where "(now', CallOpenSession oq) \<in> set before" "open_valid oq"
      "osq_session_id oq = i \<or> osq_session_id oq = []"
    by (auto simp: opened_in_def)
  moreover have "m' = ?m" using CompleteUpload_table [of q ?m] assms by simp
  ultimately show ?thesis
    using r s(3,4)
    by (intro conjI exI [of _ before] exI [of _ now] exI [of _ rq] exI [of _ after]
        exI [of _ now'] exI [of _ oq]) auto
qed

theorem no_phantom_completion_witness:
  "\<exists>before now rq after now' oq.
     [(0 :: int, CallOpenSession (sample_open ''a'')), (1, CallReportGdsPut (sample_report ''a''))] =
       before @ (now, CallReportGdsPut rq) # after \<and>
     (now', CallOpenSession oq) \<in> set before \<and> open_valid oq \<and>
     (osq_session_id oq = rgq_session_id rq \<or> osq_session_id oq = []) \<and>
     ''tkt-a'' = ticket_for (rgq_session_id rq) \<and> ''e'' = rgq_etag rq"
proof -
  let ?calls = "[(0, CallOpenSession (sample_open ''a'')), (1, CallReportGdsPut (sample_report ''a''))]"
  let ?svc = "\<lparr>ps_gateway_id = ''g'', ps_backend_endpoint = ''h:1''\<rparr>"
  let ?q = "\<lparr>cuq_upload_id = ''tkt-a'', cuq_parts = [], cuq_data_flow = []\<rparr>"
  let ?m = "proxy_run ?svc ?calls (new_SessionManager 60)"
  have "proxy_CompleteUpload ?q ?m = (Inr (empty_CompleteUploadResponse\<lparr>cur_etag := ''e''\<rparr>), ?m)"
    by (simp add: proxy_run_def OpenSession_table open_valid_def sample_open_def sample_report_def
        empty_OpenSessionRequest_def kGdsDataPath_def kOpTypePut_def CreateSession_eq
        new_SessionManager_def ReportGdsPut_table CompleteSession_eq GetSession_def created_id_def
        proxy_CompleteUpload_def GetCompletedSession_def pending_session_def mark_completed_def
        ticket_for_def Let_def)
  from no_phantom_completion [OF this] show ?thesis
    by (simp add: empty_CompleteUploadResponse_def)
qed

text \<open>
  C29: every session in the table of a proxy that has served any calls is well-formed: the keys
  are distinct, each session is stored under its own identifier with the ticket made from it, it
  has a bucket, a key and a positive size, its expiry is a timestamp that denotes an instant, it
  has no tag, checksum or count before its report, and it never has the status for failures. The
  time to live is not negative, and the clock readings are those for which the expiry fits the
  64-bit count of nanoseconds of \<open>system_clock\<close>.
\<close>

theorem proxy_table_well_formed:
  assumes "list_all (\<lambda>(now, c). clock_fits ttl now) calls"
  shows "table_wf (proxy_run svc calls (new_SessionManager ttl))"
  using assms by (intro proxy_run_wf) (simp_all add: table_wf_new, simp add: new_SessionManager_def)

theorem proxy_table_well_formed_witness:
  "table_wf (proxy_run \<lparr>ps_gateway_id = ''g'', ps_backend_endpoint = ''h:1''\<rparr>
     [(1700000000000000000, CallOpenSession (sample_open ''a'')),
      (1700000001000000000, CallReportGdsPut (sample_report ''a''))] (new_SessionManager 3600))"
  by (rule proxy_table_well_formed) (simp add: clock_fits_def)

text \<open>
  C31: the expiry that \<open>OpenSession\<close> answers is a timestamp that denotes the second of the clock
  reading plus the configured time to live, on the calendar with its leap years.
\<close>

theorem expire_at_reads_back:
  assumes "proxy_OpenSession svc now rq m = (Inr resp, m')" and "clock_fits (ttl_sec m) now"
  shows "read_utc (osr_expire_at resp) = Some (now div 1000000000 + ttl_sec m)"
proof -
  obtain s where "CreateSession now (osq_session_id rq) (osq_bucket rq) (osq_object_key rq) (osq_expected_size rq) m = (s, m')"
    "osr_expire_at resp = expire_at s"
    using OpenSession_Inr [OF assms(1)] by (metis OpenSessionResponse.select_convs(6))
  then have "osr_expire_at resp = expire_at_for now (ttl_sec m)" by (auto simp: CreateSession_eq Let_def)
  then show ?thesis using expire_at_reads [OF assms(2)] by simp
qed

theorem expire_at_reads_back_witness:
  "read_utc (expire_at_for 1709164800123456789 3600) = Some 1709168400"
proof -
  let ?m = "new_SessionManager 3600"
  have "open_valid (sample_open ''a'')"
    by (simp add: open_valid_def sample_open_def empty_OpenSessionRequest_def kGdsDataPath_def kOpTypePut_def)
  then obtain resp m' where o: "proxy_OpenSession \<lparr>ps_gateway_id = ''g'', ps_backend_endpoint = ''h:1''\<rparr>
      1709164800123456789 (sample_open ''a'') ?m = (Inr resp, m')"
    "osr_expire_at resp = expire_at_for 1709164800123456789 (ttl_sec ?m)"
    using OpenSession_answer by blast
  have t: "ttl_sec ?m = 3600" by (simp add: new_SessionManager_def)
  have "clock_fits (ttl_sec ?m) 1709164800123456789" by (simp add: t clock_fits_def)
  from expire_at_reads_back [OF o(1) this] show ?thesis unfolding o(2) t by simp
qed

text \<open>
  C30: a completed session keeps its answer. Whatever calls the proxy serves afterwards and at
  whatever time, past the expiry as well, as long as none of them opens a session under the same
  identifier or reports one for it, \<open>CompleteUpload\<close> for its ticket answers the reported tag.
\<close>

theorem completed_answer_stays:
  assumes "proxy_CompleteUpload q (proxy_run svc calls (new_SessionManager ttl)) = (Inr resp, m)"
    and "cuq_upload_id q = ticket_for i" and "run_leaves_alone svc i later m"
  shows "proxy_CompleteUpload q (proxy_run svc later m) = (Inr resp, proxy_run svc later m)"
proof -
  let ?m = "proxy_run svc calls (new_SessionManager ttl)"
  have m: "m = ?m" using CompleteUpload_table [of q ?m] assms(1) by simp
  have inv: "sm_inv m" "sm_inv (proxy_run svc later m)" unfolding m by (simp_all add: proxy_run_inv sm_inv_new)
  from assms(1) m obtain s where s: "GetCompletedSession (ticket_for i) m = Some s"
    "resp = empty_CompleteUploadResponse\<lparr>cur_etag := etag s\<rparr>"
    by (auto simp: proxy_CompleteUpload_def assms(2) split: option.splits)
  then obtain j where j: "GetSession j m = Some s" "status s = kCompleted" "ticket s = ticket_for i"
    using GetCompletedSession_iff [OF inv(1)] by blast
  have "j = i" using sm_inv_lookup [OF inv(1) j(1)] j(3) by simp
  then have "GetSession i (proxy_run svc later m) = Some s" using proxy_run_leaves [OF assms(3)] j(1) by simp
  then have "GetCompletedSession (ticket_for i) (proxy_run svc later m) = Some s"
    using GetCompletedSession_iff [OF inv(2)] j(2,3) by blast
  then show ?thesis by (simp add: proxy_CompleteUpload_def assms(2) s(2))
qed

theorem completed_answer_stays_witness:
  "\<exists>m later resp. later = [(9999000000000000, CallOpenSession (sample_open ''b'')), (9999000000000001, CallReportGdsPut (sample_report ''b''))] \<and>
     cur_etag resp = ''e'' \<and> proxy_CompleteUpload \<lparr>cuq_upload_id = ''tkt-a'', cuq_parts = [], cuq_data_flow = []\<rparr>
       (proxy_run \<lparr>ps_gateway_id = ''g'', ps_backend_endpoint = ''h:1''\<rparr> later m) =
     (Inr resp, proxy_run \<lparr>ps_gateway_id = ''g'', ps_backend_endpoint = ''h:1''\<rparr> later m)"
proof -
  let ?calls = "[(0, CallOpenSession (sample_open ''a'')), (1, CallReportGdsPut (sample_report ''a''))]"
  let ?svc = "\<lparr>ps_gateway_id = ''g'', ps_backend_endpoint = ''h:1''\<rparr>"
  let ?q = "\<lparr>cuq_upload_id = ''tkt-a'', cuq_parts = [], cuq_data_flow = []\<rparr>"
  let ?m = "proxy_run ?svc ?calls (new_SessionManager 60)"
  let ?later = "[(9999000000000000, CallOpenSession (sample_open ''b'')), (9999000000000001, CallReportGdsPut (sample_report ''b''))]"
  have a: "proxy_CompleteUpload ?q ?m = (Inr (empty_CompleteUploadResponse\<lparr>cur_etag := ''e''\<rparr>), ?m)"
    by (simp add: proxy_run_def OpenSession_table open_valid_def sample_open_def sample_report_def
        empty_OpenSessionRequest_def kGdsDataPath_def kOpTypePut_def CreateSession_eq
        new_SessionManager_def ReportGdsPut_table CompleteSession_eq GetSession_def created_id_def
        proxy_CompleteUpload_def GetCompletedSession_def pending_session_def mark_completed_def
        ticket_for_def Let_def)
  have "run_leaves_alone ?svc ''a'' ?later ?m"
    by (simp add: leaves_alone_def created_id_def sample_open_def sample_report_def)
  from completed_answer_stays [OF a _ this] show ?thesis
    by (intro exI [of _ ?m] exI [of _ ?later] exI [of _ "empty_CompleteUploadResponse\<lparr>cur_etag := ''e''\<rparr>"])
       (simp add: ticket_for_def empty_CompleteUploadResponse_def)
qed

text \<open>
  C34: \<open>OpenSession\<close> on every branch. A request that is not a single-object GDS PUT with a
  bucket, a key and a positive size is refused with its error code and leaves the table as it
  was; any other is answered with its own request id, a ticket for the session, this proxy's
  gateway and backend, and the table then has a pending session for it.
\<close>

theorem open_session_outcome:
  "case proxy_OpenSession svc now rq m of
     (Inl e, m') \<Rightarrow> \<not> open_valid rq \<and> m' = m \<and> (\<exists>msg. e = SetFailedCode (open_error_code rq) msg)
   | (Inr resp, m') \<Rightarrow> open_valid rq \<and> osr_request_id resp = osq_request_id rq \<and>
       osr_session_id resp = created_id (osq_session_id rq) m \<and>
       osr_ticket resp = ticket_for (osr_session_id resp) \<and>
       osr_gateway_id resp = ps_gateway_id svc \<and> osr_data_endpoint resp = ps_backend_endpoint svc \<and>
       osr_expire_at resp = expire_at_for now (ttl_sec m) \<and>
       GetSession (osr_session_id resp) m' = Some (pending_session (osr_session_id resp)
         (osr_expire_at resp) (osq_bucket rq) (osq_object_key rq) (osq_expected_size rq))"
proof (cases "open_valid rq")
  case True
  then show ?thesis
    by (simp add: OpenSession_valid CreateSession_eq Let_def GetSession_def update_conv')
next
  case False
  then show ?thesis using OpenSession_invalid [OF False, of svc now m] by auto
qed

section \<open>The session table\<close>

text \<open>
  C32: in any table the operations can reach, a new session has no completed answer for its
  ticket until it is reported, the report is accepted, and from then on the ticket answers the
  session with exactly the reported data.
\<close>

theorem session_lifecycle:
  "let m = sm_run ops (new_SessionManager ttl);
       (s, m1) = CreateSession now hint b k n m;
       (ok, m2) = CompleteSession (session_id s) tag crc bytes m1
   in GetCompletedSession (ticket s) m1 = None \<and> ok \<and>
      GetCompletedSession (ticket s) m2 = Some (mark_completed tag crc bytes s)"
proof -
  let ?m = "sm_run ops (new_SessionManager ttl)"
  have inv: "sm_inv ?m" by (simp add: sm_run_inv sm_inv_new)
  obtain s m1 where c: "CreateSession now hint b k n ?m = (s, m1)" by force
  obtain ok m2 where r: "CompleteSession (session_id s) tag crc bytes m1 = (ok, m2)" by force
  show ?thesis
    using session_mgr.created_not_completed [OF inv c] session_mgr.open_report_query [OF inv c r] c r
    by simp
qed

text \<open>
  The answer for a ticket does not depend on the order in which the hash map is walked.
\<close>

theorem completed_query_order:
  assumes "mset al = mset (sessions_tab (sm_run ops (new_SessionManager ttl)))"
  shows "GetCompletedSession t ((sm_run ops (new_SessionManager ttl))\<lparr>sessions_tab := al\<rparr>) =
     GetCompletedSession t (sm_run ops (new_SessionManager ttl))"
  using assms by (intro GetCompletedSession_order) (simp_all add: sm_run_inv sm_inv_new)

theorem completed_query_order_witness:
  "let m = sm_run [OpCreate 0 ''a'' ''b'' ''k'' 5, OpCreate 0 ''c'' ''b'' ''l'' 6,
        OpComplete ''a'' ''e'' 7 5] (new_SessionManager 60)
   in GetCompletedSession ''tkt-a'' (m\<lparr>sessions_tab := rev (sessions_tab m)\<rparr>) =
      GetCompletedSession ''tkt-a'' m"
  unfolding Let_def by (rule completed_query_order) simp

text \<open>
  C33: as long as no client names its session with the reserved prefix and fewer than
  \<open>2 ^ 64\<close> identifiers were generated, a generated identifier is not in the table yet.
\<close>

theorem generated_ids_fresh:
  assumes "list_all op_hint_ok ops" and "length (filter op_generates ops) < 2 ^ 64"
  shows "GetSession (created_id [] (sm_run ops (new_SessionManager ttl)))
     (sm_run ops (new_SessionManager ttl)) = None"
  using generated_fresh [OF sm_run_generated [OF generated_below_new assms(1)]] assms(2) by simp

theorem generated_ids_fresh_witness:
  "GetSession (created_id [] (sm_run [OpCreate 0 [] ''b'' ''k'' 5, OpCreate 0 ''c'' ''b'' ''l'' 6]
       (new_SessionManager 60)))
     (sm_run [OpCreate 0 [] ''b'' ''k'' 5, OpCreate 0 ''c'' ''b'' ''l'' 6] (new_SessionManager 60)) = None"
  by (rule generated_ids_fresh) (simp_all add: kSessionIdPrefix_def)

text \<open>
  A report for one session leaves the answer for every other session's ticket as it was.
\<close>

theorem report_frame:
  assumes "GetSession i (sm_run ops (new_SessionManager ttl)) = Some s" and "i \<noteq> sid"
  shows "GetCompletedSession (ticket s)
       (snd (CompleteSession sid tag crc bytes (sm_run ops (new_SessionManager ttl)))) =
     GetCompletedSession (ticket s) (sm_run ops (new_SessionManager ttl))"
proof -
  have "sm_inv (sm_run ops (new_SessionManager ttl))" by (simp add: sm_run_inv sm_inv_new)
  from session_mgr.complete_frame [OF this _ assms] show ?thesis by (metis prod.collapse)
qed

theorem report_frame_witness:
  "GetCompletedSession (ticket_for ''a'') (snd (CompleteSession ''z'' ''e'' 7 5
       (sm_run [OpCreate 0 ''a'' ''b'' ''k'' 5] (new_SessionManager 60)))) =
     GetCompletedSession (ticket_for ''a'') (sm_run [OpCreate 0 ''a'' ''b'' ''k'' 5] (new_SessionManager 60))"
proof -
  have "GetSession ''a'' (sm_run [OpCreate 0 ''a'' ''b'' ''k'' 5] (new_SessionManager 60)) =
      Some (pending_session ''a'' (expire_at_for 0 60) ''b'' ''k'' 5)"
    by (simp add: sm_run_def CreateSession_eq GetSession_def created_id_def new_SessionManager_def Let_def)
  from report_frame [OF this, of "''z''" "''e''" 7 5] show ?thesis by simp
qed

text \<open>
  A client that opens a session under the identifier of an existing one takes its place:
  whatever the old session was, even completed, its ticket has no answer afterwards and the new
  pending session carries the new request's data.
\<close>

theorem reopened_session_starts_over:
  "hint \<noteq> [] \<Longrightarrow>
   (let m' = snd (CreateSession now hint b k n (sm_run ops (new_SessionManager ttl)))
    in GetCompletedSession (ticket_for hint) m' = None \<and>
       GetSession hint m' = Some (pending_session hint (expire_at_for now
         (ttl_sec (sm_run ops (new_SessionManager ttl)))) b k n))"
proof -
  let ?m = "sm_run ops (new_SessionManager ttl)"
  assume h: "hint \<noteq> []"
  have inv: "sm_inv ?m" by (simp add: sm_run_inv sm_inv_new)
  obtain s m1 where c: "CreateSession now hint b k n ?m = (s, m1)" by force
  then have s: "s = pending_session hint (expire_at_for now (ttl_sec ?m)) b k n"
    using h by (simp add: CreateSession_eq created_id_def Let_def)
  then show ?thesis
    using session_mgr.created_not_completed [OF inv c] CreateSession_lookup [OF c, of hint] c by simp
qed

theorem reopened_session_starts_over_witness:
  "GetCompletedSession (ticket_for ''a'') (snd (CreateSession 9 ''a'' ''b2'' ''k2'' 6
     (sm_run [OpCreate 0 ''a'' ''b'' ''k'' 5, OpComplete ''a'' ''e'' 7 5] (new_SessionManager 60)))) = None"
  using reopened_session_starts_over [of "''a''" 9 "''b2''" "''k2''" 6
    "[OpCreate 0 ''a'' ''b'' ''k'' 5, OpComplete ''a'' ''e'' 7 5]" 60] by (simp add: Let_def)

section \<open>Error codes\<close>

text \<open>
  Different error codes have different names, and exactly the values outside the
  enumeration are named unknown.
\<close>

theorem error_names_distinct:
  "(ToString (code_value a) = ToString (code_value b) \<longleftrightarrow> a = b) \<and>
   (ToString n = ''unknown'' \<longleftrightarrow> n \<notin> {0..20})"
proof -
  have dist: "distinct (map code_name all_codes)" "''unknown'' \<notin> set (map code_name all_codes)"
    using code_names_distinct by auto
  have inj: "code_name c = code_name d \<longleftrightarrow> c = d" for c d
    using dist(1) all_codes_complete [of c] all_codes_complete [of d]
    by (auto simp: distinct_map inj_on_def)
  have known: "code_name c \<noteq> ''unknown''" for c
    using dist(2) all_codes_complete [of c] by (metis image_eqI image_set)
  have "ToString n \<noteq> ''unknown''" if "n \<in> {0..20}"
  proof -
    have "n \<in> set (map code_value all_codes)" using that all_codes_values by simp
    then obtain c where "n = code_value c" by auto
    then show ?thesis using ToString_code known by simp
  qed
  then show ?thesis using inj ToString_code ToString_unknown by auto
qed

end
