(* ===== verification/Cuobj_Server.thy ===== *)
theory Cuobj_Server
  imports Prelude "HOL-Library.Multiset"
begin

text \<open>
  The server-side library the backend drives (\<open>cuObjServer\<close> of \<open>cuobjserver.h\<close>, \<open>std::free\<close>
  and \<open>ibv_wc_status_str\<close>) is not part of the repository: it is a parameter, a record of
  functions over a state of its own. Every call the code makes goes through a wrapper that
  also records the call with its answer, so that the calls of an operation can be stated and
  the resources it holds can be counted: \<open>ledger\<close> replays a call sequence and gives the host
  buffers, memory registrations and channels in use, or \<open>None\<close> when something was released
  that was not in use or the server was destroyed before its registrations.
\<close>

section \<open>The library as a parameter\<close>

type_synonym addr = u64 \<comment> \<open>a pointer; 0 is \<open>nullptr\<close>\<close>

record 's cuobj_api =
  api_create :: "string \<Rightarrow> u16 \<Rightarrow> 's \<Rightarrow> 's"
  api_destroy :: "'s \<Rightarrow> 's"
  api_connected :: "'s \<Rightarrow> bool"
  api_alloc :: "u64 \<Rightarrow> 's \<Rightarrow> addr \<times> 's"
  api_register :: "addr \<Rightarrow> u64 \<Rightarrow> 's \<Rightarrow> addr \<times> 's"
  api_deregister :: "addr \<Rightarrow> 's \<Rightarrow> 's"
  api_free :: "addr \<Rightarrow> 's \<Rightarrow> 's"
  api_invalid_channel :: u16
  api_alloc_channel :: "'s \<Rightarrow> u16 \<times> 's"
  api_free_channel :: "u16 \<Rightarrow> 's \<Rightarrow> 's"
  api_handle_put :: "string \<Rightarrow> addr \<Rightarrow> u64 \<Rightarrow> u64 \<Rightarrow> string \<Rightarrow> u16 \<Rightarrow> 's \<Rightarrow> (int \<times> int) \<times> 's"
  api_bytes :: "addr \<Rightarrow> nat \<Rightarrow> 's \<Rightarrow> u8 list"
  api_status_str :: "int \<Rightarrow> string option"

section \<open>Recorded calls\<close>

datatype server_call =
    CreateServer string u16
  | DestroyServer
  | AllocHost u64 addr
  | RegisterMr addr u64 addr
  | DeregisterMr addr
  | FreeHost addr
  | AllocChannel "u16 option"
  | FreeChannel u16
  | HandlePut string addr u64 u64 string u16 int

record 's server =
  srv_state :: 's
  srv_calls :: "server_call list"

definition logged :: "server_call \<Rightarrow> 's \<Rightarrow> 's server \<Rightarrow> 's server" where
  "logged c s w = w\<lparr>srv_state := s, srv_calls := srv_calls w @ [c]\<rparr>"

definition srv_create :: "'s cuobj_api \<Rightarrow> string \<Rightarrow> u16 \<Rightarrow> 's server \<Rightarrow> 's server" where
  "srv_create api host port w = logged (CreateServer host port) (api_create api host port (srv_state w)) w"

definition srv_destroy :: "'s cuobj_api \<Rightarrow> 's server \<Rightarrow> 's server" where
  "srv_destroy api w = logged DestroyServer (api_destroy api (srv_state w)) w"

definition srv_connected :: "'s cuobj_api \<Rightarrow> 's server \<Rightarrow> bool" where
  "srv_connected api w = api_connected api (srv_state w)"

definition srv_alloc :: "'s cuobj_api \<Rightarrow> u64 \<Rightarrow> 's server \<Rightarrow> addr \<times> 's server" where
  "srv_alloc api n w =
     (let (p, s) = api_alloc api n (srv_state w) in (p, logged (AllocHost n p) s w))"

definition srv_register :: "'s cuobj_api \<Rightarrow> addr \<Rightarrow> u64 \<Rightarrow> 's server \<Rightarrow> addr \<times> 's server" where
  "srv_register api p n w =
     (let (r, s) = api_register api p n (srv_state w) in (r, logged (RegisterMr p n r) s w))"

definition srv_deregister :: "'s cuobj_api \<Rightarrow> addr \<Rightarrow> 's server \<Rightarrow> 's server" where
  "srv_deregister api r w = logged (DeregisterMr r) (api_deregister api r (srv_state w)) w"

definition srv_free :: "'s cuobj_api \<Rightarrow> addr \<Rightarrow> 's server \<Rightarrow> 's server" where
  "srv_free api p w = logged (FreeHost p) (api_free api p (srv_state w)) w"

definition srv_alloc_channel :: "'s cuobj_api \<Rightarrow> 's server \<Rightarrow> u16 \<times> 's server" where
  "srv_alloc_channel api w =
     (let (c, s) = api_alloc_channel api (srv_state w)
      in (c, logged (AllocChannel (if c = api_invalid_channel api then None else Some c)) s w))"

definition srv_free_channel :: "'s cuobj_api \<Rightarrow> u16 \<Rightarrow> 's server \<Rightarrow> 's server" where
  "srv_free_channel api c w = logged (FreeChannel c) (api_free_channel api c (srv_state w)) w"

definition srv_handle_put ::
  "'s cuobj_api \<Rightarrow> string \<Rightarrow> addr \<Rightarrow> u64 \<Rightarrow> u64 \<Rightarrow> string \<Rightarrow> u16 \<Rightarrow> 's server \<Rightarrow>
   (int \<times> int) \<times> 's server" where
  "srv_handle_put api obj r start len tok c w =
     (let ((n, st), s) = api_handle_put api obj r start len tok c (srv_state w)
      in ((n, st), logged (HandlePut obj r start len tok c n) s w))"

section \<open>The ledger\<close>

record ledger =
  hosts :: "addr multiset"
  mrs :: "addr multiset"
  chans :: "u16 multiset"

definition empty_ledger :: ledger where
  "empty_ledger = \<lparr>hosts = {#}, mrs = {#}, chans = {#}\<rparr>"

text \<open>
  Destroying the server while one of its registrations or channels is in use counts as a
  fault, as does releasing what is not in use.
\<close>

fun ledger_step :: "server_call \<Rightarrow> ledger \<Rightarrow> ledger option" where
  "ledger_step (CreateServer host port) l = Some l"
| "ledger_step DestroyServer l = (if mrs l = {#} \<and> chans l = {#} then Some l else None)"
| "ledger_step (AllocHost n p) l = Some (if p = 0 then l else l\<lparr>hosts := add_mset p (hosts l)\<rparr>)"
| "ledger_step (RegisterMr p n r) l = Some (if r = 0 then l else l\<lparr>mrs := add_mset r (mrs l)\<rparr>)"
| "ledger_step (DeregisterMr r) l =
     (if r \<in># mrs l then Some (l\<lparr>mrs := mrs l - {#r#}\<rparr>) else None)"
| "ledger_step (FreeHost p) l =
     (if p \<in># hosts l then Some (l\<lparr>hosts := hosts l - {#p#}\<rparr>) else None)"
| "ledger_step (AllocChannel None) l = Some l"
| "ledger_step (AllocChannel (Some c)) l = Some (l\<lparr>chans := add_mset c (chans l)\<rparr>)"
| "ledger_step (FreeChannel c) l =
     (if c \<in># chans l then Some (l\<lparr>chans := chans l - {#c#}\<rparr>) else None)"
| "ledger_step (HandlePut obj r start len tok c n) l = Some l"

definition ledger_of :: "server_call list \<Rightarrow> ledger option" where
  "ledger_of cs = fold (\<lambda>c l. Option.bind l (ledger_step c)) cs (Some empty_ledger)"

lemma ledger_of_Nil [pool_simps]: "ledger_of [] = Some empty_ledger"
  by (simp add: ledger_of_def)

lemma ledger_of_append [pool_simps]:
  "ledger_of (cs @ ds) = fold (\<lambda>c l. Option.bind l (ledger_step c)) ds (ledger_of cs)"
  by (simp add: ledger_of_def)

lemma logged_simps [pool_simps]:
  "srv_state (logged c s w) = s" "srv_calls (logged c s w) = srv_calls w @ [c]"
  by (simp_all add: logged_def)

end
