(* ===== verification/Pool_Interface.thy ===== *)
theory Pool_Interface
  imports Prelude "HOL-Library.Multiset"
begin

text \<open>
  What the data sink relies on in the buffer pool, as a locale over any pool state \<open>'st\<close> and
  lease type \<open>'l\<close>. \<open>holds ls st\<close> says that the state is consistent with exactly the leases
  \<open>ls\<close> being out. The second locale adds the pool's shutdown.
\<close>

locale lease_pool =
  fixes acquire :: "u64 \<Rightarrow> 'st \<Rightarrow> 'l \<times> 'st"
    and give_back :: "'l \<Rightarrow> 'st \<Rightarrow> 'l \<times> 'st"
    and usable :: "'l \<Rightarrow> bool"
    and capacity :: "'l \<Rightarrow> u64"
    and holds :: "'l list \<Rightarrow> 'st \<Rightarrow> bool"
  assumes acquire_holds: "holds ls st \<Longrightarrow> acquire n st = (l, st') \<Longrightarrow>
      holds (if usable l then l # ls else ls) st'"
    and acquire_size: "holds ls st \<Longrightarrow> acquire n st = (l, st') \<Longrightarrow> usable l \<Longrightarrow> n \<le> capacity l"
    and give_back_holds: "holds (l # ls) st \<Longrightarrow> give_back l st = (l', st') \<Longrightarrow>
      holds ls st' \<and> \<not> usable l'"
    and give_back_empty: "holds ls st \<Longrightarrow> acquire n st = (l, st') \<Longrightarrow> \<not> usable l \<Longrightarrow>
      give_back l st'' = (l, st'')"
    and holds_mset: "holds ls st \<Longrightarrow> mset ls' = mset ls \<Longrightarrow> holds ls' st"
begin

text \<open>A lease used in a scope and given back at its end leaves the other leases as they were.\<close>

lemma scoped_lease:
  assumes "holds ls st" and "acquire n st = (l, st1)"
    and "\<And>ks. holds ks st1 \<Longrightarrow> holds ks st2"
  shows "holds ls (snd (give_back l st2))"
proof (cases "usable l")
  case True
  then have "holds (l # ls) st2" using acquire_holds [OF assms(1,2)] assms(3) by simp
  then show ?thesis using give_back_holds by (metis prod.collapse)
next
  case False
  then have "holds ls st2" using acquire_holds [OF assms(1,2)] assms(3) by simp
  with False show ?thesis using give_back_empty [OF assms(1,2)] by simp
qed

lemma give_back_all: "holds (ls @ ks) st \<Longrightarrow> holds ks (fold (\<lambda>l st. snd (give_back l st)) ls st)"
proof (induction ls arbitrary: st)
  case (Cons l ls)
  then have "holds (ls @ ks) (snd (give_back l st))"
    using give_back_holds [of l "ls @ ks" st] by (metis append_Cons prod.collapse)
  then show ?case using Cons.IH by simp
qed simp

end

locale stoppable_pool = lease_pool +
  fixes shutdown :: "'st \<Rightarrow> 'st"
    and stopped :: "'st \<Rightarrow> bool"
    and idle :: "'st \<Rightarrow> bool"
  assumes shutdown_holds: "holds ls st \<Longrightarrow> holds ls (shutdown st)"
    and shutdown_stops: "stopped (shutdown st)"
    and give_back_stopped: "stopped st \<Longrightarrow> stopped (snd (give_back l st))"
    and stopped_idle: "holds [] st \<Longrightarrow> stopped st \<Longrightarrow> idle st"
begin

text \<open>After a shutdown and the return of every lease, nothing is in use.\<close>

lemma drained:
  assumes "holds ls st"
  shows "idle (fold (\<lambda>l st. snd (give_back l st)) ls (shutdown st))"
proof -
  have "stopped (fold (\<lambda>l st. snd (give_back l st)) ls st)" if "stopped st" for st
    using that by (induction ls arbitrary: st) (simp_all add: give_back_stopped)
  moreover have "holds [] (fold (\<lambda>l st. snd (give_back l st)) ls (shutdown st))"
    using give_back_all [of ls "[]"] shutdown_holds [OF assms] by simp
  ultimately show ?thesis using stopped_idle shutdown_stops by blast
qed

end

end
