(* ===== verification/Buffer_Pool.thy ===== *)
theory Buffer_Pool
  imports Cuobj_Server Pool_Interface
begin

text \<open>
  The pool of pinned and registered host buffers of the backend
  (\<open>backend/src/gds/buffer_pool.{h,cpp}\<close>): the pool with its size classes and per-class free
  lists, the lease and its moves, and every operation with the calls it makes to the server
  library. The lemmas show the shape of the pool, the size and kind of buffer a lease holds,
  and that buffers and registrations are neither lost nor released twice.
\<close>

section \<open>State\<close>

record CachedBuffer =
  cb_data :: addr
  cb_capacity :: u64
  cb_mr :: addr

text \<open>
  The free list of a bucket is a vector: \<open>push_back\<close> appends, \<open>back\<close> is the last element.
  The three counters are \<open>bvar::Adder\<close>s.
\<close>

record PinnedBufferPool =
  size_classes :: "u64 list"
  max_per_class :: nat
  buckets :: "CachedBuffer list list"
  shut :: bool
  hit_total :: int
  miss_total :: int
  oversize_total :: int

record PinnedBufferLease =
  le_pool :: bool \<comment> \<open>\<open>pool_\<close> is not null\<close>
  le_data :: addr
  le_capacity :: u64
  le_mr :: addr
  le_size_class :: nat

definition null_lease :: PinnedBufferLease where
  "null_lease = \<lparr>le_pool = False, le_data = 0, le_capacity = 0, le_mr = 0, le_size_class = 0\<rparr>"

definition lease_ok :: "PinnedBufferLease \<Rightarrow> bool" where
  "lease_ok l \<longleftrightarrow> le_data l \<noteq> 0 \<and> le_mr l \<noteq> 0"

section \<open>Operations\<close>

definition new_pool :: "u64 list \<Rightarrow> nat \<Rightarrow> PinnedBufferPool" where
  "new_pool classes mx =
     \<lparr>size_classes = sort classes, max_per_class = mx,
      buckets = replicate (length (sort classes)) [], shut = False,
      hit_total = 0, miss_total = 0, oversize_total = 0\<rparr>"

text \<open>\<open>PickClass\<close>: the index of the first class that is large enough, or the number of classes.\<close>

fun pick_class :: "u64 list \<Rightarrow> u64 \<Rightarrow> nat" where
  "pick_class [] n = 0"
| "pick_class (c # cs) n = (if n \<le> c then 0 else Suc (pick_class cs n))"

definition PickClass :: "PinnedBufferPool \<Rightarrow> u64 \<Rightarrow> nat" where
  "PickClass p n = pick_class (size_classes p) n"

text \<open>\<open>Acquire\<close>, with its three paths: oversize, reuse from the free list, and a fresh buffer.\<close>

definition Acquire ::
  "'s cuobj_api \<Rightarrow> u64 \<Rightarrow> PinnedBufferPool \<times> 's server \<Rightarrow>
   PinnedBufferLease \<times> PinnedBufferPool \<times> 's server" where
  "Acquire api n st =
     (let (p, w) = st in
      if n = 0 then (null_lease, p, w)
      else
        let idx = PickClass p n in
        if idx = length (size_classes p) then
          let p1 = p\<lparr>oversize_total := oversize_total p + 1\<rparr>;
              (data, w1) = srv_alloc api n w
          in if data = 0 then (null_lease, p1, w1)
             else let (mr, w2) = srv_register api data n w1
                  in if mr = 0 then (null_lease, p1, srv_free api data w2)
                     else (\<lparr>le_pool = True, le_data = data, le_capacity = n, le_mr = mr,
                            le_size_class = length (size_classes p)\<rparr>, p1, w2)
        else
          let capacity = size_classes p ! idx;
              free_list = buckets p ! idx
          in if \<not> shut p \<and> free_list \<noteq> [] then
               let reuse = last free_list
               in (\<lparr>le_pool = True, le_data = cb_data reuse, le_capacity = cb_capacity reuse,
                    le_mr = cb_mr reuse, le_size_class = idx\<rparr>,
                   p\<lparr>buckets := (buckets p)[idx := butlast free_list],
                      hit_total := hit_total p + 1\<rparr>, w)
             else
               let p1 = p\<lparr>miss_total := miss_total p + 1\<rparr>;
                   (data, w1) = srv_alloc api capacity w
               in if data = 0 then (null_lease, p1, w1)
                  else let (mr, w2) = srv_register api data capacity w1
                       in if mr = 0 then (null_lease, p1, srv_free api data w2)
                          else (\<lparr>le_pool = True, le_data = data, le_capacity = capacity,
                                 le_mr = mr, le_size_class = idx\<rparr>, p1, w2))"

definition Dispose :: "'s cuobj_api \<Rightarrow> CachedBuffer \<Rightarrow> 's server \<Rightarrow> 's server" where
  "Dispose api c w =
     (let w1 = (if cb_mr c \<noteq> 0 then srv_deregister api (cb_mr c) w else w)
      in if cb_data c \<noteq> 0 then srv_free api (cb_data c) w1 else w1)"

definition Pool_Release ::
  "'s cuobj_api \<Rightarrow> addr \<Rightarrow> u64 \<Rightarrow> addr \<Rightarrow> nat \<Rightarrow> PinnedBufferPool \<times> 's server \<Rightarrow>
   PinnedBufferPool \<times> 's server" where
  "Pool_Release api data capacity mr cls st =
     (let (p, w) = st in
      if data = 0 then (p, w)
      else
        let record = \<lparr>cb_data = data, cb_capacity = capacity, cb_mr = mr\<rparr>
        in if shut p \<or> length (size_classes p) \<le> cls then (p, Dispose api record w)
           else if max_per_class p \<le> length (buckets p ! cls)
           then (p, Dispose api record w)
           else (p\<lparr>buckets := (buckets p)[cls := buckets p ! cls @ [record]]\<rparr>, w))"

text \<open>\<open>PinnedBufferLease::Release\<close>, which the destructor runs; the lease is empty afterwards.\<close>

definition Lease_Release ::
  "'s cuobj_api \<Rightarrow> PinnedBufferLease \<Rightarrow> PinnedBufferPool \<times> 's server \<Rightarrow>
   PinnedBufferLease \<times> PinnedBufferPool \<times> 's server" where
  "Lease_Release api l st =
     (if le_data l = 0 then (l, st)
      else (null_lease,
            if le_pool l
            then Pool_Release api (le_data l) (le_capacity l) (le_mr l) (le_size_class l) st
            else (fst st, srv_free api (le_data l) (snd st))))"

text \<open>The move constructor: the new lease and the emptied source.\<close>

definition Lease_Move :: "PinnedBufferLease \<Rightarrow> PinnedBufferLease \<times> PinnedBufferLease" where
  "Lease_Move other = (other, null_lease)"

text \<open>
  Move assignment: nothing happens on self-assignment; otherwise the target gives its buffer
  back and takes over the source, which is left empty.
\<close>

definition Lease_Assign ::
  "'s cuobj_api \<Rightarrow> bool \<Rightarrow> PinnedBufferLease \<Rightarrow> PinnedBufferLease \<Rightarrow>
   PinnedBufferPool \<times> 's server \<Rightarrow>
   (PinnedBufferLease \<times> PinnedBufferLease) \<times> PinnedBufferPool \<times> 's server" where
  "Lease_Assign api same target other st =
     (if same then ((target, other), st)
      else let (t, st') = Lease_Release api target st in ((other, null_lease), st'))"

text \<open>
  \<open>Shutdown\<close>: the first call empties every bucket, in order, and disposes of the buffers;
  later calls return at once.
\<close>

definition Shutdown ::
  "'s cuobj_api \<Rightarrow> PinnedBufferPool \<times> 's server \<Rightarrow> PinnedBufferPool \<times> 's server" where
  "Shutdown api st =
     (let (p, w) = st in
      if shut p then (p, w)
      else (p\<lparr>shut := True, buckets := map (\<lambda>_. []) (buckets p)\<rparr>,
            fold (Dispose api) (concat (buckets p)) w))"

section \<open>Well-formedness\<close>

definition entry_wf :: "u64 \<Rightarrow> CachedBuffer \<Rightarrow> bool" where
  "entry_wf cap c \<longleftrightarrow> cb_data c \<noteq> 0 \<and> cb_mr c \<noteq> 0 \<and> cb_capacity c = cap"

definition pool_wf :: "PinnedBufferPool \<Rightarrow> bool" where
  "pool_wf p \<longleftrightarrow> sorted (size_classes p) \<and> length (buckets p) = length (size_classes p) \<and>
     (\<forall>i < length (buckets p). length (buckets p ! i) \<le> max_per_class p \<and>
        list_all (entry_wf (size_classes p ! i)) (buckets p ! i)) \<and>
     (shut p \<longrightarrow> concat (buckets p) = [])"

text \<open>A lease in use: attached to the pool, with the capacity of its class (or oversize).\<close>

definition lease_wf :: "PinnedBufferPool \<Rightarrow> PinnedBufferLease \<Rightarrow> bool" where
  "lease_wf p l \<longleftrightarrow> lease_ok l \<and> le_pool l \<and> le_size_class l \<le> length (size_classes p) \<and>
     (le_size_class l < length (size_classes p) \<longrightarrow> le_capacity l = size_classes p ! le_size_class l)"

text \<open>
  The pool and the ledger agree: with leases \<open>ls\<close> and channels \<open>ch\<close> out, the buffers and
  registrations in use are exactly those cached in the buckets and those leased.
\<close>

definition cached :: "PinnedBufferPool \<Rightarrow> CachedBuffer multiset" where
  "cached p = mset (concat (buckets p))"

definition accounts :: "u16 multiset \<Rightarrow> PinnedBufferLease list \<Rightarrow> PinnedBufferPool \<Rightarrow> ledger" where
  "accounts ch ls p =
     \<lparr>hosts = image_mset cb_data (cached p) + image_mset le_data (mset ls),
      mrs = image_mset cb_mr (cached p) + image_mset le_mr (mset ls), chans = ch\<rparr>"

definition pool_holds ::
  "u16 multiset \<Rightarrow> PinnedBufferLease list \<Rightarrow> PinnedBufferPool \<times> 's server \<Rightarrow> bool" where
  "pool_holds ch ls st \<longleftrightarrow> pool_wf (fst st) \<and> list_all (lease_wf (fst st)) ls \<and>
     ledger_of (srv_calls (snd st)) = Some (accounts ch ls (fst st))"

lemma lease_ok_null [simp]: "\<not> lease_ok null_lease" "le_data null_lease = 0"
  by (simp_all add: lease_ok_def null_lease_def)

lemma pick_class_le: "pick_class cs n \<le> length cs"
  by (induction cs) auto

lemma pick_class_fits: "pick_class cs n < length cs \<Longrightarrow> n \<le> cs ! pick_class cs n"
  by (induction cs) auto

lemma pick_class_first: "i < pick_class cs n \<Longrightarrow> cs ! i < n"
  by (induction cs arbitrary: i) (auto split: if_splits simp: nth_Cons split: nat.splits)

lemma mset_concat_update:
  "i < length bs \<Longrightarrow> mset (concat (bs[i := x])) + mset (bs ! i) = mset (concat bs) + mset x"
proof (induction bs arbitrary: i)
  case (Cons b bs)
  then show ?case by (cases i) (auto simp: ac_simps)
qed simp

lemma mset_concat_pop:
  assumes "i < length bs" and "bs ! i \<noteq> []"
  shows "mset (concat bs) = add_mset (last (bs ! i)) (mset (concat (bs[i := butlast (bs ! i)])))"
proof -
  have "mset (bs ! i) = add_mset (last (bs ! i)) (mset (butlast (bs ! i)))"
    using assms(2) by (metis append_butlast_last_id mset_append mset_single_iff_right
        union_mset_add_mset_right mset.simps(1) mset.simps(2) add.right_neutral)
  then show ?thesis
    using mset_concat_update [OF assms(1), of "butlast (bs ! i)"] by simp
qed

lemma mset_concat_push:
  assumes "i < length bs"
  shows "mset (concat (bs[i := bs ! i @ [c]])) = add_mset c (mset (concat bs))"
  using mset_concat_update [OF assms, of "bs ! i @ [c]"] by simp

section \<open>Fresh buffers\<close>

text \<open>The alloc-and-register sequence that two paths of \<open>Acquire\<close> share.\<close>

definition get_fresh ::
  "'s cuobj_api \<Rightarrow> u64 \<Rightarrow> 's server \<Rightarrow> (addr \<times> addr) option \<times> 's server" where
  "get_fresh api cap w =
     (let (data, w1) = srv_alloc api cap w
      in if data = 0 then (None, w1)
         else let (mr, w2) = srv_register api data cap w1
              in if mr = 0 then (None, srv_free api data w2) else (Some (data, mr), w2))"

definition lease_of :: "u64 \<Rightarrow> nat \<Rightarrow> addr \<times> addr \<Rightarrow> PinnedBufferLease" where
  "lease_of cap cls b = \<lparr>le_pool = True, le_data = fst b, le_capacity = cap, le_mr = snd b,
     le_size_class = cls\<rparr>"

definition lease_fresh :: "u64 \<Rightarrow> nat \<Rightarrow> (addr \<times> addr) option \<Rightarrow> PinnedBufferLease" where
  "lease_fresh cap cls r = (case r of None \<Rightarrow> null_lease | Some b \<Rightarrow> lease_of cap cls b)"

lemma Acquire_eq:
  "Acquire api n (p, w) =
     (if n = 0 then (null_lease, p, w)
      else let idx = PickClass p n in
        if idx = length (size_classes p) then
          (let (r, w') = get_fresh api n w
           in (lease_fresh n idx r, p\<lparr>oversize_total := oversize_total p + 1\<rparr>, w'))
        else if \<not> shut p \<and> buckets p ! idx \<noteq> [] then
          (let c = last (buckets p ! idx)
           in (lease_of (cb_capacity c) idx (cb_data c, cb_mr c),
               p\<lparr>buckets := (buckets p)[idx := butlast (buckets p ! idx)],
                  hit_total := hit_total p + 1\<rparr>, w))
        else
          (let (r, w') = get_fresh api (size_classes p ! idx) w
           in (lease_fresh (size_classes p ! idx) idx r, p\<lparr>miss_total := miss_total p + 1\<rparr>, w')))"
  by (simp add: Acquire_def get_fresh_def Let_def lease_fresh_def lease_of_def split: prod.splits)

lemma get_fresh_ledger:
  assumes "get_fresh api cap w = (r, w')" and "ledger_of (srv_calls w) = Some l"
  shows "ledger_of (srv_calls w') = Some (case r of None \<Rightarrow> l
      | Some (d, m) \<Rightarrow> l\<lparr>hosts := add_mset d (hosts l), mrs := add_mset m (mrs l)\<rparr>)"
    and "r = Some (d, m) \<Longrightarrow> d \<noteq> 0 \<and> m \<noteq> 0"
  using assms
  by (auto simp: get_fresh_def srv_alloc_def srv_register_def srv_free_def Let_def pool_simps
      split: prod.splits if_splits)

section \<open>Preservation\<close>

lemma PickClass_le: "PickClass p n \<le> length (size_classes p)"
  by (simp add: PickClass_def pick_class_le)

lemma lease_wf_of:
  "cls \<le> length (size_classes p) \<Longrightarrow> (cls < length (size_classes p) \<Longrightarrow> cap = size_classes p ! cls) \<Longrightarrow>
   fst b \<noteq> 0 \<Longrightarrow> snd b \<noteq> 0 \<Longrightarrow> lease_wf p (lease_of cap cls b)"
  by (simp add: lease_wf_def lease_of_def lease_ok_def)

lemma lease_wf_cong: "size_classes q = size_classes p \<Longrightarrow> lease_wf q = lease_wf p"
  by (rule ext) (simp add: lease_wf_def)

lemma lease_wf_counters [simp]:
  "lease_wf (p\<lparr>oversize_total := a\<rparr>) = lease_wf p" "lease_wf (p\<lparr>miss_total := b\<rparr>) = lease_wf p"
  "lease_wf (p\<lparr>buckets := d, hit_total := c\<rparr>) = lease_wf p" "lease_wf (p\<lparr>buckets := d\<rparr>) = lease_wf p"
  "lease_wf (p\<lparr>shut := e\<rparr>) = lease_wf p"
  by (rule lease_wf_cong, simp)+

lemma pool_wf_counters [simp]:
  "pool_wf (p\<lparr>oversize_total := a\<rparr>) = pool_wf p" "pool_wf (p\<lparr>miss_total := b\<rparr>) = pool_wf p"
  "pool_wf (p\<lparr>hit_total := c\<rparr>) = pool_wf p"
  by (simp_all add: pool_wf_def)

lemma cached_counters [simp]:
  "cached (p\<lparr>oversize_total := a\<rparr>) = cached p" "cached (p\<lparr>miss_total := b\<rparr>) = cached p"
  "cached (p\<lparr>hit_total := c\<rparr>) = cached p"
  by (simp_all add: cached_def)

lemma accounts_counters [simp]:
  "accounts ch ls (p\<lparr>oversize_total := a\<rparr>) = accounts ch ls p"
  "accounts ch ls (p\<lparr>miss_total := b\<rparr>) = accounts ch ls p"
  by (simp_all add: accounts_def)

text \<open>A fresh buffer keeps the books, whichever counter the path bumps.\<close>

lemma fresh_holds:
  assumes "pool_holds ch ls (p, w)" and "get_fresh api cap w = (r, w')"
    and "cls \<le> length (size_classes p)"
    and "cls < length (size_classes p) \<Longrightarrow> cap = size_classes p ! cls"
  shows "pool_holds ch (if lease_ok (lease_fresh cap cls r) then lease_fresh cap cls r # ls else ls) (p, w')"
proof (cases r)
  case None
  then show ?thesis
    using assms(1) get_fresh_ledger(1) [OF assms(2)] by (simp add: pool_holds_def lease_fresh_def)
next
  case (Some b)
  obtain d m where b: "b = (d, m)" by force
  have nz: "d \<noteq> 0" "m \<noteq> 0" using get_fresh_ledger(2) [OF assms(2)] assms(1) Some b
    by (auto simp: pool_holds_def)
  then have ok: "lease_ok (lease_of cap cls b)" by (simp add: lease_ok_def lease_of_def b)
  have wf: "lease_wf p (lease_of cap cls b)" using nz assms(3,4) b by (intro lease_wf_of) auto
  show ?thesis
    using assms(1) get_fresh_ledger(1) [OF assms(2)] ok wf Some b
    by (auto simp: pool_holds_def lease_fresh_def accounts_def lease_of_def)
qed

lemma pool_wf_pop:
  assumes "pool_wf p" and "i < length (buckets p)"
  shows "pool_wf (p\<lparr>buckets := (buckets p)[i := butlast (buckets p ! i)]\<rparr>)"
proof -
  have "list_all P (butlast xs)" if "list_all P xs" for P and xs :: "CachedBuffer list"
    using that by (auto simp: list_all_iff dest: in_set_butlastD)
  moreover have "concat ((buckets p)[i := butlast (buckets p ! i)]) = []" if "concat (buckets p) = []"
    using that nth_mem [OF assms(2)] by (auto dest!: in_set_butlastD set_update_subset_insert [THEN subsetD])
  ultimately show ?thesis
    using assms by (auto simp: pool_wf_def nth_list_update intro: le_trans)
qed

lemma reuse_holds:
  assumes h: "pool_holds ch ls (p, w)" and i: "i < length (size_classes p)"
    and ne: "buckets p ! i \<noteq> []" and c: "c = last (buckets p ! i)"
  shows "pool_holds ch (lease_of (cb_capacity c) i (cb_data c, cb_mr c) # ls)
     (p\<lparr>buckets := (buckets p)[i := butlast (buckets p ! i)], hit_total := t\<rparr>, w)"
proof -
  have wf: "pool_wf p" and len: "i < length (buckets p)"
    using h i by (auto simp: pool_holds_def pool_wf_def)
  have "entry_wf (size_classes p ! i) c"
    using wf len ne c by (auto simp: pool_wf_def list_all_iff)
  then have "lease_wf p (lease_of (cb_capacity c) i (cb_data c, cb_mr c))"
    using i by (intro lease_wf_of) (auto simp: entry_wf_def)
  moreover have "cached p = add_mset c (cached (p\<lparr>buckets := (buckets p)[i := butlast (buckets p ! i)]\<rparr>))"
    using mset_concat_pop [OF len ne] c by (simp add: cached_def)
  ultimately show ?thesis
    using h pool_wf_pop [OF wf len]
    by (auto simp: pool_holds_def accounts_def lease_of_def cached_def)
qed

lemma Acquire_holds:
  assumes h: "pool_holds ch ls st" and a: "Acquire api n st = (l, st')"
  shows "pool_holds ch (if lease_ok l then l # ls else ls) st'"
proof -
  obtain p w where st: "st = (p, w)" by force
  let ?i = "PickClass p n"
  have le: "?i \<le> length (size_classes p)" by (rule PickClass_le)
  note a' = a [unfolded st Acquire_eq Let_def]
  have bump: "pool_holds ch ks (p\<lparr>oversize_total := x\<rparr>, w') = pool_holds ch ks (p, w')"
    "pool_holds ch ks (p\<lparr>miss_total := x\<rparr>, w') = pool_holds ch ks (p, w')" for ks x and w' :: "'a server"
    by (simp_all add: pool_holds_def)
  consider "n = 0" | "n \<noteq> 0" "?i = length (size_classes p)"
    | "n \<noteq> 0" "?i < length (size_classes p)" "\<not> shut p \<and> buckets p ! ?i \<noteq> []"
    | "n \<noteq> 0" "?i < length (size_classes p)" "shut p \<or> buckets p ! ?i = []"
    using le by linarith
  then show ?thesis
  proof cases
    case 1
    then show ?thesis using h a' st by auto
  next
    case 2
    obtain r w' where g: "get_fresh api n w = (r, w')" by force
    show ?thesis
      using fresh_holds [OF h [unfolded st] g, of ?i] 2 a' g by (auto simp: bump)
  next
    case 3
    then have ok: "lease_ok l"
      using reuse_holds [OF h [unfolded st] 3(2) _ refl] a'
      by (auto simp: pool_holds_def lease_wf_def)
    show ?thesis
      using reuse_holds [OF h [unfolded st] 3(2) _ refl] 3 a' ok by auto
  next
    case 4
    obtain r w' where g: "get_fresh api (size_classes p ! ?i) w = (r, w')" by force
    show ?thesis
      using fresh_holds [OF h [unfolded st] g, of ?i] 4 a' g by (auto simp: bump)
  qed
qed

lemma Acquire_capacity:
  assumes h: "pool_holds ch ls st" and a: "Acquire api n st = (l, st')" and ok: "lease_ok l"
  shows "n \<le> le_capacity l"
proof -
  obtain p w where st: "st = (p, w)" by force
  let ?i = "PickClass p n"
  note a' = a [unfolded st Acquire_eq Let_def]
  have cap: "cb_capacity (last (buckets p ! ?i)) = size_classes p ! ?i"
    if "?i < length (size_classes p)" "buckets p ! ?i \<noteq> []"
    using h that st by (auto simp: pool_holds_def pool_wf_def list_all_iff entry_wf_def)
  have fits: "n \<le> size_classes p ! ?i" if "?i \<noteq> length (size_classes p)"
    using pick_class_fits [of "size_classes p" n] PickClass_le [of p n] that
    by (simp add: PickClass_def)
  show ?thesis
    using a' ok cap fits PickClass_le [of p n]
    by (auto simp: lease_fresh_def lease_of_def order.not_eq_order_implies_strict
        split: if_splits option.splits prod.splits)
qed

lemma Dispose_ledger:
  assumes "ledger_of (srv_calls w) = Some l" and "cb_data c \<noteq> 0" and "cb_mr c \<noteq> 0"
    and "cb_data c \<in># hosts l" and "cb_mr c \<in># mrs l"
  shows "ledger_of (srv_calls (Dispose api c w)) =
    Some (l\<lparr>hosts := hosts l - {#cb_data c#}, mrs := mrs l - {#cb_mr c#}\<rparr>)"
  using assms by (simp add: Dispose_def srv_deregister_def srv_free_def Let_def pool_simps)

lemma Dispose_all_ledger:
  assumes "ledger_of (srv_calls w) = Some \<lparr>hosts = image_mset cb_data (mset cs) + H,
      mrs = image_mset cb_mr (mset cs) + M, chans = ch\<rparr>"
    and "\<forall>c \<in> set cs. cb_data c \<noteq> 0 \<and> cb_mr c \<noteq> 0"
  shows "ledger_of (srv_calls (fold (Dispose api) cs w)) = Some \<lparr>hosts = H, mrs = M, chans = ch\<rparr>"
  using assms
proof (induction cs arbitrary: w)
  case (Cons c cs)
  have "ledger_of (srv_calls (Dispose api c w)) = Some \<lparr>hosts = image_mset cb_data (mset cs) + H,
      mrs = image_mset cb_mr (mset cs) + M, chans = ch\<rparr>"
    using Dispose_ledger [OF Cons.prems(1)] Cons.prems(2) by simp
  then show ?case using Cons.IH Cons.prems(2) by simp
qed simp

lemma pool_wf_push:
  assumes "pool_wf p" and "i < length (buckets p)" and "\<not> shut p"
    and "entry_wf (size_classes p ! i) c" and "length (buckets p ! i) < max_per_class p"
  shows "pool_wf (p\<lparr>buckets := (buckets p)[i := buckets p ! i @ [c]]\<rparr>)"
  using assms by (auto simp: pool_wf_def nth_list_update)

lemma Lease_Release_holds:
  assumes h: "pool_holds ch (l # ls) st" and r: "Lease_Release api l st = (l', st')"
  shows "pool_holds ch ls st' \<and> \<not> lease_ok l'"
proof -
  obtain p w where st: "st = (p, w)" by force
  have wf: "pool_wf p" and lw: "lease_wf p l"
    and led: "ledger_of (srv_calls w) = Some (accounts ch (l # ls) p)"
    using h st by (auto simp: pool_holds_def)
  let ?c = "\<lparr>cb_data = le_data l, cb_capacity = le_capacity l, cb_mr = le_mr l\<rparr>"
  have nz: "le_data l \<noteq> 0" "le_mr l \<noteq> 0" and att: "le_pool l"
    using lw by (auto simp: lease_wf_def lease_ok_def)
  have l': "l' = null_lease"
    and st': "st' = Pool_Release api (le_data l) (le_capacity l) (le_mr l) (le_size_class l) (p, w)"
    using r nz att st by (auto simp: Lease_Release_def)
  have disp: "pool_holds ch ls (p, Dispose api ?c w)"
    using h st Dispose_ledger [OF led, of ?c] nz by (simp add: pool_holds_def accounts_def)
  have push: "pool_holds ch ls
      (p\<lparr>buckets := (buckets p)[le_size_class l := buckets p ! le_size_class l @ [?c]]\<rparr>, w)"
    if "\<not> shut p" "le_size_class l < length (size_classes p)"
      "length (buckets p ! le_size_class l) < max_per_class p"
  proof -
    have i: "le_size_class l < length (buckets p)" using that(2) wf by (simp add: pool_wf_def)
    have "entry_wf (size_classes p ! le_size_class l) ?c"
      using lw that(2) nz by (simp add: entry_wf_def lease_wf_def)
    then show ?thesis
      using h st pool_wf_push [OF wf i that(1)] that(3) mset_concat_push [OF i, of ?c]
      by (simp add: pool_holds_def accounts_def cached_def)
  qed
  show ?thesis
    using disp push l' nz unfolding st' by (auto simp: Pool_Release_def Let_def)
qed

lemma lease_fresh_ok:
  "get_fresh api cap w = (r, w') \<Longrightarrow> ledger_of (srv_calls w) = Some led \<Longrightarrow>
   lease_ok (lease_fresh cap cls r) \<longleftrightarrow> r \<noteq> None"
  using get_fresh_ledger(2) [of api cap w r w' led]
  by (cases r) (auto simp: lease_fresh_def lease_of_def lease_ok_def)

lemma Acquire_null:
  assumes h: "pool_holds ch ls st" and a: "Acquire api n st = (l, st')" and no: "\<not> lease_ok l"
  shows "l = null_lease"
proof -
  obtain p w where st: "st = (p, w)" by force
  let ?i = "PickClass p n"
  note a' = a [unfolded st Acquire_eq Let_def]
  have led: "ledger_of (srv_calls w) = Some (accounts ch ls p)" using h st by (simp add: pool_holds_def)
  have "entry_wf (size_classes p ! ?i) (last (buckets p ! ?i))"
    if "?i < length (size_classes p)" "buckets p ! ?i \<noteq> []"
    using h that st by (auto simp: pool_holds_def pool_wf_def list_all_iff)
  then show ?thesis
    using a' no led PickClass_le [of p n]
    by (auto simp: lease_of_def lease_ok_def entry_wf_def order.not_eq_order_implies_strict
        lease_fresh_def split: if_splits prod.splits option.splits dest: get_fresh_ledger(2))
qed

lemma pool_wf_entries:
  assumes "pool_wf p" and "c \<in> set (concat (buckets p))"
  shows "cb_data c \<noteq> 0 \<and> cb_mr c \<noteq> 0"
proof -
  obtain xs where "xs \<in> set (buckets p)" and c: "c \<in> set xs" using assms(2) by auto
  then obtain i where "i < length (buckets p)" "xs = buckets p ! i" by (auto simp: in_set_conv_nth)
  then have "entry_wf (size_classes p ! i) c"
    using assms(1) c by (auto simp: pool_wf_def list_all_iff)
  then show ?thesis by (simp add: entry_wf_def)
qed

lemma Shutdown_holds:
  assumes h: "pool_holds ch ls st"
  shows "pool_holds ch ls (Shutdown api st)"
proof -
  obtain p w where st: "st = (p, w)" by force
  show ?thesis
  proof (cases "shut p")
    case False
    have "\<forall>c \<in> set (concat (buckets p)). cb_data c \<noteq> 0 \<and> cb_mr c \<noteq> 0"
      using h st pool_wf_entries by (auto simp: pool_holds_def)
    then have "ledger_of (srv_calls (fold (Dispose api) (concat (buckets p)) w))
        = Some \<lparr>hosts = image_mset le_data (mset ls), mrs = image_mset le_mr (mset ls), chans = ch\<rparr>"
      using h st by (intro Dispose_all_ledger) (simp_all add: pool_holds_def accounts_def cached_def)
    then show ?thesis
      using h st False by (simp add: Shutdown_def pool_holds_def accounts_def cached_def pool_wf_def)
  qed (use h st in \<open>simp add: Shutdown_def\<close>)
qed

lemma Shutdown_stops: "shut (fst (Shutdown api st))"
  by (cases st) (simp add: Shutdown_def)

lemma Lease_Release_stopped: "shut (fst st) \<Longrightarrow> shut (fst (snd (Lease_Release api l st)))"
  by (cases st) (simp add: Lease_Release_def Pool_Release_def Let_def)

definition pool_idle :: "u16 multiset \<Rightarrow> PinnedBufferPool \<times> 's server \<Rightarrow> bool" where
  "pool_idle ch st \<longleftrightarrow> cached (fst st) = {#} \<and>
     ledger_of (srv_calls (snd st)) = Some \<lparr>hosts = {#}, mrs = {#}, chans = ch\<rparr>"

section \<open>The interface, provided\<close>

interpretation pinned_pool: stoppable_pool
  "Acquire api" "Lease_Release api" lease_ok le_capacity "pool_holds ch" "Shutdown api"
  "\<lambda>st. shut (fst st)" "pool_idle ch"
  for api :: "'s cuobj_api" and ch :: "u16 multiset"
proof unfold_locales
  show "pool_holds ch (if lease_ok l then l # ls else ls) st'"
    if "pool_holds ch ls st" "Acquire api n st = (l, st')" for ls st n l st'
    using that by (rule Acquire_holds)
  show "n \<le> le_capacity l"
    if "pool_holds ch ls st" "Acquire api n st = (l, st')" "lease_ok l" for ls st n l st'
    using that by (rule Acquire_capacity)
  show "pool_holds ch ls st' \<and> \<not> lease_ok l'"
    if "pool_holds ch (l # ls) st" "Lease_Release api l st = (l', st')" for l ls st l' st'
    using that by (rule Lease_Release_holds)
  show "Lease_Release api l st'' = (l, st'')"
    if "pool_holds ch ls st" "Acquire api n st = (l, st')" "\<not> lease_ok l" for ls st n l st' st''
    using Acquire_null [OF that] by (simp add: Lease_Release_def)
  show "pool_holds ch ls' st" if "pool_holds ch ls st" "mset ls' = mset ls" for ls ls' st
    using that mset_eq_setD [OF that(2)] by (simp add: pool_holds_def accounts_def list_all_iff)
  show "pool_holds ch ls (Shutdown api st)" if "pool_holds ch ls st" for ls st
    using that by (rule Shutdown_holds)
  show "shut (fst (Shutdown api st))" for st by (rule Shutdown_stops)
  show "shut (fst (snd (Lease_Release api l st)))" if "shut (fst st)" for l st
    using that by (rule Lease_Release_stopped)
  show "pool_idle ch st" if "pool_holds ch [] st" "shut (fst st)" for st
    using that by (simp add: pool_idle_def pool_holds_def pool_wf_def accounts_def cached_def)
qed

lemma new_pool_holds:
  "ledger_of (srv_calls w) = Some (empty_ledger\<lparr>chans := ch\<rparr>) \<Longrightarrow>
   pool_holds ch [] (new_pool classes mx, w)"
proof -
  have "concat (replicate k []) = ([] :: CachedBuffer list)" for k by (induction k) auto
  then show "ledger_of (srv_calls w) = Some (empty_ledger\<lparr>chans := ch\<rparr>) \<Longrightarrow>
      pool_holds ch [] (new_pool classes mx, w)"
    by (simp add: pool_holds_def pool_wf_def new_pool_def accounts_def cached_def empty_ledger_def)
qed

end
