(* ===== verification/Gds_Sink.thy ===== *)
theory Gds_Sink
  imports Buffer_Pool Backend_Crc32c
begin

text \<open>
  The data sink of the backend (\<open>backend/src/backend_gds_sink.{h,cpp}\<close> with the scope guards
  of \<open>backend/src/gds/cuobj_resources.h\<close>): starting and stopping the server library and the
  pool, and \<open>ReceiveAndDiscard\<close>, which pulls the bytes named by a token into a leased buffer
  and takes their checksum. Every return runs the destructors of the guards in the code's
  order; the lemmas show that every path gives the lease and the channel back.
\<close>

section \<open>State\<close>

record DiscardOutcome =
  do_ok :: bool
  do_error :: string
  do_bytes_transferred :: u64
  do_crc32c :: u32

definition new_outcome :: DiscardOutcome where
  "new_outcome = \<lparr>do_ok = False, do_error = [], do_bytes_transferred = 0, do_crc32c = 0\<rparr>"

record BackendGdsSink =
  bind_host :: string
  rdma_port :: int
  compute_crc32c :: bool
  server_up :: bool \<comment> \<open>\<open>server_\<close> is not null\<close>
  sink_pool :: "PinnedBufferPool option"

definition new_sink :: "string \<Rightarrow> int \<Rightarrow> bool \<Rightarrow> BackendGdsSink" where
  "new_sink host port crc =
     \<lparr>bind_host = host, rdma_port = port, compute_crc32c = crc, server_up = False, sink_pool = None\<rparr>"

definition kMaxChunkBytes :: u64 where
  "kMaxChunkBytes = 1 * 1024 * 1024 * 1024"

definition BufferSizeClasses :: "u64 list" where
  "BufferSizeClasses =
     [1 * 1024 * 1024, 16 * 1024 * 1024, 256 * 1024 * 1024, 1 * 1024 * 1024 * 1024]"

definition kBufferMaxPerClass :: nat where
  "kBufferMaxPerClass = 4"

section \<open>Helpers\<close>

text \<open>The part of a token before the first colon, or all of it, read in base 16.\<close>

definition ParseRemoteBufferAddress :: "string \<Rightarrow> u64" where
  "ParseRemoteBufferAddress token =
     (let hex = takeWhile (\<lambda>c. c \<noteq> CHR '':'') token
      in if hex = [] then 0 else strtoull16 (c_str hex))"

definition DescribeStatus :: "'s cuobj_api \<Rightarrow> int \<Rightarrow> string" where
  "DescribeStatus api st =
     (case api_status_str api st of None \<Rightarrow> int_to_string st | Some d \<Rightarrow> d)"

text \<open>The destructor of \<open>ChannelGuard\<close>.\<close>

definition ChannelGuard_end :: "'s cuobj_api \<Rightarrow> u16 \<Rightarrow> 's server \<Rightarrow> 's server" where
  "ChannelGuard_end api channel w =
     (if channel \<noteq> api_invalid_channel api then srv_free_channel api channel w else w)"

text \<open>The destructor of \<open>RegistrationGuard\<close>, and the two ends of a \<open>HostBuffer\<close>.\<close>

definition RegistrationGuard_end :: "'s cuobj_api \<Rightarrow> addr \<Rightarrow> 's server \<Rightarrow> 's server" where
  "RegistrationGuard_end api buffer w = (if buffer \<noteq> 0 then srv_deregister api buffer w else w)"

definition HostBuffer_begin :: "'s cuobj_api \<Rightarrow> u64 \<Rightarrow> 's server \<Rightarrow> addr \<times> 's server" where
  "HostBuffer_begin api sz w = srv_alloc api sz w"

definition HostBuffer_end :: "'s cuobj_api \<Rightarrow> addr \<Rightarrow> 's server \<Rightarrow> 's server" where
  "HostBuffer_end api data w = (if data \<noteq> 0 then srv_free api data w else w)"

section \<open>Start and stop\<close>

text \<open>
  The backend calls \<open>Start\<close> once, on a new sink, so the assignments find \<open>server_\<close> and \<open>pool_\<close>
  null and destroy nothing. A server that is not connected ends with the scope of its pointer.
\<close>

definition Sink_Start ::
  "'s cuobj_api \<Rightarrow> BackendGdsSink \<times> 's server \<Rightarrow> bool \<times> BackendGdsSink \<times> 's server" where
  "Sink_Start api st =
     (let (k, w) = st;
          w1 = srv_create api (bind_host k) (word_of_int (rdma_port k)) w
      in if \<not> srv_connected api w1 then (False, k, srv_destroy api w1)
         else (True, k\<lparr>server_up := True,
                       sink_pool := Some (new_pool BufferSizeClasses kBufferMaxPerClass)\<rparr>, w1))"

text \<open>The pool is shut down and destroyed (which shuts it down once more) before the server.\<close>

definition Sink_Stop ::
  "'s cuobj_api \<Rightarrow> BackendGdsSink \<times> 's server \<Rightarrow> BackendGdsSink \<times> 's server" where
  "Sink_Stop api st =
     (let (k, w) = st;
          w1 = (case sink_pool k of
                  None \<Rightarrow> w
                | Some p \<Rightarrow> snd (Shutdown api (Shutdown api (p, w))));
          w2 = (if server_up k then srv_destroy api w1 else w1)
      in (k\<lparr>server_up := False, sink_pool := None\<rparr>, w2))"

definition Sink_available :: "'s cuobj_api \<Rightarrow> BackendGdsSink \<times> 's server \<Rightarrow> bool" where
  "Sink_available api st \<longleftrightarrow> server_up (fst st) \<and> srv_connected api (snd st)"

section \<open>ReceiveAndDiscard\<close>

text \<open>The end of the scope that holds the lease: its destructor, with the pool it belongs to.\<close>

definition end_lease ::
  "'s cuobj_api \<Rightarrow> PinnedBufferLease \<Rightarrow> BackendGdsSink \<times> 's server \<Rightarrow> BackendGdsSink \<times> 's server" where
  "end_lease api l st =
     (let (k, w) = st in
      case sink_pool k of
        None \<Rightarrow> (k, w)
      | Some p \<Rightarrow> (let (l', p', w') = Lease_Release api l (p, w) in (k\<lparr>sink_pool := Some p'\<rparr>, w')))"

text \<open>The assignment of the leased buffer to \<open>lease\<close>, when there is a pool.\<close>

definition take_lease ::
  "'s cuobj_api \<Rightarrow> u64 \<Rightarrow> BackendGdsSink \<times> 's server \<Rightarrow>
   PinnedBufferLease \<times> BackendGdsSink \<times> 's server" where
  "take_lease api n st =
     (let (k, w) = st in
      case sink_pool k of
        None \<Rightarrow> (null_lease, k, w)
      | Some p \<Rightarrow>
          (let (l, p1, w1) = Acquire api n (p, w);
               ((lease, tmp), p2, w2) = Lease_Assign api False null_lease l (p1, w1)
           in (lease, k\<lparr>sink_pool := Some p2\<rparr>, w2)))"

definition ReceiveAndDiscard ::
  "'s cuobj_api \<Rightarrow> string \<Rightarrow> string \<Rightarrow> u64 \<Rightarrow> BackendGdsSink \<times> 's server \<Rightarrow>
   DiscardOutcome \<times> BackendGdsSink \<times> 's server" where
  "ReceiveAndDiscard api object_id rdma_token len st =
     (if kMaxChunkBytes < len then
        (new_outcome\<lparr>do_error := ''GDS PUT chunk exceeds 1 GiB cuObjServer limit''\<rparr>, st)
      else if len = 0 then
        (new_outcome\<lparr>do_ok := True, do_bytes_transferred := 0, do_crc32c := 0\<rparr>, st)
      else
        let (lease, k1, w1) = take_lease api len st
        in if \<not> lease_ok lease then
             (new_outcome\<lparr>do_error := ''cuObjServer pinned buffer alloc failed''\<rparr>,
              end_lease api lease (k1, w1))
           else
             let (channel, w2) = srv_alloc_channel api w1
             in if channel = api_invalid_channel api then
                  (new_outcome\<lparr>do_error := ''cuObjServer allocateChannelId failed''\<rparr>,
                   end_lease api lease (k1, w2))
                else
                  let remote_buf_start = ParseRemoteBufferAddress rdma_token;
                      ((transferred, stat), w3) =
                        srv_handle_put api object_id (le_mr lease) remote_buf_start len
                          rdma_token channel w2
                  in if transferred < 0 then
                       (new_outcome\<lparr>do_error := ''cuObjServer handlePutObject failed: ''
                                      @ DescribeStatus api stat\<rparr>,
                        end_lease api lease (k1, ChannelGuard_end api channel w3))
                     else
                       let n = (word_of_int transferred :: u64);
                           crc = (if compute_crc32c k1
                                  then Crc32c (api_bytes api (le_data lease) (unat n) (srv_state w3))
                                  else 0)
                       in (new_outcome\<lparr>do_ok := True, do_bytes_transferred := n, do_crc32c := crc\<rparr>,
                           end_lease api lease (k1, ChannelGuard_end api channel w3)))"

section \<open>Resources\<close>

lemma Lease_Assign_null [simp]: "Lease_Assign api False null_lease l st = ((l, null_lease), st)"
  by (simp add: Lease_Assign_def Lease_Release_def)

lemma take_lease_Some:
  "sink_pool k = Some p \<Longrightarrow> Acquire api n (p, w) = (l, p1, w1) \<Longrightarrow>
   take_lease api n (k, w) = (l, k\<lparr>sink_pool := Some p1\<rparr>, w1)"
  by (simp add: take_lease_def)

lemma end_lease_Some:
  "sink_pool k = Some p \<Longrightarrow>
   end_lease api l (k, w) = (k\<lparr>sink_pool := Some (fst (snd (Lease_Release api l (p, w))))\<rparr>,
     snd (snd (Lease_Release api l (p, w))))"
  by (simp add: end_lease_def split: prod.splits)

lemma pool_holds_alloc_channel:
  "pool_holds ch ls (p, w) \<Longrightarrow> srv_alloc_channel api w = (c, w') \<Longrightarrow>
   pool_holds (if c = api_invalid_channel api then ch else add_mset c ch) ls (p, w')"
  by (auto simp: pool_holds_def srv_alloc_channel_def accounts_def pool_simps split: prod.splits)

lemma pool_holds_handle_put:
  "pool_holds ch ls (p, w) \<Longrightarrow> srv_handle_put api obj r start n tok c w = (res, w') \<Longrightarrow>
   pool_holds ch ls (p, w')"
  by (auto simp: pool_holds_def srv_handle_put_def pool_simps split: prod.splits)

lemma pool_holds_channel_end:
  "pool_holds (add_mset c ch) ls (p, w) \<Longrightarrow> c \<noteq> api_invalid_channel api \<Longrightarrow>
   pool_holds ch ls (p, ChannelGuard_end api c w)"
  by (auto simp: pool_holds_def ChannelGuard_end_def srv_free_channel_def accounts_def pool_simps)

text \<open>
  Whatever happens between taking the lease and giving it back, the books are as after the
  lease was taken: the channel is freed on every path that has one.
\<close>

definition books_kept :: "PinnedBufferPool \<Rightarrow> 's server \<Rightarrow> 's server \<Rightarrow> bool" where
  "books_kept p w w' \<longleftrightarrow> (\<forall>ch ls. pool_holds ch ls (p, w) \<longrightarrow> pool_holds ch ls (p, w'))"

lemma books_kept_refl [simp]: "books_kept p w w"
  by (simp add: books_kept_def)

lemma books_kept_no_channel:
  "srv_alloc_channel api w = (api_invalid_channel api, w') \<Longrightarrow> books_kept p w w'"
  using pool_holds_alloc_channel by (fastforce simp: books_kept_def)

lemma books_kept_channel:
  assumes "srv_alloc_channel api w = (c, w2)" and "c \<noteq> api_invalid_channel api"
    and "srv_handle_put api obj r start n tok c w2 = (res, w3)"
  shows "books_kept p w (ChannelGuard_end api c w3)"
  unfolding books_kept_def
proof (intro allI impI)
  fix ch ls assume "pool_holds ch ls (p, w)"
  then have "pool_holds (add_mset c ch) ls (p, w2)"
    using pool_holds_alloc_channel [OF _ assms(1)] assms(2) by fastforce
  then show "pool_holds ch ls (p, ChannelGuard_end api c w3)"
    using pool_holds_handle_put [OF _ assms(3)] pool_holds_channel_end [OF _ assms(2)] by blast
qed

lemma Receive_scope:
  assumes p: "sink_pool k = Some p" and n: "n \<noteq> 0" "n \<le> kMaxChunkBytes"
    and a: "Acquire api n (p, w) = (l, p1, w1)"
    and r: "ReceiveAndDiscard api obj tok n (k, w) = (outcome, k', w')"
  obtains wm where "books_kept p1 w1 wm"
    and "(k', w') = (k\<lparr>sink_pool := Some (fst (snd (Lease_Release api l (p1, wm))))\<rparr>,
           snd (snd (Lease_Release api l (p1, wm))))"
proof -
  obtain c w2 where c: "srv_alloc_channel api w1 = (c, w2)" by force
  obtain tr stat w3 where h: "srv_handle_put api obj (le_mr l) (ParseRemoteBufferAddress tok) n tok c w2
      = ((tr, stat), w3)" by (metis prod.collapse)
  note r' = r [unfolded ReceiveAndDiscard_def take_lease_Some [OF p a] Let_def]
  have big: "\<not> kMaxChunkBytes < n" using n(2) by simp
  have endl: "end_lease api l (k\<lparr>sink_pool := Some p1\<rparr>, w)
      = (k\<lparr>sink_pool := Some (fst (snd (Lease_Release api l (p1, w))))\<rparr>,
         snd (snd (Lease_Release api l (p1, w))))" for w :: "'a server"
    by (simp add: end_lease_Some [of _ p1])
  consider "\<not> lease_ok l" | "lease_ok l" "c = api_invalid_channel api"
    | "lease_ok l" "c \<noteq> api_invalid_channel api" by blast
  then show ?thesis
  proof cases
    case 1
    then show ?thesis using r' n(1) big endl that [of w1] by simp
  next
    case 2
    then have none: "srv_alloc_channel api w1 = (api_invalid_channel api, w2)"
      using c by simp
    show ?thesis
      using r' 2(1) n(1) big none endl that [OF books_kept_no_channel [OF none]] by simp
  next
    case 3
    then show ?thesis
      using r' n(1) big c h endl that [OF books_kept_channel [OF c 3(2) h]]
      by (simp split: if_splits)
  qed
qed

section \<open>The state between requests\<close>

definition sink_ready :: "BackendGdsSink \<times> 's server \<Rightarrow> bool" where
  "sink_ready st \<longleftrightarrow> server_up (fst st) \<and> (\<exists>p. sink_pool (fst st) = Some p \<and>
     size_classes p = BufferSizeClasses \<and> \<not> shut p \<and> pool_holds {#} [] (p, snd st))"

lemma Acquire_static:
  "Acquire api n (p, w) = (l, p', w') \<Longrightarrow> size_classes p' = size_classes p \<and> shut p' = shut p"
  by (auto simp: Acquire_eq Let_def split: if_splits prod.splits)

lemma Release_static:
  "Lease_Release api l (p, w) = (l', p', w') \<Longrightarrow> size_classes p' = size_classes p \<and> shut p' = shut p"
  by (auto simp: Lease_Release_def Pool_Release_def Let_def split: if_splits)

lemma Receive_trivial:
  "kMaxChunkBytes < n \<or> n = 0 \<Longrightarrow> snd (ReceiveAndDiscard api obj tok n st) = st"
  by (auto simp: ReceiveAndDiscard_def)

lemma Receive_ready:
  assumes "sink_ready (k, w)"
  shows "sink_ready (snd (ReceiveAndDiscard api obj tok n (k, w)))"
proof (cases "kMaxChunkBytes < n \<or> n = 0")
  case True
  then show ?thesis using assms Receive_trivial [OF True] by metis
next
  case False
  from assms obtain p where up: "server_up k" and p: "sink_pool k = Some p"
      "size_classes p = BufferSizeClasses" "\<not> shut p" "pool_holds {#} [] (p, w)"
    by (auto simp: sink_ready_def)
  obtain l p1 w1 where a: "Acquire api n (p, w) = (l, p1, w1)" by (metis prod.collapse)
  obtain outcome k' w' where r: "ReceiveAndDiscard api obj tok n (k, w) = (outcome, k', w')"
    by (metis prod.collapse)
  have n: "n \<noteq> 0" "n \<le> kMaxChunkBytes" using False by auto
  obtain wm where kept: "books_kept p1 w1 wm"
    and res: "(k', w') = (k\<lparr>sink_pool := Some (fst (snd (Lease_Release api l (p1, wm))))\<rparr>,
           snd (snd (Lease_Release api l (p1, wm))))"
    using Receive_scope [OF p(1) n a r] .
  obtain l' p2 w2 where rel: "Lease_Release api l (p1, wm) = (l', p2, w2)" by (metis prod.collapse)
  have "pool_holds {#} [] (snd (Lease_Release api l (p1, wm)))"
    using kept by (intro pinned_pool.scoped_lease [OF p(4) a]) (simp add: books_kept_def)
  then show ?thesis
    using r res rel up Acquire_static [OF a] Release_static [OF rel] p
    by (simp add: sink_ready_def)
qed

lemma Start_ready:
  assumes "Sink_Start api (new_sink host port crc, w) = (True, st')"
    and "ledger_of (srv_calls w) = Some empty_ledger"
  shows "sink_ready st'"
proof -
  have "sort BufferSizeClasses = BufferSizeClasses" by (simp add: BufferSizeClasses_def)
  moreover have "pool_holds {#} [] (new_pool BufferSizeClasses kBufferMaxPerClass,
      srv_create api host (word_of_int port) w)"
    using assms(2) by (intro new_pool_holds) (simp add: srv_create_def pool_simps empty_ledger_def)
  ultimately show ?thesis
    using assms(1) by (auto simp: Sink_Start_def Let_def new_sink_def sink_ready_def new_pool_def
        split: if_splits)
qed

text \<open>Stopping from that state releases everything, registrations before the server.\<close>

lemma Shutdown_twice: "Shutdown api (Shutdown api st) = Shutdown api st"
  by (cases st) (simp add: Shutdown_def)

lemma Stop_clean:
  assumes "sink_ready st"
  shows "ledger_of (srv_calls (snd (Sink_Stop api st))) = Some empty_ledger"
proof -
  obtain k w where st: "st = (k, w)" by force
  from assms obtain p where up: "server_up k" and p: "sink_pool k = Some p" "pool_holds {#} [] (p, w)"
    by (auto simp: sink_ready_def st)
  have "pool_idle {#} (Shutdown api (p, w))"
    using pinned_pool.drained [OF p(2)] by simp
  then have "ledger_of (srv_calls (snd (Shutdown api (p, w)))) = Some empty_ledger"
    by (simp add: pool_idle_def empty_ledger_def)
  then show ?thesis
    using up p by (simp add: st Sink_Stop_def Let_def Shutdown_twice srv_destroy_def pool_simps
        empty_ledger_def)
qed

section \<open>The result\<close>

text \<open>
  The transfer that a request makes from a state, if it comes that far: the buffer that the pool
  leases for it, the number of bytes the library reports, and the library's state after it. It is
  made from the pool's answer, the library's channel and the library's answer in that state.
\<close>

definition transfer_of ::
  "'s cuobj_api \<Rightarrow> string \<Rightarrow> string \<Rightarrow> u64 \<Rightarrow> BackendGdsSink \<times> 's server \<Rightarrow>
   (PinnedBufferLease \<times> int \<times> 's) option" where
  "transfer_of api obj tok n st =
     (case sink_pool (fst st) of
        None \<Rightarrow> None
      | Some p \<Rightarrow>
          (let (l, p1, w1) = Acquire api n (p, snd st);
               (c, s1) = api_alloc_channel api (srv_state w1);
               ((tr, stat), s2) =
                 api_handle_put api obj (le_mr l) (ParseRemoteBufferAddress tok) n tok c s1
           in if lease_ok l \<and> c \<noteq> api_invalid_channel api \<and> 0 \<le> tr then Some (l, tr, s2) else None))"

text \<open>The bytes a transfer put in the leased buffer.\<close>

definition arrived :: "'s cuobj_api \<Rightarrow> PinnedBufferLease \<times> int \<times> 's \<Rightarrow> u8 list" where
  "arrived api t = (case t of (l, tr, s) \<Rightarrow> api_bytes api (le_data l) (unat (word_of_int tr :: u64)) s)"

lemma Receive_result:
  assumes p: "sink_pool k = Some p" and n: "n \<noteq> 0" "n \<le> kMaxChunkBytes"
  shows "case transfer_of api obj tok n (k, w) of
      None \<Rightarrow> \<not> do_ok (fst (ReceiveAndDiscard api obj tok n (k, w)))
    | Some (l, tr, s) \<Rightarrow> fst (ReceiveAndDiscard api obj tok n (k, w)) =
        \<lparr>do_ok = True, do_error = [], do_bytes_transferred = word_of_int tr,
         do_crc32c = (if compute_crc32c k then Crc32c (arrived api (l, tr, s)) else 0)\<rparr>"
proof -
  obtain l p1 w1 where a: "Acquire api n (p, w) = (l, p1, w1)" by (metis prod.collapse)
  obtain c s1 where c: "api_alloc_channel api (srv_state w1) = (c, s1)" by force
  obtain tr stat s2 where h: "api_handle_put api obj (le_mr l) (ParseRemoteBufferAddress tok) n tok c s1 =
      ((tr, stat), s2)" by (metis prod.collapse)
  have big: "\<not> kMaxChunkBytes < n" using n(2) by simp
  have t: "transfer_of api obj tok n (k, w) =
      (if lease_ok l \<and> c \<noteq> api_invalid_channel api \<and> 0 \<le> tr then Some (l, tr, s2) else None)"
    by (simp add: transfer_of_def p a c h)
  have r: "fst (ReceiveAndDiscard api obj tok n (k, w)) =
      (if \<not> lease_ok l then new_outcome\<lparr>do_error := ''cuObjServer pinned buffer alloc failed''\<rparr>
       else if c = api_invalid_channel api then new_outcome\<lparr>do_error := ''cuObjServer allocateChannelId failed''\<rparr>
       else if tr < 0 then new_outcome\<lparr>do_error := ''cuObjServer handlePutObject failed: '' @ DescribeStatus api stat\<rparr>
       else new_outcome\<lparr>do_ok := True, do_bytes_transferred := word_of_int tr,
         do_crc32c := (if compute_crc32c k then Crc32c (arrived api (l, tr, s2)) else 0)\<rparr>)"
    using n(1) big c h
    by (simp add: ReceiveAndDiscard_def take_lease_Some [OF p a] Let_def srv_alloc_channel_def srv_handle_put_def
        logged_def arrived_def)
  show ?thesis unfolding t r by (auto simp: new_outcome_def)
qed

lemma transfer_capacity:
  assumes "sink_ready st" and "transfer_of api obj tok n st = Some (l, tr, s)"
  shows "lease_ok l \<and> n \<le> le_capacity l \<and> 0 \<le> tr"
proof -
  obtain p where p: "sink_pool (fst st) = Some p" "pool_holds {#} [] (p, snd st)"
    using assms(1) by (auto simp: sink_ready_def)
  then show ?thesis
    using assms(2) Acquire_capacity [OF p(2)]
    by (fastforce simp: transfer_of_def Let_def split: prod.splits if_splits)
qed

lemma Receive_transfer:
  assumes s: "sink_ready st" and n: "n \<noteq> 0"
    and r: "ReceiveAndDiscard api obj tok n st = (outcome, st')"
  shows "if do_ok outcome
     then n \<le> kMaxChunkBytes \<and> (\<exists>l tr s. transfer_of api obj tok n st = Some (l, tr, s) \<and>
       do_bytes_transferred outcome = word_of_int tr \<and>
       do_crc32c outcome = (if compute_crc32c (fst st) then Crc32c (arrived api (l, tr, s)) else 0))
     else kMaxChunkBytes < n \<or> transfer_of api obj tok n st = None"
proof (cases "n \<le> kMaxChunkBytes")
  case True
  obtain p where p: "sink_pool (fst st) = Some p" using s by (auto simp: sink_ready_def)
  note res = Receive_result [OF p n True, of api obj tok "snd st"]
  show ?thesis
  proof (cases "transfer_of api obj tok n st")
    case None
    then show ?thesis using res r by simp
  next
    case (Some t)
    obtain l tr s where "t = (l, tr, s)" by (cases t)
    then show ?thesis using Some res r True by simp
  qed
next
  case False
  then have big: "kMaxChunkBytes < n" by simp
  then have "\<not> do_ok outcome" using r by (auto simp: ReceiveAndDiscard_def new_outcome_def)
  then show ?thesis using big by simp
qed

end
