(* ===== verification/Data_Plane_Service.thy ===== *)
theory Data_Plane_Service
  imports Gds_Sink Messages
begin

text \<open>
  The RPC service of the backend (\<open>backend/src/backend_data_plane_service.{h,cpp}\<close>): the
  constructor, the handler \<open>GdsPut\<close> with its notification of the proxy, and the seven
  placeholders. The proxy's stub is a parameter: a function from the notification to its
  outcome that may change a state of its own.
\<close>

section \<open>The service\<close>

record BackendDataPlaneService =
  bs_gateway_id :: string
  proxy_stub :: "string option" \<comment> \<open>the endpoint \<open>proxy_stub_\<close> talks to, if not null\<close>

definition kNotImplemented :: string where
  "kNotImplemented = ''backend v1: only single-object GdsPut''"

definition kNotifyTimeoutMs :: int where
  "kNotifyTimeoutMs = 1000"

definition BuildEtag :: "u32 \<Rightarrow> string" where
  "BuildEtag crc = hex_fixed 8 (unat crc)"

definition BuildObjectId :: "string \<Rightarrow> string \<Rightarrow> string" where
  "BuildObjectId buck obj_key = buck @ ''/'' @ obj_key"

text \<open>\<open>chan_init endpoint timeout\<close> is the result of \<open>brpc::Channel::Init\<close>.\<close>

definition new_BackendDataPlaneService ::
  "(string \<Rightarrow> int \<Rightarrow> int) \<Rightarrow> string \<Rightarrow> string \<Rightarrow> BackendDataPlaneService" where
  "new_BackendDataPlaneService chan_init gw proxy_endpoint =
     (if proxy_endpoint \<noteq> [] then
        if chan_init (c_str proxy_endpoint) kNotifyTimeoutMs \<noteq> 0
        then \<lparr>bs_gateway_id = gw, proxy_stub = None\<rparr>
        else \<lparr>bs_gateway_id = gw, proxy_stub = Some proxy_endpoint\<rparr>
      else \<lparr>bs_gateway_id = gw, proxy_stub = None\<rparr>)"

type_synonym 'p notify_proxy =
  "string \<Rightarrow> ReportGdsPutRequest \<Rightarrow> 'p \<Rightarrow> ReportGdsPutResponse rpc_result \<times> 'p"

text \<open>
  \<open>GdsPut\<close>: the outcome of the notification is only logged, so it does not reach the response.
\<close>

definition backend_GdsPut ::
  "'s cuobj_api \<Rightarrow> 'p notify_proxy \<Rightarrow> BackendDataPlaneService \<Rightarrow> GdsChunkRequest \<Rightarrow>
   (BackendGdsSink \<times> 's server) \<times> 'p \<Rightarrow>
   GdsChunkResponse handled \<times> (BackendGdsSink \<times> 's server) \<times> 'p" where
  "backend_GdsPut api notify svc request = (\<lambda>(st, p).
     if gcq_upload_id request \<noteq> [] then (Inl (SetFailedReason kNotImplemented), st, p)
     else if gcq_rdma_token request = [] then
       (Inl (SetFailedReason ''backend v1: missing rdma_token for GdsPut''), st, p)
     else if \<not> Sink_available api st then
       (Inl (SetFailedReason ''backend v1: cuObjServer not available''), st, p)
     else
       (let object_id = BuildObjectId (gcq_bucket request) (gcq_object_key request);
            (outcome, st') = ReceiveAndDiscard api object_id (gcq_rdma_token request)
              (gcq_chunk_size request) st
        in if \<not> do_ok outcome then
             (Inl (SetFailedReason (''backend v1: '' @ do_error outcome)), st', p)
           else
             (let the_etag = BuildEtag (do_crc32c outcome);
                  response = empty_GdsChunkResponse
                    \<lparr>gcr_etag := the_etag,
                     gcr_bytes_received := do_bytes_transferred outcome,
                     gcr_crc32c := do_crc32c outcome\<rparr>;
                  p' = (case proxy_stub svc of None \<Rightarrow> p
                    | Some endpoint \<Rightarrow> snd (notify endpoint
                        \<lparr>rgq_session_id = gcq_session_id request, rgq_etag = the_etag,
                         rgq_crc32c = do_crc32c outcome,
                         rgq_bytes_transferred = do_bytes_transferred outcome\<rparr> p))
              in (Inr response, st', p'))))"

text \<open>The seven placeholders.\<close>

definition backend_OpenSession :: "OpenSessionRequest \<Rightarrow> OpenSessionResponse handled" where
  "backend_OpenSession request = Inl (SetFailedCode ENOMETHOD kNotImplemented)"

definition backend_HeadObject :: "HeadObjectRequest \<Rightarrow> HeadObjectResponse handled" where
  "backend_HeadObject request = Inl (SetFailedCode ENOMETHOD kNotImplemented)"

definition backend_GdsGet :: "GdsChunkRequest \<Rightarrow> GdsChunkResponse handled" where
  "backend_GdsGet request = Inl (SetFailedCode ENOMETHOD kNotImplemented)"

definition backend_AbortSession :: "AbortSessionRequest \<Rightarrow> AbortSessionResponse handled" where
  "backend_AbortSession request = Inl (SetFailedCode ENOMETHOD kNotImplemented)"

definition backend_StartUpload :: "StartUploadRequest \<Rightarrow> StartUploadResponse handled" where
  "backend_StartUpload request = Inl (SetFailedCode ENOMETHOD kNotImplemented)"

definition backend_CompleteUpload :: "CompleteUploadRequest \<Rightarrow> CompleteUploadResponse handled" where
  "backend_CompleteUpload request = Inl (SetFailedCode ENOMETHOD kNotImplemented)"

definition backend_AbortUpload :: "AbortUploadRequest \<Rightarrow> AbortUploadResponse handled" where
  "backend_AbortUpload request = Inl (SetFailedCode ENOMETHOD kNotImplemented)"

section \<open>The entity tag\<close>

lemma length_BuildEtag [simp]: "length (BuildEtag c) = 8"
  by (simp add: BuildEtag_def)

lemma BuildEtag_inj: "BuildEtag c = BuildEtag d \<longleftrightarrow> c = d"
  using hex_fixed_inj [of "unat c" 8 "unat d"] unat_u32_less [of c] unat_u32_less [of d]
  by (simp add: BuildEtag_def word_unat_eq_iff)

lemma BuildEtag_nonempty [simp]: "BuildEtag c \<noteq> []"
  using length_BuildEtag [of c] by (metis list.size(3) zero_neq_numeral)

section \<open>GdsPut on its branches\<close>

definition put_accepts :: "'s cuobj_api \<Rightarrow> BackendGdsSink \<times> 's server \<Rightarrow> GdsChunkRequest \<Rightarrow> bool" where
  "put_accepts api st rq \<longleftrightarrow> gcq_upload_id rq = [] \<and> gcq_rdma_token rq \<noteq> [] \<and> Sink_available api st"

lemma GdsPut_refused:
  "\<not> put_accepts api st rq \<Longrightarrow>
   \<exists>msg. backend_GdsPut api notify svc rq (st, p) = (Inl (SetFailedReason msg), st, p)"
  by (auto simp: backend_GdsPut_def put_accepts_def)

lemma GdsPut_sink:
  "put_accepts api st rq \<Longrightarrow>
   fst (snd (backend_GdsPut api notify svc rq (st, p))) =
     snd (ReceiveAndDiscard api (BuildObjectId (gcq_bucket rq) (gcq_object_key rq))
       (gcq_rdma_token rq) (gcq_chunk_size rq) st)"
  by (simp add: backend_GdsPut_def put_accepts_def Let_def split: prod.split)

lemma GdsPut_ready:
  assumes "sink_ready st"
  shows "sink_ready (fst (snd (backend_GdsPut api notify svc rq (st, p))))"
proof (cases "put_accepts api st rq")
  case True
  then show ?thesis using assms Receive_ready [of "fst st" "snd st"] by (simp add: GdsPut_sink)
next
  case False
  then show ?thesis using assms GdsPut_refused [of api st rq notify svc p] by auto
qed

text \<open>A failed \<open>GdsPut\<close> leaves the proxy alone; a successful one reports what it answers.\<close>

definition report_of :: "GdsChunkRequest \<Rightarrow> GdsChunkResponse \<Rightarrow> ReportGdsPutRequest" where
  "report_of rq resp = \<lparr>rgq_session_id = gcq_session_id rq, rgq_etag = gcr_etag resp,
     rgq_crc32c = gcr_crc32c resp, rgq_bytes_transferred = gcr_bytes_received resp\<rparr>"

lemma GdsPut_failed_proxy:
  assumes "backend_GdsPut api notify svc rq (st, p) = (Inl e, st', p')"
  shows "p' = p"
  using assms by (auto simp: backend_GdsPut_def Let_def split: if_splits prod.splits)

lemma GdsPut_ok:
  assumes "backend_GdsPut api notify svc rq (st, p) = (Inr resp, st', p')"
  obtains outcome where "put_accepts api st rq"
    "ReceiveAndDiscard api (BuildObjectId (gcq_bucket rq) (gcq_object_key rq)) (gcq_rdma_token rq)
       (gcq_chunk_size rq) st = (outcome, st')" "do_ok outcome"
    "resp = empty_GdsChunkResponse\<lparr>gcr_etag := BuildEtag (do_crc32c outcome),
       gcr_bytes_received := do_bytes_transferred outcome, gcr_crc32c := do_crc32c outcome\<rparr>"
    "p' = (case proxy_stub svc of None \<Rightarrow> p | Some ep \<Rightarrow> snd (notify ep (report_of rq resp) p))"
  using assms that
  by (auto simp: backend_GdsPut_def put_accepts_def report_of_def empty_GdsChunkResponse_def Let_def
      split: if_splits prod.splits cong: option.case_cong)

text \<open>Requests one after the other.\<close>

fun backend_serve ::
  "'s cuobj_api \<Rightarrow> 'p notify_proxy \<Rightarrow> BackendDataPlaneService \<Rightarrow> GdsChunkRequest list \<Rightarrow>
   (BackendGdsSink \<times> 's server) \<times> 'p \<Rightarrow> (BackendGdsSink \<times> 's server) \<times> 'p" where
  "backend_serve api notify svc [] y = y"
| "backend_serve api notify svc (q # qs) y =
     backend_serve api notify svc qs (snd (backend_GdsPut api notify svc q y))"

lemma backend_serve_ready:
  "sink_ready (fst y) \<Longrightarrow> sink_ready (fst (backend_serve api notify svc qs y))"
proof (induction qs arbitrary: y)
  case (Cons q qs)
  then show ?case using GdsPut_ready [of "fst y" api notify svc q "snd y"] by simp
qed simp

end
