(* ===== verification/Example_Server.thy ===== *)
theory Example_Server
  imports Gds_Sink
begin

text \<open>
  A concrete server library for the witnesses: addresses are handed out in order, every
  registration succeeds, a transfer fills the whole buffer, and the memory holds one byte value
  everywhere. The state is the next free address.
\<close>

definition demo_server :: "nat cuobj_api" where
  "demo_server =
     \<lparr>api_create = (\<lambda>host port s. s), api_destroy = (\<lambda>s. s), api_connected = (\<lambda>s. True),
      api_alloc = (\<lambda>n s. (word_of_nat s, s + 1)),
      api_register = (\<lambda>p n s. (word_of_nat s, s + 1)),
      api_deregister = (\<lambda>p s. s), api_free = (\<lambda>p s. s), api_invalid_channel = 65535,
      api_alloc_channel = (\<lambda>s. (7, s)), api_free_channel = (\<lambda>c s. s),
      api_handle_put = (\<lambda>obj r start n tok c s. ((uint n, 0), s)),
      api_bytes = (\<lambda>p n s. replicate n 0x55),
      api_status_str = (\<lambda>n. None)\<rparr>"

definition demo_boot :: "nat server" where
  "demo_boot = \<lparr>srv_state = 1, srv_calls = []\<rparr>"

lemma demo_server_simps [simp]:
  "api_create demo_server host port s = s" "api_destroy demo_server s = s"
  "api_connected demo_server s" "api_alloc demo_server n s = (word_of_nat s, s + 1)"
  "api_register demo_server p n s = (word_of_nat s, s + 1)"
  "api_deregister demo_server p s = s" "api_free demo_server p s = s"
  "api_invalid_channel demo_server = 65535" "api_alloc_channel demo_server s = (7, s)"
  "api_free_channel demo_server c s = s"
  "api_handle_put demo_server obj r start n tok c s = ((uint n, 0), s)"
  "api_bytes demo_server p k s = replicate k 0x55" "api_status_str demo_server st = None"
  by (simp_all add: demo_server_def)

text \<open>The sink of a backend that was started on this library, and one transfer through it.\<close>

definition demo_backend :: "BackendGdsSink \<times> nat server" where
  "demo_backend = snd (Sink_Start demo_server (new_sink ''h'' 1 True, demo_boot))"

lemma demo_backend_started:
  "Sink_Start demo_server (new_sink ''h'' 1 True, demo_boot) = (True, demo_backend)"
  "Sink_available demo_server demo_backend"
  by (simp_all add: demo_backend_def Sink_available_def Sink_Start_def Let_def srv_connected_def)

lemma demo_receive:
  "\<exists>st'. ReceiveAndDiscard demo_server object_id token 3 demo_backend =
     (\<lparr>do_ok = True, do_error = [], do_bytes_transferred = 3, do_crc32c = Crc32c [0x55, 0x55, 0x55]\<rparr>, st')"
proof -
  let ?p = "new_pool BufferSizeClasses kBufferMaxPerClass"
  obtain k w where kw: "demo_backend = (k, w)" by force
  have p: "sink_pool k = Some ?p" and srv: "srv_state w = 1" and c: "compute_crc32c k"
    using kw by (auto simp: demo_backend_def Sink_Start_def Let_def srv_connected_def srv_create_def
        demo_boot_def logged_def new_sink_def)
  have cls: "sort BufferSizeClasses = BufferSizeClasses" by (simp add: BufferSizeClasses_def)
  have three: "replicate 3 x = [x, x, x]" for x :: u8 by (simp add: numeral_3_eq_3)
  obtain p1 w1 where a: "Acquire demo_server 3 (?p, w) =
      (\<lparr>le_pool = True, le_data = 1, le_capacity = 1048576, le_mr = 2, le_size_class = 0\<rparr>, p1, w1)"
    by (simp add: Acquire_def PickClass_def new_pool_def cls BufferSizeClasses_def srv_alloc_def
        srv_register_def logged_def srv Let_def)
  show ?thesis
    by (simp add: kw ReceiveAndDiscard_def take_lease_Some [OF p a] kMaxChunkBytes_def lease_ok_def
        srv_alloc_channel_def logged_def srv_handle_put_def new_outcome_def c Let_def three)
qed

end
