(* ===== verification/Backend_Properties.thy ===== *)
theory Backend_Properties
  imports Data_Plane_Service Example_Server
begin

text \<open>
  The properties of the backend: the pool of pinned buffers under any use, the data sink from
  start to stop, and the RPC service on top of it.
\<close>

section \<open>Any use of a pool\<close>

text \<open>
  What the holders of leases can do: acquire, give back one of the leases held, or shut the
  pool down. The state carries the leases that are out.
\<close>

datatype pool_use = UseAcquire u64 | UseGiveBack nat | UseShutdown

fun pool_step ::
  "'s cuobj_api \<Rightarrow> pool_use \<Rightarrow> PinnedBufferLease list \<times> PinnedBufferPool \<times> 's server \<Rightarrow>
   PinnedBufferLease list \<times> PinnedBufferPool \<times> 's server" where
  "pool_step api (UseAcquire n) (ls, st) =
     (let (l, st') = Acquire api n st in (if lease_ok l then l # ls else ls, st'))"
| "pool_step api (UseGiveBack k) (ls, st) =
     (if k < length ls
      then (take k ls @ drop (Suc k) ls, snd (Lease_Release api (ls ! k) st)) else (ls, st))"
| "pool_step api UseShutdown (ls, st) = (ls, Shutdown api st)"

definition pool_uses ::
  "'s cuobj_api \<Rightarrow> u64 list \<Rightarrow> nat \<Rightarrow> 's \<Rightarrow> pool_use list \<Rightarrow>
   PinnedBufferLease list \<times> PinnedBufferPool \<times> 's server" where
  "pool_uses api classes mx s uses =
     fold (pool_step api) uses ([], new_pool classes mx, \<lparr>srv_state = s, srv_calls = []\<rparr>)"

lemma mset_take_drop: "k < length ls \<Longrightarrow> mset (ls ! k # take k ls @ drop (Suc k) ls) = mset ls"
  by (metis Cons_nth_drop_Suc append_take_drop_id mset.simps(2) mset_append union_mset_add_mset_right)

lemma pool_step_holds:
  assumes "pool_holds {#} ls st"
  shows "case pool_step api u (ls, st) of (ls', st') \<Rightarrow> pool_holds {#} ls' st'"
proof (cases u)
  case (UseAcquire n)
  obtain l st' where a: "Acquire api n st = (l, st')" by (metis surj_pair)
  then show ?thesis using Acquire_holds [OF assms a] UseAcquire by simp
next
  case (UseGiveBack k)
  show ?thesis
  proof (cases "k < length ls")
    case True
    have "mset (ls ! k # take k ls @ drop (Suc k) ls) = mset ls" using mset_take_drop [OF True] .
    then have "pool_holds {#} (ls ! k # take k ls @ drop (Suc k) ls) st"
      using pinned_pool.holds_mset [OF assms] by blast
    then have "pool_holds {#} (take k ls @ drop (Suc k) ls) (snd (Lease_Release api (ls ! k) st))"
      using Lease_Release_holds by (metis prod.collapse)
    then show ?thesis using UseGiveBack True by simp
  qed (use assms UseGiveBack in simp)
next
  case UseShutdown
  then show ?thesis using Shutdown_holds [OF assms] by simp
qed

lemma pool_step_static:
  "pool_step api u (ls, st) = (ls', st') \<Longrightarrow>
   size_classes (fst st') = size_classes (fst st) \<and> max_per_class (fst st') = max_per_class (fst st)"
  by (cases u; cases st)
    (auto simp: Acquire_eq Lease_Release_def Pool_Release_def Shutdown_def Let_def
      split: if_splits prod.splits)

lemma pool_uses_inv:
  assumes "pool_uses api classes mx s uses = (ls, st)"
  shows "pool_holds {#} ls st" "size_classes (fst st) = sort classes" "max_per_class (fst st) = mx"
proof -
  have step: "pool_holds {#} ls' st' \<and> size_classes (fst st') = size_classes (fst st0) \<and>
      max_per_class (fst st') = max_per_class (fst st0)"
    if "pool_holds {#} ls0 st0" "fold (pool_step api) us (ls0, st0) = (ls', st')" for us ls0 st0 ls' st'
    using that
  proof (induction us arbitrary: ls0 st0)
    case (Cons u us)
    obtain ls1 st1 where u: "pool_step api u (ls0, st0) = (ls1, st1)" by (metis surj_pair)
    then show ?case
      using Cons.IH [of ls1 st1] Cons.prems pool_step_holds [of ls0 st0 api u] pool_step_static [OF u]
      by auto
  qed simp
  have "pool_holds {#} [] (new_pool classes mx, \<lparr>srv_state = s, srv_calls = []\<rparr>)"
    by (rule new_pool_holds) (simp add: pool_simps empty_ledger_def)
  from step [OF this assms [unfolded pool_uses_def]]
  show "pool_holds {#} ls st" "size_classes (fst st) = sort classes" "max_per_class (fst st) = mx"
    by (simp_all add: new_pool_def)
qed

text \<open>
  Whatever was done with the pool, after a shutdown and the return of the leases still out
  every host buffer is freed and every registration removed, each exactly once.
\<close>

theorem pool_never_leaks:
  "case pool_uses api classes mx s uses of (ls, st) \<Rightarrow>
     ledger_of (srv_calls (snd (fold (\<lambda>l st. snd (Lease_Release api l st)) ls (Shutdown api st)))) =
       Some empty_ledger"
proof -
  obtain ls st where u: "pool_uses api classes mx s uses = (ls, st)" by (metis surj_pair)
  then show ?thesis
    using pinned_pool.drained [OF pool_uses_inv(1) [OF u]]
    by (simp add: pool_idle_def empty_ledger_def)
qed

text \<open>
  C28: a lease that was granted holds a buffer at least as large as asked for, and when it is
  of a size class, of exactly that class's size, every smaller class being too small.
\<close>

theorem granted_lease_fits:
  assumes "pool_uses api classes mx s uses = (ls, st)" and "Acquire api n st = (l, st')"
    and "lease_ok l"
  shows "n \<le> le_capacity l \<and>
     (le_size_class l = length classes \<and> le_capacity l = n \<or>
      le_size_class l < length classes \<and> le_capacity l = sort classes ! le_size_class l) \<and>
     list_all (\<lambda>c. c < n) (take (le_size_class l) (sort classes))"
proof -
  note inv = pool_uses_inv [OF assms(1)]
  obtain p w where st: "st = (p, w)" by force
  have cls: "size_classes p = sort classes" using inv(2) st by simp
  let ?i = "PickClass p n"
  have i: "le_size_class l = ?i" "?i = length (size_classes p) \<longrightarrow> le_capacity l = n"
    using assms(2,3) st
    by (auto simp: Acquire_eq Let_def lease_fresh_def lease_of_def split: if_splits prod.splits option.splits)
  have "lease_wf (fst st') l"
    using Acquire_holds [OF inv(1) assms(2)] assms(3) by (simp add: pool_holds_def)
  moreover have "size_classes (fst st') = sort classes"
    using Acquire_static [of api n p w l "fst st'" "snd st'"] assms(2) st cls by simp
  moreover have "list_all (\<lambda>c. c < n) (take ?i (sort classes))"
    using pick_class_first [of _ "sort classes" n] PickClass_le [of p n]
    by (auto simp: list_all_length PickClass_def cls)
  ultimately show ?thesis
    using Acquire_capacity [OF inv(1) assms(2,3)] i PickClass_le [of p n] cls
    by (auto simp: lease_wf_def)
qed

theorem granted_lease_fits_witness:
  "\<exists>l st'. Acquire demo_server 5 (snd (pool_uses demo_server [16, 4] 2 1 [UseAcquire 3])) = (l, st') \<and>
     5 \<le> le_capacity l"
proof -
  obtain ls st where u: "pool_uses demo_server [16, 4] 2 1 [UseAcquire 3] = (ls, st)" by (metis surj_pair)
  obtain l st' where a: "Acquire demo_server 5 st = (l, st')" by (metis surj_pair)
  have "lease_ok l"
    using u a by (auto simp: pool_uses_def Acquire_def new_pool_def PickClass_def demo_server_def
        srv_alloc_def srv_register_def logged_def lease_ok_def Let_def)
  from granted_lease_fits [OF u a this] show ?thesis using u a by auto
qed

text \<open>
  No free list ever holds more buffers than the limit of its class, and a pool that was
  shut down holds none.
\<close>

theorem free_lists_bounded:
  "case pool_uses api classes mx s uses of (ls, p, w) \<Rightarrow>
     length (buckets p) = length classes \<and> list_all (\<lambda>b. length b \<le> mx) (buckets p) \<and>
     (\<not> shut p \<or> concat (buckets p) = [])"
proof -
  obtain ls p w where u: "pool_uses api classes mx s uses = (ls, p, w)" by (metis prod.collapse)
  have "pool_wf p" "size_classes p = sort classes" "max_per_class p = mx"
    using pool_uses_inv [OF u] by (simp_all add: pool_holds_def)
  then show ?thesis by (auto simp: u pool_wf_def list_all_length)
qed

theorem free_lists_bounded_witness:
  "case pool_uses demo_server [4, 16] 1 1 [UseAcquire 3, UseGiveBack 0, UseShutdown] of (ls, p, w) \<Rightarrow>
     shut p \<and> length (buckets p) = 2 \<and> concat (buckets p) = []"
proof -
  obtain ls p w where u: "pool_uses demo_server [4, 16] 1 1 [UseAcquire 3, UseGiveBack 0, UseShutdown]
      = (ls, p, w)" by (metis prod.collapse)
  have "shut p"
    using u by (auto simp: pool_uses_def Shutdown_def Let_def case_prod_unfold split: if_splits)
  then show ?thesis
    using free_lists_bounded [where api = demo_server and classes = "[4, 16]" and mx = 1 and s = 1
        and uses = "[UseAcquire 3, UseGiveBack 0, UseShutdown]"]
    unfolding u prod.case by simp
qed

section \<open>The backend from start to stop\<close>

text \<open>
  C5: a backend that started, served any requests and was stopped has freed every host buffer,
  removed every registration before the server object went away, and freed every channel,
  each exactly once.
\<close>

theorem backend_lifetime_clean:
  assumes "Sink_Start api (new_sink host port crc, \<lparr>srv_state = s, srv_calls = []\<rparr>) = (True, st)"
  shows "ledger_of (srv_calls (snd (Sink_Stop api (fst (backend_serve api notify svc qs (st, p)))))) =
     Some empty_ledger"
proof -
  have "sink_ready st" using Start_ready [OF assms] by (simp add: pool_simps)
  then have "sink_ready (fst (backend_serve api notify svc qs (st, p)))"
    by (intro backend_serve_ready) simp
  then show ?thesis by (rule Stop_clean)
qed

definition demo_chunk :: GdsChunkRequest where
  "demo_chunk = empty_GdsChunkRequest
     \<lparr>gcq_session_id := ''a'', gcq_bucket := ''b'', gcq_object_key := ''k'', gcq_chunk_size := 3,
      gcq_rdma_token := ''00000000000000ff:1''\<rparr>"

lemma demo_start:
  "\<exists>st. Sink_Start demo_server (new_sink ''h'' 1 True, \<lparr>srv_state = 1, srv_calls = []\<rparr>) = (True, st)"
  by (simp add: Sink_Start_def Let_def srv_connected_def demo_server_def)

theorem backend_lifetime_clean_witness:
  "\<exists>st. Sink_Start demo_server (new_sink ''h'' 1 True, \<lparr>srv_state = 1, srv_calls = []\<rparr>) = (True, st) \<and>
     ledger_of (srv_calls (snd (Sink_Stop demo_server (fst (backend_serve demo_server
       (\<lambda>ep q p. (Inr \<lparr>rgr_accepted = True\<rparr>, p)) \<lparr>bs_gateway_id = ''g'', proxy_stub = Some ''h:2''\<rparr>
       [demo_chunk, demo_chunk] (st, ()))))))  = Some empty_ledger"
  using demo_start backend_lifetime_clean by metis

lemma token_address:
  "ParseRemoteBufferAddress (hex_fixed 16 (unat a) @ CHR '':'' # rest) = a"
proof -
  have digits: "c \<noteq> CHR '':'' \<and> c \<noteq> CHR 0x00" if "c \<in> set (hex_fixed 16 (unat a))" for c
  proof -
    have "hex_val c \<noteq> None" using hex_fixed_digits [of 16 "unat a"] that by (simp add: list_all_iff)
    moreover have "hex_val (CHR '':'') = None" "hex_val (CHR 0x00) = None" by (simp_all add: hex_val_def)
    ultimately show ?thesis by auto
  qed
  have "takeWhile (\<lambda>c. c \<noteq> CHR '':'') (hex_fixed 16 (unat a) @ CHR '':'' # rest) = hex_fixed 16 (unat a)"
    using digits by (subst takeWhile_append2) auto
  moreover have "c_str (hex_fixed 16 (unat a)) = hex_fixed 16 (unat a)"
    unfolding c_str_def using digits by (intro takeWhile_eq_all_conv [THEN iffD2]) auto
  moreover have "hex_fixed 16 (unat a) \<noteq> []" using length_hex_fixed [of 16 "unat a"] by (metis list.size(3) zero_neq_numeral)
  ultimately show ?thesis
    by (simp add: ParseRemoteBufferAddress_def strtoull16_hex_fixed)
qed

text \<open>
  C38: what \<open>GdsPut\<close> answers a request of at least one byte, in a backend between requests. When it
  succeeds, the pool leased a buffer at least as large as the request, the answer's byte count is
  what the library reports for the transfer into it, as an unsigned 64-bit number, and its
  checksum is that of as many bytes of the buffer as the answer counts, or 0 when the sink was set
  up without checksums; the tag is the checksum's text. Nothing compares the library's count with
  the size that was asked for. When it fails, the request was refused, was larger than a chunk may
  be, or the library or the pool failed, and the proxy was not told anything.
\<close>

theorem gdsput_answers_what_landed:
  assumes "sink_ready st" and "gcq_chunk_size rq \<noteq> 0"
    and "backend_GdsPut api notify svc rq (st, p) = (result, st', p')"
  shows "let landing = transfer_of api (BuildObjectId (gcq_bucket rq) (gcq_object_key rq)) (gcq_rdma_token rq)
           (gcq_chunk_size rq) st
     in case result of
          Inr resp \<Rightarrow> put_accepts api st rq \<and> gcq_chunk_size rq \<le> kMaxChunkBytes \<and>
            (\<exists>l tr s. landing = Some (l, tr, s) \<and> lease_ok l \<and> gcq_chunk_size rq \<le> le_capacity l \<and> 0 \<le> tr \<and>
               gcr_bytes_received resp = word_of_int tr \<and>
               gcr_crc32c resp = (if compute_crc32c (fst st)
                 then Crc32c (api_bytes api (le_data l) (unat (gcr_bytes_received resp)) s) else 0)) \<and>
            gcr_etag resp = BuildEtag (gcr_crc32c resp)
        | Inl e \<Rightarrow> p' = p \<and> (\<not> put_accepts api st rq \<or> kMaxChunkBytes < gcq_chunk_size rq \<or> landing = None)"
proof -
  let ?obj = "BuildObjectId (gcq_bucket rq) (gcq_object_key rq)"
  obtain outcome st1 where r: "ReceiveAndDiscard api ?obj (gcq_rdma_token rq) (gcq_chunk_size rq) st = (outcome, st1)"
    by (metis surj_pair)
  note rec = Receive_transfer [OF assms(1,2) r]
  show ?thesis
  proof (cases result)
    case (Inl e)
    have "put_accepts api st rq \<Longrightarrow> \<not> do_ok outcome"
      using assms(3) r Inl by (auto simp: backend_GdsPut_def put_accepts_def Let_def split: if_splits)
    then show ?thesis using rec GdsPut_failed_proxy [OF assms(3) [unfolded Inl]] by (auto simp: Inl)
  next
    case (Inr resp)
    from GdsPut_ok [OF assms(3) [unfolded Inr]] obtain o2 where g: "put_accepts api st rq"
        "ReceiveAndDiscard api ?obj (gcq_rdma_token rq) (gcq_chunk_size rq) st = (o2, st')" "do_ok o2"
        "resp = empty_GdsChunkResponse\<lparr>gcr_etag := BuildEtag (do_crc32c o2),
           gcr_bytes_received := do_bytes_transferred o2, gcr_crc32c := do_crc32c o2\<rparr>"
      by metis
    then have "do_ok outcome" and o2: "o2 = outcome" using r by simp_all
    with rec obtain l tr s where t: "gcq_chunk_size rq \<le> kMaxChunkBytes"
        "transfer_of api ?obj (gcq_rdma_token rq) (gcq_chunk_size rq) st = Some (l, tr, s)"
        "do_bytes_transferred outcome = word_of_int tr"
        "do_crc32c outcome = (if compute_crc32c (fst st) then Crc32c (arrived api (l, tr, s)) else 0)"
      by auto
    show ?thesis
      using g(1,4) t transfer_capacity [OF assms(1) t(2)]
      by (simp add: Inr o2 empty_GdsChunkResponse_def arrived_def)
  qed
qed

theorem gdsput_answers_what_landed_witness:
  "\<exists>resp st' l tr s. backend_GdsPut demo_server (\<lambda>ep q p. (Inr \<lparr>rgr_accepted = True\<rparr>, p))
       \<lparr>bs_gateway_id = ''g'', proxy_stub = None\<rparr> demo_chunk (demo_backend, ()) = (Inr resp, st', ()) \<and>
     transfer_of demo_server ''b/k'' ''00000000000000ff:1'' 3 demo_backend = Some (l, tr, s) \<and>
     gcr_bytes_received resp = 3 \<and> 3 \<le> le_capacity l \<and>
     gcr_crc32c resp = Crc32c (api_bytes demo_server (le_data l) 3 s) \<and>
     gcr_etag resp = BuildEtag (gcr_crc32c resp)"
proof -
  let ?svc = "\<lparr>bs_gateway_id = ''g'', proxy_stub = None\<rparr>"
  have q: "gcq_upload_id demo_chunk = []" "gcq_rdma_token demo_chunk = ''00000000000000ff:1''"
      "gcq_chunk_size demo_chunk = 3" "BuildObjectId (gcq_bucket demo_chunk) (gcq_object_key demo_chunk) = ''b/k''"
    by (simp_all add: demo_chunk_def empty_GdsChunkRequest_def BuildObjectId_def)
  obtain resp st' where put: "backend_GdsPut demo_server (\<lambda>ep q p. (Inr \<lparr>rgr_accepted = True\<rparr>, p)) ?svc
      demo_chunk (demo_backend, ()) = (Inr resp, st', ())" and three: "gcr_bytes_received resp = 3"
    using demo_receive [of "''b/k''" "''00000000000000ff:1''"] demo_backend_started(2) q
    by (auto simp: backend_GdsPut_def Let_def)
  have ready: "sink_ready demo_backend"
    using Start_ready [OF demo_backend_started(1)] by (simp add: demo_boot_def pool_simps)
  have crc: "compute_crc32c (fst demo_backend)"
    by (simp add: demo_backend_def Sink_Start_def Let_def srv_connected_def new_sink_def)
  have "gcq_chunk_size demo_chunk \<noteq> 0" using q(3) by simp
  from gdsput_answers_what_landed [OF ready this put] obtain l tr s where
      "transfer_of demo_server ''b/k'' ''00000000000000ff:1'' 3 demo_backend = Some (l, tr, s)" "3 \<le> le_capacity l"
      "gcr_crc32c resp = Crc32c (api_bytes demo_server (le_data l) 3 s)" "gcr_etag resp = BuildEtag (gcr_crc32c resp)"
    unfolding q Let_def using crc three by auto
  then show ?thesis using put three by blast
qed

text \<open>
  A \<open>GdsPut\<close> that fails leaves the proxy alone and the sink ready for the next request,
  and one that is refused before the transfer (multipart, no token, no server) touches nothing.
\<close>

theorem failed_gdsput_leaves_proxy:
  assumes "sink_ready st" and "backend_GdsPut api notify svc rq (st, p) = (Inl e, st', p')"
  shows "p' = p \<and> sink_ready st' \<and> (put_accepts api st rq \<or> st' = st)"
  using GdsPut_failed_proxy [OF assms(2)] GdsPut_ready [OF assms(1), of api notify svc rq p]
    GdsPut_refused [of api st rq notify svc p] assms(2) by auto

theorem failed_gdsput_leaves_proxy_witness:
  "\<exists>st. Sink_Start demo_server (new_sink ''h'' 1 True, \<lparr>srv_state = 1, srv_calls = []\<rparr>) = (True, st) \<and>
     (let (r, st', p') = backend_GdsPut demo_server (\<lambda>ep q p. (Inr \<lparr>rgr_accepted = True\<rparr>, p + 1))
            \<lparr>bs_gateway_id = ''g'', proxy_stub = Some ''h:2''\<rparr> (demo_chunk\<lparr>gcq_upload_id := ''u''\<rparr>)
            (st, 0 :: nat)
      in p' = 0 \<and> sink_ready st')"
proof -
  obtain st where st: "Sink_Start demo_server (new_sink ''h'' 1 True, \<lparr>srv_state = 1, srv_calls = []\<rparr>)
      = (True, st)" using demo_start by blast
  have "sink_ready st" using Start_ready [OF st] by (simp add: pool_simps)
  moreover have "backend_GdsPut demo_server (\<lambda>ep q p. (Inr \<lparr>rgr_accepted = True\<rparr>, p + 1))
      \<lparr>bs_gateway_id = ''g'', proxy_stub = Some ''h:2''\<rparr> (demo_chunk\<lparr>gcq_upload_id := ''u''\<rparr>) (st, 0 :: nat)
      = (Inl (SetFailedReason kNotImplemented), st, 0)"
    by (simp add: backend_GdsPut_def)
  ultimately show ?thesis using failed_gdsput_leaves_proxy st by fastforce
qed

section \<open>The largest class takes every request\<close>

text \<open>Requests within the chunk limit never take the oversize path of the pool.\<close>

lemma PickClass_sink: "n \<le> kMaxChunkBytes \<Longrightarrow> pick_class BufferSizeClasses n < length BufferSizeClasses"
  by (simp add: BufferSizeClasses_def kMaxChunkBytes_def)

definition never_oversize :: "BackendGdsSink \<Rightarrow> bool" where
  "never_oversize k \<longleftrightarrow> (\<forall>p. sink_pool k = Some p \<longrightarrow> size_classes p = BufferSizeClasses \<and> oversize_total p = 0)"

lemma Acquire_oversize:
  "Acquire api n (p, w) = (l, p', w') \<Longrightarrow> size_classes p = BufferSizeClasses \<Longrightarrow>
   n \<le> kMaxChunkBytes \<Longrightarrow> size_classes p' = BufferSizeClasses \<and> oversize_total p' = oversize_total p"
  using PickClass_sink [of n]
  by (auto simp: Acquire_eq Let_def PickClass_def split: if_splits prod.splits)

lemma Release_oversize: "oversize_total (fst (snd (Lease_Release api l (p, w)))) = oversize_total p"
  "size_classes (fst (snd (Lease_Release api l (p, w)))) = size_classes p"
  by (auto simp: Lease_Release_def Pool_Release_def Let_def)

lemma Receive_oversize:
  assumes "never_oversize k"
  shows "never_oversize (fst (snd (ReceiveAndDiscard api obj tok n (k, w))))"
proof (cases "kMaxChunkBytes < n \<or> n = 0 \<or> sink_pool k = None")
  case True
  then show ?thesis
    using assms by (auto simp: ReceiveAndDiscard_def take_lease_def end_lease_def never_oversize_def
        lease_ok_def null_lease_def)
next
  case False
  then obtain p where p: "sink_pool k = Some p" by auto
  obtain l p1 w1 where a: "Acquire api n (p, w) = (l, p1, w1)" by (metis prod.collapse)
  have p1: "size_classes p1 = BufferSizeClasses \<and> oversize_total p1 = 0"
    using Acquire_oversize [OF a] assms p False by (auto simp: never_oversize_def not_less)
  obtain outcome k' w' where r: "ReceiveAndDiscard api obj tok n (k, w) = (outcome, k', w')"
    by (metis prod.collapse)
  have n: "n \<noteq> 0" "n \<le> kMaxChunkBytes" using False by auto
  obtain wm where "(k', w') = (k\<lparr>sink_pool := Some (fst (snd (Lease_Release api l (p1, wm))))\<rparr>,
      snd (snd (Lease_Release api l (p1, wm))))"
    using Receive_scope [OF p n a r] by blast
  then show ?thesis using r p1 by (simp add: never_oversize_def Release_oversize)
qed

lemma backend_serve_oversize:
  "never_oversize (fst (fst y)) \<Longrightarrow> never_oversize (fst (fst (backend_serve api notify svc qs y)))"
proof (induction qs arbitrary: y)
  case (Cons q qs)
  obtain k w p where y: "y = ((k, w), p)" by (metis prod.collapse)
  have "never_oversize (fst (fst (snd (backend_GdsPut api notify svc q y))))"
  proof (cases "put_accepts api (k, w) q")
    case True
    then show ?thesis using Cons.prems Receive_oversize by (simp add: y GdsPut_sink)
  next
    case False
    then show ?thesis using Cons.prems GdsPut_refused [of api "(k, w)" q notify svc p] by (auto simp: y)
  qed
  then show ?case using Cons.IH by simp
qed simp

text \<open>
  A running backend never takes the pool's oversize path, whatever it is asked for: the
  check of the chunk limit and the largest size class agree.
\<close>

theorem backend_never_oversize:
  assumes "Sink_Start api (new_sink host port crc, w) = (True, st)"
    and "sink_pool (fst (fst (backend_serve api notify svc qs (st, p)))) = Some q"
  shows "oversize_total q = 0"
proof -
  have "never_oversize (fst st)"
    using assms(1) by (auto simp: Sink_Start_def Let_def never_oversize_def new_pool_def
        BufferSizeClasses_def split: if_splits)
  then show ?thesis
    using backend_serve_oversize [of "(st, p)" api notify svc qs] assms(2) by (simp add: never_oversize_def)
qed

theorem backend_never_oversize_witness:
  "\<exists>st q. Sink_Start demo_server (new_sink ''h'' 1 True, demo_boot) = (True, st) \<and>
     sink_pool (fst (fst (backend_serve demo_server (\<lambda>ep q p. (Inr \<lparr>rgr_accepted = True\<rparr>, p))
       \<lparr>bs_gateway_id = ''g'', proxy_stub = None\<rparr> [] (st, ())))) = Some q \<and> oversize_total q = 0"
proof -
  obtain st where st: "Sink_Start demo_server (new_sink ''h'' 1 True, demo_boot) = (True, st)"
    using demo_start by (auto simp: demo_boot_def)
  then obtain q where "sink_pool (fst st) = Some q"
    by (auto simp: Sink_Start_def Let_def split: if_splits)
  then have "sink_pool (fst (fst (backend_serve demo_server (\<lambda>ep q p. (Inr \<lparr>rgr_accepted = True\<rparr>, p))
      \<lparr>bs_gateway_id = ''g'', proxy_stub = None\<rparr> [] (st, ())))) = Some q" by simp
  from backend_never_oversize [OF st this] this st show ?thesis by blast
qed

section \<open>Tokens and tags\<close>

text \<open>
  The address of a token \<open><address in 16 hex digits>:<rest>\<close> is read back, whatever the
  rest is.
\<close>

theorem token_address_round_trip:
  "ParseRemoteBufferAddress (hex_fixed 16 (unat a) @ CHR '':'' # rest) = a"
  by (rule token_address)

text \<open>
  Every tag has eight characters, and different checksums have different tags.
\<close>

theorem tags_identify_checksums:
  "length (BuildEtag c) = 8 \<and> (BuildEtag c = BuildEtag d \<longleftrightarrow> c = d)"
  by (simp add: BuildEtag_inj)

end
