(* ===== verification/Client_Contracts.thy ===== *)
theory Client_Contracts
  imports Prelude
begin

text \<open>
  The client's plain data (\<open>client/include/us3_turbo/client/{options,types}.h\<close> and
  \<open>client/src/contracts/requests.h\<close>) and the factory that builds it
  (\<open>client/src/contracts/request_builder.cpp\<close>). Durations are integers in milliseconds; the
  generator behind \<open>MakeId\<close> is a parameter, a function that draws one 64-bit number.
\<close>

section \<open>Options and requests\<close>

record ClientOptions =
  endpoint :: string
  default_timeout :: int
  request_timeout :: int
  gds_data_endpoint :: string
  put_single_max_bytes :: u64
  verify_crc32c :: bool
  latency_trace :: bool

definition default_options :: ClientOptions where
  "default_options =
     \<lparr>endpoint = [], default_timeout = 30000, request_timeout = 5 * 60 * 1000,
      gds_data_endpoint = [], put_single_max_bytes = 1 * 1024 * 1024 * 1024,
      verify_crc32c = False, latency_trace = False\<rparr>"

datatype DataFlow = GPUDirect

fun DataFlow_ToString :: "DataFlow \<Rightarrow> string" where
  "DataFlow_ToString GPUDirect = ''gds-cuobject''"

record PutObjectRequest =
  por_bucket :: string
  por_key :: string
  por_timeout :: int
  por_expected_size :: "u64 option"

definition default_put_request :: PutObjectRequest where
  "default_put_request =
     \<lparr>por_bucket = [], por_key = [], por_timeout = 30000, por_expected_size = None\<rparr>"

text \<open>The fluent setters; each returns the request it was called on.\<close>

definition set_bucket :: "string \<Rightarrow> PutObjectRequest \<Rightarrow> PutObjectRequest" where
  "set_bucket v request = request\<lparr>por_bucket := v\<rparr>"

definition set_key :: "string \<Rightarrow> PutObjectRequest \<Rightarrow> PutObjectRequest" where
  "set_key v request = request\<lparr>por_key := v\<rparr>"

definition set_timeout :: "int \<Rightarrow> PutObjectRequest \<Rightarrow> PutObjectRequest" where
  "set_timeout v request = request\<lparr>por_timeout := v\<rparr>"

definition set_expected_size :: "u64 \<Rightarrow> PutObjectRequest \<Rightarrow> PutObjectRequest" where
  "set_expected_size v request = request\<lparr>por_expected_size := Some v\<rparr>"

lemmas setter_defs [simp] = set_bucket_def set_key_def set_timeout_def set_expected_size_def

record ConstBufferView =
  cbv_data :: u64 \<comment> \<open>a device address, 0 for \<open>nullptr\<close>\<close>
  cbv_size :: u64

record TransferOutcome =
  to_bytes_transferred :: u64
  to_request_id :: string
  to_session_id :: string
  to_etag :: string
  to_crc32c :: u32

record PutAttempt =
  pa_timeout :: int
  pa_bucket :: string
  pa_key :: string
  pa_length :: "u64 option"
  pa_request_id :: string
  pa_session_id :: string

record SessionGrant =
  sg_ticket :: string

record GdsPutResult =
  gpr_etag :: string
  gpr_crc32c :: u32

section \<open>The factory\<close>

definition kRequestIdPrefix :: string where
  "kRequestIdPrefix = ''req-''"

definition kClientSessionIdPrefix :: string where
  "kClientSessionIdPrefix = ''ses-''"

definition MakeId :: "('w \<Rightarrow> u64 \<times> 'w) \<Rightarrow> string \<Rightarrow> 'w \<Rightarrow> string \<times> 'w" where
  "MakeId rng prefix w = (let (value, w') = rng w in (prefix @ hex_fixed 16 (unat value), w'))"

definition MakeContext :: "ClientOptions \<Rightarrow> int \<Rightarrow> int" where
  "MakeContext opts timeout = (if timeout \<le> 0 then request_timeout opts else timeout)"

text \<open>The initialisers of the braced list are evaluated in order: request before session.\<close>

definition MakePutAttempt ::
  "('w \<Rightarrow> u64 \<times> 'w) \<Rightarrow> ClientOptions \<Rightarrow> PutObjectRequest \<Rightarrow> 'w \<Rightarrow> PutAttempt \<times> 'w" where
  "MakePutAttempt rng opts request w =
     (let (req_id, w1) = MakeId rng kRequestIdPrefix w;
          (ses_id, w2) = MakeId rng kClientSessionIdPrefix w1
      in (\<lparr>pa_timeout = MakeContext opts (por_timeout request),
           pa_bucket = por_bucket request,
           pa_key = por_key request,
           pa_length = por_expected_size request,
           pa_request_id = req_id,
           pa_session_id = ses_id\<rparr>, w2))"

definition MakeTransferOutcome ::
  "PutAttempt \<Rightarrow> GdsPutResult \<Rightarrow> ConstBufferView \<Rightarrow> TransferOutcome" where
  "MakeTransferOutcome attempt result buffer =
     \<lparr>to_bytes_transferred = cbv_size buffer,
      to_request_id = pa_request_id attempt,
      to_session_id = pa_session_id attempt,
      to_etag = gpr_etag result,
      to_crc32c = gpr_crc32c result\<rparr>"

section \<open>Identifiers\<close>

definition id_text :: "string \<Rightarrow> u64 \<Rightarrow> string" where
  "id_text prefix v = prefix @ hex_fixed 16 (unat v)"

lemma MakeId_text: "MakeId rng prefix w = (id_text prefix (fst (rng w)), snd (rng w))"
  by (simp add: MakeId_def id_text_def split: prod.split)

lemma id_text_inj: "id_text p v = id_text p v' \<longleftrightarrow> v = v'"
  using hex_fixed_inj [of "unat v" 16 "unat v'"] unat_u64_less [of v] unat_u64_less [of v']
  by (simp add: id_text_def word_unat_eq_iff)

lemma length_id_text: "length (id_text p v) = length p + 16"
  by (simp add: id_text_def)

lemma id_text_nonempty [simp]: "id_text p v \<noteq> []"
  using length_id_text [of p v] by (metis add_is_0 list.size(3) zero_neq_numeral)

text \<open>Request and session identifiers never coincide.\<close>

lemma id_text_kinds: "id_text kRequestIdPrefix v \<noteq> id_text kClientSessionIdPrefix v'"
  by (simp add: id_text_def kRequestIdPrefix_def kClientSessionIdPrefix_def)

lemma MakePutAttempt_ids:
  "MakePutAttempt rng opts rq w =
     (\<lparr>pa_timeout = MakeContext opts (por_timeout rq), pa_bucket = por_bucket rq,
       pa_key = por_key rq, pa_length = por_expected_size rq,
       pa_request_id = id_text kRequestIdPrefix (fst (rng w)),
       pa_session_id = id_text kClientSessionIdPrefix (fst (rng (snd (rng w))))\<rparr>,
      snd (rng (snd (rng w))))"
  by (simp add: MakePutAttempt_def MakeId_text)

lemma MakeContext_positive: "0 < request_timeout opts \<Longrightarrow> 0 < MakeContext opts t"
  by (simp add: MakeContext_def)

end
