(* ===== verification/Client_World.thy ===== *)
theory Client_World
  imports Messages Client_Contracts
begin

text \<open>
  Everything the client calls that is not under \<open>src/\<close>, as one record of functions over a
  state \<open>'s\<close>: the RPC runtime, the clock, the random generators, \<open>cudaMemcpy\<close> and the
  vendor's client library for RDMA. A \<open>world\<close> is that state with a log of the calls that
  matter for resources and protocol; the wrappers below make a call and log it, so that what
  the client did can be read off the log afterwards.
\<close>

section \<open>The parameters\<close>

record 's client_api =
  ca_channel_init :: "string \<Rightarrow> int \<Rightarrow> int" \<comment> \<open>endpoint, timeout: \<open>Channel::Init\<close>\<close>
  ca_open :: "string \<Rightarrow> int \<Rightarrow> OpenSessionRequest \<Rightarrow> 's \<Rightarrow> OpenSessionResponse rpc_result \<times> 's"
  ca_abort :: "string \<Rightarrow> int \<Rightarrow> AbortSessionRequest \<Rightarrow> 's \<Rightarrow> AbortSessionResponse rpc_result \<times> 's"
  ca_put :: "string \<Rightarrow> int \<Rightarrow> GdsChunkRequest \<Rightarrow> 's \<Rightarrow> GdsChunkResponse rpc_result \<times> 's"
  ca_rng :: "'s \<Rightarrow> u64 \<times> 's" \<comment> \<open>one draw of \<open>mt19937_64\<close>\<close>
  ca_jitter :: "'s \<Rightarrow> nat \<times> 's" \<comment> \<open>one draw of the jitter, in units of \<open>2 ^ -53\<close>\<close>
  ca_now :: "'s \<Rightarrow> int \<times> 's" \<comment> \<open>\<open>steady_clock\<close>, in nanoseconds\<close>
  ca_sleep :: "int \<Rightarrow> 's \<Rightarrow> 's" \<comment> \<open>milliseconds\<close>
  ca_memcpy :: "u64 \<Rightarrow> u64 \<Rightarrow> 's \<Rightarrow> (int \<times> u8 list) \<times> 's" \<comment> \<open>device to host\<close>
  ca_new_client :: "'s \<Rightarrow> bool \<times> 's" \<comment> \<open>the constructor of \<open>cuObjClient\<close> returned\<close>
  ca_is_connected :: "'s \<Rightarrow> bool"
  ca_get_descriptor :: "u64 \<Rightarrow> u64 \<Rightarrow> 's \<Rightarrow> int \<times> 's"
  ca_put_descriptor :: "u64 \<Rightarrow> 's \<Rightarrow> int \<times> 's"
  ca_get_token :: "u64 \<Rightarrow> u64 \<Rightarrow> u64 \<Rightarrow> 's \<Rightarrow> (int \<times> u64) \<times> 's" \<comment> \<open>status and \<open>char *\<close>\<close>
  ca_put_token :: "u64 \<Rightarrow> 's \<Rightarrow> 's"
  ca_token_text :: "u64 \<Rightarrow> 's \<Rightarrow> string"
  ca_malloc :: "u64 \<Rightarrow> 's \<Rightarrow> (int \<times> u64) \<times> 's" \<comment> \<open>\<open>cudaMalloc\<close>: status and pointer\<close>
  ca_upload :: "u64 \<Rightarrow> u8 list \<Rightarrow> 's \<Rightarrow> int \<times> 's" \<comment> \<open>\<open>cudaMemcpy\<close>, host to device\<close>
  ca_dev_free :: "u64 \<Rightarrow> 's \<Rightarrow> 's" \<comment> \<open>\<open>cudaFree\<close>\<close>

text \<open>\<open>CU_OBJ_SUCCESS\<close> and \<open>cudaSuccess\<close>.\<close>

definition CU_OBJ_SUCCESS :: int where
  "CU_OBJ_SUCCESS = 0"

definition cudaSuccess :: int where
  "cudaSuccess = 0"

section \<open>The world and its log\<close>

datatype client_event =
    EvOpen string bool \<comment> \<open>session id asked for; a response came\<close>
  | EvAbort string
  | EvPut string string bool \<comment> \<open>session id, token; a response came\<close>
  | EvSleep int
  | EvRegistered u64 u64
  | EvUnregistered u64 bool \<comment> \<open>deregistration was asked for; it succeeded\<close>
  | EvToken u64 \<comment> \<open>a token was issued\<close>
  | EvTokenBack u64 \<comment> \<open>a token was given back\<close>
  | EvDevAlloc u64 \<comment> \<open>device memory was allocated\<close>
  | EvDevFree u64 \<comment> \<open>device memory was freed\<close>

record 's world =
  env :: 's
  events :: "client_event list"

definition world_log :: "client_event list \<Rightarrow> 's \<Rightarrow> 's world \<Rightarrow> 's world" where
  "world_log es s w = \<lparr>env = s, events = events w @ es\<rparr>"

definition w_open :: "'s client_api \<Rightarrow> string \<Rightarrow> int \<Rightarrow> OpenSessionRequest \<Rightarrow> 's world \<Rightarrow>
    OpenSessionResponse rpc_result \<times> 's world" where
  "w_open api ep t q w = (let (r, s) = ca_open api ep t q (env w)
     in (r, world_log [EvOpen (osq_session_id q) (\<not> isl r)] s w))"

definition w_abort :: "'s client_api \<Rightarrow> string \<Rightarrow> int \<Rightarrow> AbortSessionRequest \<Rightarrow> 's world \<Rightarrow>
    AbortSessionResponse rpc_result \<times> 's world" where
  "w_abort api ep t q w = (let (r, s) = ca_abort api ep t q (env w)
     in (r, world_log [EvAbort (asq_session_id q)] s w))"

definition w_put :: "'s client_api \<Rightarrow> string \<Rightarrow> int \<Rightarrow> GdsChunkRequest \<Rightarrow> 's world \<Rightarrow>
    GdsChunkResponse rpc_result \<times> 's world" where
  "w_put api ep t q w = (let (r, s) = ca_put api ep t q (env w)
     in (r, world_log [EvPut (gcq_session_id q) (gcq_rdma_token q) (\<not> isl r)] s w))"

definition w_rng :: "'s client_api \<Rightarrow> 's world \<Rightarrow> u64 \<times> 's world" where
  "w_rng api w = (let (v, s) = ca_rng api (env w) in (v, world_log [] s w))"

definition w_jitter :: "'s client_api \<Rightarrow> 's world \<Rightarrow> nat \<times> 's world" where
  "w_jitter api w = (let (v, s) = ca_jitter api (env w) in (v, world_log [] s w))"

definition w_now :: "'s client_api \<Rightarrow> 's world \<Rightarrow> int \<times> 's world" where
  "w_now api w = (let (v, s) = ca_now api (env w) in (v, world_log [] s w))"

definition w_sleep :: "'s client_api \<Rightarrow> int \<Rightarrow> 's world \<Rightarrow> 's world" where
  "w_sleep api ms w = world_log [EvSleep ms] (ca_sleep api ms (env w)) w"

definition w_memcpy :: "'s client_api \<Rightarrow> u64 \<Rightarrow> u64 \<Rightarrow> 's world \<Rightarrow> (int \<times> u8 list) \<times> 's world" where
  "w_memcpy api p n w = (let (r, s) = ca_memcpy api p n (env w) in (r, world_log [] s w))"

definition w_new_client :: "'s client_api \<Rightarrow> 's world \<Rightarrow> bool \<times> 's world" where
  "w_new_client api w = (let (r, s) = ca_new_client api (env w) in (r, world_log [] s w))"

definition w_get_descriptor :: "'s client_api \<Rightarrow> u64 \<Rightarrow> u64 \<Rightarrow> 's world \<Rightarrow> int \<times> 's world" where
  "w_get_descriptor api p n w = (let (rc, s) = ca_get_descriptor api p n (env w)
     in (rc, world_log (if rc = CU_OBJ_SUCCESS then [EvRegistered p n] else []) s w))"

definition w_put_descriptor :: "'s client_api \<Rightarrow> u64 \<Rightarrow> 's world \<Rightarrow> int \<times> 's world" where
  "w_put_descriptor api p w = (let (rc, s) = ca_put_descriptor api p (env w)
     in (rc, world_log [EvUnregistered p (rc = CU_OBJ_SUCCESS)] s w))"

definition w_get_token ::
  "'s client_api \<Rightarrow> u64 \<Rightarrow> u64 \<Rightarrow> u64 \<Rightarrow> 's world \<Rightarrow> (int \<times> u64) \<times> 's world" where
  "w_get_token api p n off w = (let ((rc, tok), s) = ca_get_token api p n off (env w)
     in ((rc, tok), world_log (if rc = CU_OBJ_SUCCESS \<and> tok \<noteq> 0 then [EvToken tok] else []) s w))"

definition w_put_token :: "'s client_api \<Rightarrow> u64 \<Rightarrow> 's world \<Rightarrow> 's world" where
  "w_put_token api tok w = world_log [EvTokenBack tok] (ca_put_token api tok (env w)) w"

definition w_malloc :: "'s client_api \<Rightarrow> u64 \<Rightarrow> 's world \<Rightarrow> (int \<times> u64) \<times> 's world" where
  "w_malloc api n w = (let ((e, p), s) = ca_malloc api n (env w)
     in ((e, p), world_log (if e = cudaSuccess then [EvDevAlloc p] else []) s w))"

definition w_upload :: "'s client_api \<Rightarrow> u64 \<Rightarrow> u8 list \<Rightarrow> 's world \<Rightarrow> int \<times> 's world" where
  "w_upload api p bytes w = (let (e, s) = ca_upload api p bytes (env w) in (e, world_log [] s w))"

definition w_dev_free :: "'s client_api \<Rightarrow> u64 \<Rightarrow> 's world \<Rightarrow> 's world" where
  "w_dev_free api p w = world_log [EvDevFree p] (ca_dev_free api p (env w)) w"

lemmas world_wrappers =
  w_open_def w_abort_def w_put_def w_rng_def w_jitter_def w_now_def w_sleep_def w_memcpy_def
  w_new_client_def w_get_descriptor_def w_put_descriptor_def w_get_token_def w_put_token_def
  w_malloc_def w_upload_def w_dev_free_def

section \<open>What each wrapper logs\<close>

lemma events_log [simp]: "events (world_log es s w) = events w @ es"
  by (simp add: world_log_def)

lemma env_log [simp]: "env (world_log es s w) = s"
  by (simp add: world_log_def)

lemma events_open [client_simps]:
  "events (snd (w_open api ep t q w)) =
     events w @ [EvOpen (osq_session_id q) (\<not> isl (fst (w_open api ep t q w)))]"
  by (simp add: w_open_def split: prod.split)

lemma events_abort [client_simps]:
  "events (snd (w_abort api ep t q w)) = events w @ [EvAbort (asq_session_id q)]"
  by (simp add: w_abort_def split: prod.split)

lemma events_put [client_simps]:
  "events (snd (w_put api ep t q w)) =
     events w @ [EvPut (gcq_session_id q) (gcq_rdma_token q) (\<not> isl (fst (w_put api ep t q w)))]"
  by (simp add: w_put_def split: prod.split)

lemma events_quiet [client_simps]:
  "events (snd (w_rng api w)) = events w"
  "events (snd (w_jitter api w)) = events w"
  "events (snd (w_now api w)) = events w"
  "events (snd (w_memcpy api p n w)) = events w"
  "events (snd (w_new_client api w)) = events w"
  "events (snd (w_upload api p bytes w)) = events w"
  by (simp_all add: world_wrappers split: prod.split)

lemma events_sleep [client_simps]: "events (w_sleep api ms w) = events w @ [EvSleep ms]"
  by (simp add: w_sleep_def)

lemma events_token_back [client_simps]: "events (w_put_token api tok w) = events w @ [EvTokenBack tok]"
  by (simp add: w_put_token_def)

lemma events_token [client_simps]:
  "events (snd (w_get_token api p n off w)) = events w @
     (let (rc, tok) = fst (w_get_token api p n off w)
      in if rc = CU_OBJ_SUCCESS \<and> tok \<noteq> 0 then [EvToken tok] else [])"
  by (simp add: w_get_token_def split: prod.split)

lemma events_descriptor [client_simps]:
  "events (snd (w_get_descriptor api p n w)) = events w @
     (if fst (w_get_descriptor api p n w) = CU_OBJ_SUCCESS then [EvRegistered p n] else [])"
  by (simp add: w_get_descriptor_def split: prod.split)

lemma events_put_descriptor [client_simps]:
  "events (snd (w_put_descriptor api p w)) =
     events w @ [EvUnregistered p (fst (w_put_descriptor api p w) = CU_OBJ_SUCCESS)]"
  by (simp add: w_put_descriptor_def split: prod.split)

lemma events_malloc [client_simps]:
  "events (snd (w_malloc api n w)) = events w @
     (if fst (fst (w_malloc api n w)) = cudaSuccess then [EvDevAlloc (snd (fst (w_malloc api n w)))] else [])"
  by (simp add: w_malloc_def split: prod.split)

lemma events_dev_free [client_simps]: "events (w_dev_free api p w) = events w @ [EvDevFree p]"
  by (simp add: w_dev_free_def)

text \<open>The state after a call is the one the call returns.\<close>

lemma env_calls:
  "env (snd (w_open api ep t q w)) = snd (ca_open api ep t q (env w))"
  "env (snd (w_abort api ep t aq w)) = snd (ca_abort api ep t aq (env w))"
  "env (snd (w_put api ep t cq w)) = snd (ca_put api ep t cq (env w))"
  "env (snd (w_rng api w)) = snd (ca_rng api (env w))"
  "env (snd (w_jitter api w)) = snd (ca_jitter api (env w))"
  "env (snd (w_now api w)) = snd (ca_now api (env w))"
  "env (w_sleep api ms w) = ca_sleep api ms (env w)"
  "env (snd (w_memcpy api p n w)) = snd (ca_memcpy api p n (env w))"
  "env (snd (w_new_client api w)) = snd (ca_new_client api (env w))"
  "env (snd (w_get_descriptor api p n w)) = snd (ca_get_descriptor api p n (env w))"
  "env (snd (w_put_descriptor api p w)) = snd (ca_put_descriptor api p (env w))"
  "env (snd (w_get_token api p n off w)) = snd (ca_get_token api p n off (env w))"
  "env (w_put_token api tok w) = ca_put_token api tok (env w)"
  by (simp_all add: world_wrappers case_prod_unfold Let_def)

lemma w_open_call: "w_open api ep t q w = (r, w') \<Longrightarrow> ca_open api ep t q (env w) = (r, env w')"
  by (auto simp: w_open_def split: prod.splits)

lemma w_put_call: "w_put api ep t q w = (r, w') \<Longrightarrow> ca_put api ep t q (env w) = (r, env w')"
  by (auto simp: w_put_def split: prod.splits)

end
