(* ===== verification/Client_Rpc.thy ===== *)
theory Client_Rpc
  imports Client_World
begin

text \<open>
  The client's RPC objects: their common base (\<open>client/src/common/rpc_base.h\<close>), the control
  plane (\<open>client/src/control/meta_rpc.cpp\<close>) and the data plane
  (\<open>client/src/data/chunk_rpc.cpp\<close>). Results are returned as the code returns them: a flag,
  the output parameter, and the world after the call.
\<close>

section \<open>RpcBase\<close>

record RpcBase =
  rb_channel :: "string option" \<comment> \<open>the endpoint of the channel, if there is one\<close>
  rb_stub :: bool
  rb_init_error :: string

definition trim_endpoint :: "string \<Rightarrow> string" where
  "trim_endpoint s = rev (dropWhile (\<lambda>c. c = CHR ''/'') (rev s))"

definition new_RpcBase :: "'s client_api \<Rightarrow> string \<Rightarrow> int \<Rightarrow> string \<Rightarrow> RpcBase" where
  "new_RpcBase api ep timeout role =
     (if ep = [] then
        \<lparr>rb_channel = None, rb_stub = False,
         rb_init_error = (if role = [] then ''endpoint must not be empty''
           else role @ '' endpoint must not be empty'')\<rparr>
      else
        (let trimmed = trim_endpoint ep
         in if ca_channel_init api (c_str trimmed) (int_cast32 timeout) \<noteq> 0 then
              \<lparr>rb_channel = None, rb_stub = False,
               rb_init_error = ''Failed to initialize brpc channel: '' @ ep\<rparr>
            else \<lparr>rb_channel = Some trimmed, rb_stub = True, rb_init_error = []\<rparr>))"

definition rpc_ok :: "RpcBase \<Rightarrow> bool" where
  "rpc_ok rb \<longleftrightarrow> rb_channel rb \<noteq> None \<and> rb_stub rb"

definition ApplyTimeout :: "int \<Rightarrow> int" where
  "ApplyTimeout timeout = int_cast32 timeout"

text \<open>The endpoint of the channel; only read where \<open>rpc_ok\<close> holds.\<close>

definition rb_endpoint :: "RpcBase \<Rightarrow> string" where
  "rb_endpoint rb = (case rb_channel rb of None \<Rightarrow> [] | Some ep \<Rightarrow> ep)"

section \<open>The control plane\<close>

definition open_request :: "PutAttempt \<Rightarrow> OpenSessionRequest" where
  "open_request attempt = empty_OpenSessionRequest
     \<lparr>osq_request_id := pa_request_id attempt,
      osq_session_id := pa_session_id attempt,
      osq_bucket := pa_bucket attempt,
      osq_object_key := pa_key attempt,
      osq_op_type := ''PUT'',
      osq_data_flow := DataFlow_ToString GPUDirect,
      osq_expected_size := (case pa_length attempt of None \<Rightarrow> 0 | Some n \<Rightarrow> n),
      osq_is_multipart_part := False\<rparr>"

definition MetaRpc_OpenSession ::
  "'s client_api \<Rightarrow> RpcBase \<Rightarrow> PutAttempt \<Rightarrow> SessionGrant \<Rightarrow> 's world \<Rightarrow>
   bool \<times> SessionGrant \<times> 's world" where
  "MetaRpc_OpenSession api meta attempt grant w =
     (if \<not> rpc_ok meta then (False, grant, w)
      else
        (let (reply, w') = w_open api (rb_endpoint meta) (ApplyTimeout (pa_timeout attempt))
               (open_request attempt) w
         in case reply of
              Inl failed \<Rightarrow> (False, grant, w')
            | Inr resp \<Rightarrow>
                if osr_request_id resp \<noteq> pa_request_id attempt \<or>
                   osr_session_id resp \<noteq> pa_session_id attempt
                then (False, grant, w')
                else (True, grant\<lparr>sg_ticket := osr_ticket resp\<rparr>, w')))"

definition MetaRpc_AbortSession ::
  "'s client_api \<Rightarrow> RpcBase \<Rightarrow> string \<Rightarrow> int \<Rightarrow> 's world \<Rightarrow> 's world" where
  "MetaRpc_AbortSession api meta ses_id timeout w =
     (if \<not> rpc_ok meta then w
      else snd (w_abort api (rb_endpoint meta) (ApplyTimeout timeout)
        \<lparr>asq_session_id = ses_id\<rparr> w))"

section \<open>The data plane\<close>

definition chunk_request :: "PutAttempt \<Rightarrow> SessionGrant \<Rightarrow> string \<Rightarrow> u64 \<Rightarrow> GdsChunkRequest" where
  "chunk_request attempt grant rdma_token chunk_size = empty_GdsChunkRequest
     \<lparr>gcq_request_id := pa_request_id attempt,
      gcq_session_id := pa_session_id attempt,
      gcq_transfer_ticket := sg_ticket grant,
      gcq_bucket := pa_bucket attempt,
      gcq_object_key := pa_key attempt,
      gcq_data_flow := DataFlow_ToString GPUDirect,
      gcq_chunk_size := chunk_size,
      gcq_rdma_token := rdma_token\<rparr>"

definition ChunkRpc_Put ::
  "'s client_api \<Rightarrow> RpcBase \<Rightarrow> PutAttempt \<Rightarrow> SessionGrant \<Rightarrow> string \<Rightarrow> u64 \<Rightarrow> GdsPutResult \<Rightarrow>
   's world \<Rightarrow> bool \<times> GdsPutResult \<times> 's world" where
  "ChunkRpc_Put api chunk attempt grant rdma_token chunk_size result w =
     (if \<not> rpc_ok chunk then (False, result, w)
      else
        (let (reply, w') = w_put api (rb_endpoint chunk) (ApplyTimeout (pa_timeout attempt))
               (chunk_request attempt grant rdma_token chunk_size) w
         in case reply of
              Inl failed \<Rightarrow> (False, result, w')
            | Inr resp \<Rightarrow>
                (True, result\<lparr>gpr_etag := gcr_etag resp, gpr_crc32c := gcr_crc32c resp\<rparr>, w')))"

section \<open>Facts\<close>

lemma rpc_ok_new:
  "rpc_ok (new_RpcBase api ep t role) \<longleftrightarrow>
     ep \<noteq> [] \<and> ca_channel_init api (c_str (trim_endpoint ep)) (int_cast32 t) = 0"
  by (auto simp: new_RpcBase_def rpc_ok_def Let_def)

lemma init_error_new:
  "rpc_ok (new_RpcBase api ep t role) \<longleftrightarrow> rb_init_error (new_RpcBase api ep t role) = []"
  by (auto simp: new_RpcBase_def rpc_ok_def Let_def)

lemma trim_endpoint_last: "trim_endpoint s \<noteq> [] \<Longrightarrow> last (trim_endpoint s) \<noteq> CHR ''/''"
  using hd_dropWhile [of "\<lambda>c. c = CHR ''/''" "rev s"] by (simp add: trim_endpoint_def last_rev)

lemma trim_endpoint_suffix: "\<exists>n. s = trim_endpoint s @ replicate n CHR ''/''"
proof -
  have "rev s = takeWhile (\<lambda>c. c = CHR ''/'') (rev s) @ dropWhile (\<lambda>c. c = CHR ''/'') (rev s)"
    by simp
  moreover have "takeWhile (\<lambda>c. c = CHR ''/'') (rev s) =
      replicate (length (takeWhile (\<lambda>c. c = CHR ''/'') (rev s))) CHR ''/''"
    by (metis (full_types) replicate_length_same set_takeWhileD)
  ultimately have "s = trim_endpoint s @
      rev (replicate (length (takeWhile (\<lambda>c. c = CHR ''/'') (rev s))) CHR ''/'')"
    unfolding trim_endpoint_def by (metis rev_append rev_rev_ident)
  then show ?thesis by (metis rev_replicate)
qed

text \<open>What a successful call means, and what each call logs.\<close>

lemma OpenSession_true:
  assumes "MetaRpc_OpenSession api meta attempt grant w = (True, grant', w')"
  obtains resp where "rpc_ok meta"
    "w_open api (rb_endpoint meta) (ApplyTimeout (pa_timeout attempt)) (open_request attempt) w
       = (Inr resp, w')"
    "osr_request_id resp = pa_request_id attempt" "osr_session_id resp = pa_session_id attempt"
    "sg_ticket grant' = osr_ticket resp"
  using assms that by (auto simp: MetaRpc_OpenSession_def split: if_splits prod.splits sum.splits)

lemma Put_true:
  assumes "ChunkRpc_Put api chunk attempt grant tok n res w = (True, res', w')"
  obtains resp where "rpc_ok chunk"
    "w_put api (rb_endpoint chunk) (ApplyTimeout (pa_timeout attempt))
       (chunk_request attempt grant tok n) w = (Inr resp, w')"
    "gpr_etag res' = gcr_etag resp" "gpr_crc32c res' = gcr_crc32c resp"
  using assms that by (auto simp: ChunkRpc_Put_def split: if_splits prod.splits sum.splits)

lemma open_request_session [simp]: "osq_session_id (open_request a) = pa_session_id a"
  by (simp add: open_request_def empty_OpenSessionRequest_def)

lemma chunk_request_fields [simp]:
  "gcq_session_id (chunk_request a g tok n) = pa_session_id a"
  "gcq_rdma_token (chunk_request a g tok n) = tok"
  "gcq_chunk_size (chunk_request a g tok n) = n"
  "gcq_upload_id (chunk_request a g tok n) = []"
  "gcq_bucket (chunk_request a g tok n) = pa_bucket a"
  "gcq_object_key (chunk_request a g tok n) = pa_key a"
  by (simp_all add: chunk_request_def empty_GdsChunkRequest_def)

lemma OpenSession_events:
  assumes "MetaRpc_OpenSession api meta attempt grant w = (ok, grant', w')" and "rpc_ok meta"
  obtains replied where "events w' = events w @ [EvOpen (pa_session_id attempt) replied]"
    and "ok \<longrightarrow> replied"
proof -
  let ?r = "w_open api (rb_endpoint meta) (ApplyTimeout (pa_timeout attempt)) (open_request attempt) w"
  have "w' = snd ?r" "ok \<longrightarrow> \<not> isl (fst ?r)"
    using assms by (auto simp: MetaRpc_OpenSession_def split: if_splits prod.splits sum.splits)
  then show ?thesis using that by (simp add: client_simps)
qed

lemma AbortSession_events:
  "rpc_ok meta \<Longrightarrow> events (MetaRpc_AbortSession api meta i t w) = events w @ [EvAbort i]"
  by (simp add: MetaRpc_AbortSession_def client_simps)

lemma Put_events:
  assumes "ChunkRpc_Put api chunk attempt grant tok n res w = (ok, res', w')" and "rpc_ok chunk"
  shows "events w' = events w @ [EvPut (pa_session_id attempt) tok ok]"
proof -
  let ?r = "w_put api (rb_endpoint chunk) (ApplyTimeout (pa_timeout attempt))
    (chunk_request attempt grant tok n) w"
  have "w' = snd ?r" "ok \<longleftrightarrow> \<not> isl (fst ?r)"
    using assms by (auto simp: ChunkRpc_Put_def split: if_splits prod.splits sum.splits)
  then show ?thesis by (simp add: client_simps)
qed

end
