(* ===== verification/Token_Interface.thy ===== *)
theory Token_Interface
  imports Prelude
begin

text \<open>
  What a PUT relies on in the memory manager, as a locale over any state \<open>'st\<close>, token type
  \<open>'t\<close> and request type \<open>'q\<close>: \<open>holds ts st\<close> says that the state is consistent with exactly
  the tokens \<open>ts\<close> being out.
\<close>

locale token_source =
  fixes acquire :: "'q \<Rightarrow> 'st \<Rightarrow> bool \<times> 't \<times> 'st"
    and release :: "'t \<Rightarrow> 'st \<Rightarrow> 'st"
    and holds :: "'t list \<Rightarrow> 'st \<Rightarrow> bool"
  assumes acquire_holds: "holds ts st \<Longrightarrow> acquire q st = (ok, t, st') \<Longrightarrow>
      holds (if ok then t # ts else ts) st'"
    and release_holds: "holds (t # ts) st \<Longrightarrow> holds ts (release t st)"
    and release_null: "acquire q st = (False, t, st') \<Longrightarrow> release t st'' = st''"
begin

text \<open>A token that lives in a scope leaves the other tokens as they were.\<close>

lemma scoped_token:
  assumes "holds ts st" and "acquire q st = (ok, t, st1)"
    and "\<And>us. holds us st1 \<Longrightarrow> holds us st2"
  shows "holds ts (release t st2)"
proof (cases ok)
  case True
  then have "holds (t # ts) st2" using acquire_holds [OF assms(1,2)] assms(3) by simp
  then show ?thesis by (rule release_holds)
next
  case False
  then have "holds ts st2" using acquire_holds [OF assms(1,2)] assms(3) by simp
  with False show ?thesis using release_null [of q st t st1 st2] assms(2) by simp
qed

end

end
