(* ===== verification/Gds_Memory.thy ===== *)
theory Gds_Memory
  imports Client_World Token_Interface "HOL-Library.Multiset"
begin

text \<open>
  The process-wide memory manager of the client and its tokens
  (\<open>client/src/gds_transport/gds_memory_manager.{h,cpp}\<close>): which device buffers are
  registered, and the tokens issued for them. The lemmas keep two accounts of a log: what the
  client still owes (one deregistration call for every registration, one return of every token),
  which is exactly what the manager lists, and what the vendor's library has registered, which
  is that and the buffers whose deregistration failed.
\<close>

section \<open>Tokens\<close>

record Token =
  tok_client :: bool \<comment> \<open>\<open>client_\<close> is not null\<close>
  tok_ptr :: u64 \<comment> \<open>\<open>tok_\<close>, 0 for null\<close>

definition null_token :: Token where
  "null_token = \<lparr>tok_client = False, tok_ptr = 0\<rparr>"

definition Token_Reset :: "'s client_api \<Rightarrow> Token \<Rightarrow> 's world \<Rightarrow> Token \<times> 's world" where
  "Token_Reset api t w =
     (null_token, if tok_ptr t \<noteq> 0 \<and> tok_client t then w_put_token api (tok_ptr t) w else w)"

text \<open>Move construction returns the new token and what is left of the old one.\<close>

definition Token_Move :: "Token \<Rightarrow> Token \<times> Token" where
  "Token_Move other = (other, null_token)"

text \<open>Move assignment from another object: the target, the source, the world.\<close>

definition Token_Assign :: "'s client_api \<Rightarrow> Token \<Rightarrow> Token \<Rightarrow> 's world \<Rightarrow> Token \<times> Token \<times> 's world" where
  "Token_Assign api this other w = (let (t, w') = Token_Reset api this w in (other, null_token, w'))"

definition Token_end :: "'s client_api \<Rightarrow> Token \<Rightarrow> 's world \<Rightarrow> 's world" where
  "Token_end api t w = snd (Token_Reset api t w)"

definition Token_str :: "'s client_api \<Rightarrow> Token \<Rightarrow> 's world \<Rightarrow> string" where
  "Token_str api t w = (if tok_ptr t \<noteq> 0 then c_str (ca_token_text api (tok_ptr t) (env w)) else [])"

definition Token_valid :: "Token \<Rightarrow> bool" where
  "Token_valid t \<longleftrightarrow> tok_ptr t \<noteq> 0"

section \<open>The manager\<close>

record GdsMemoryManager =
  gm_client :: bool \<comment> \<open>\<open>impl_->client\<close> is not null\<close>
  gm_connected :: bool
  gm_registered :: "(u64 \<times> u64) list" \<comment> \<open>address to size\<close>

definition new_GdsMemoryManager :: "'s client_api \<Rightarrow> 's world \<Rightarrow> GdsMemoryManager \<times> 's world" where
  "new_GdsMemoryManager api w =
     (let (made, w') = w_new_client api w
      in (\<lparr>gm_client = made, gm_connected = (made \<and> ca_is_connected api (env w')),
           gm_registered = []\<rparr>, w'))"

text \<open>
  The two static variables of \<open>Instance\<close>: the manager, built on the first call, and
  \<open>init_ok\<close>, which is the manager's \<open>connected_\<close> at that moment and never changes.
\<close>

definition Instance ::
  "'s client_api \<Rightarrow> GdsMemoryManager option \<Rightarrow> 's world \<Rightarrow>
   bool \<times> GdsMemoryManager option \<times> 's world" where
  "Instance api static w =
     (case static of
        None \<Rightarrow> (let (mgr, w') = new_GdsMemoryManager api w in (gm_connected mgr, Some mgr, w'))
      | Some mgr \<Rightarrow> (gm_connected mgr, Some mgr, w))"

definition RegisterBufferUnderLock ::
  "'s client_api \<Rightarrow> u64 \<Rightarrow> u64 \<Rightarrow> GdsMemoryManager \<times> 's world \<Rightarrow>
   bool \<times> GdsMemoryManager \<times> 's world" where
  "RegisterBufferUnderLock api ptr sz = (\<lambda>(mgr, w).
     if map_of (gm_registered mgr) ptr \<noteq> None then (True, mgr, w)
     else
       (let (rc, w') = w_get_descriptor api ptr sz w
        in if rc \<noteq> CU_OBJ_SUCCESS then (False, mgr, w')
           else (True, mgr\<lparr>gm_registered := (ptr, sz) # gm_registered mgr\<rparr>, w')))"

definition RegisterBuffer ::
  "'s client_api \<Rightarrow> u64 \<Rightarrow> u64 \<Rightarrow> GdsMemoryManager \<times> 's world \<Rightarrow>
   bool \<times> GdsMemoryManager \<times> 's world" where
  "RegisterBuffer api ptr sz = (\<lambda>(mgr, w).
     if ptr = 0 \<or> sz = 0 then (False, mgr, w)
     else RegisterBufferUnderLock api ptr sz (mgr, w))"

definition UnregisterBuffer ::
  "'s client_api \<Rightarrow> u64 \<Rightarrow> GdsMemoryManager \<times> 's world \<Rightarrow> bool \<times> GdsMemoryManager \<times> 's world" where
  "UnregisterBuffer api ptr = (\<lambda>(mgr, w).
     if ptr = 0 then (False, mgr, w)
     else if map_of (gm_registered mgr) ptr = None then (True, mgr, w)
     else
       (let (rc, w') = w_put_descriptor api ptr w;
            mgr' = mgr\<lparr>gm_registered := filter (\<lambda>e. fst e \<noteq> ptr) (gm_registered mgr)\<rparr>
        in if rc \<noteq> CU_OBJ_SUCCESS then (False, mgr', w') else (True, mgr', w')))"

definition AcquireToken ::
  "'s client_api \<Rightarrow> u64 \<Rightarrow> u64 \<Rightarrow> u64 \<Rightarrow> Token \<Rightarrow> GdsMemoryManager \<times> 's world \<Rightarrow>
   bool \<times> Token \<times> GdsMemoryManager \<times> 's world" where
  "AcquireToken api ptr sz offset out = (\<lambda>(mgr, w).
     if ptr = 0 \<or> sz = 0 then (False, out, mgr, w)
     else
       (let need_register = (map_of (gm_registered mgr) ptr = None);
            (ok, mgr1, w1) =
              (if need_register then RegisterBufferUnderLock api ptr (sz + offset) (mgr, w)
               else (True, mgr, w))
        in if \<not> ok then (False, out, mgr1, w1)
           else
             (let ((rc, tok), w2) = w_get_token api ptr sz offset w1
              in if rc \<noteq> CU_OBJ_SUCCESS \<or> tok = 0 then (False, out, mgr1, w2)
                 else
                   (let (out', tmp, w3) = Token_Assign api out
                          \<lparr>tok_client = gm_client mgr1, tok_ptr = tok\<rparr> w2
                    in (True, out', mgr1, w3)))))"

definition end_GdsMemoryManager :: "'s client_api \<Rightarrow> GdsMemoryManager \<times> 's world \<Rightarrow> 's world" where
  "end_GdsMemoryManager api = (\<lambda>(mgr, w).
     if gm_client mgr
     then fold (\<lambda>(ptr, _) w. snd (w_put_descriptor api ptr w)) (gm_registered mgr) w
     else w)"

section \<open>The books\<close>

text \<open>
  What a log leaves for the client to do: the registered addresses for which no deregistration
  was asked yet, and the tokens that were issued and not given back. Asking for the
  deregistration of an address that is not owed, or giving back a token that is not out, makes
  the log invalid. Whether the library could deregister does not matter here: the client asks
  once.
\<close>

fun book_step :: "client_event \<Rightarrow> u64 multiset \<times> u64 multiset \<Rightarrow> (u64 multiset \<times> u64 multiset) option" where
  "book_step (EvRegistered p n) (ds, ts) = Some (add_mset p ds, ts)"
| "book_step (EvUnregistered p ok) (ds, ts) = (if p \<in># ds then Some (ds - {#p#}, ts) else None)"
| "book_step (EvToken t) (ds, ts) = Some (ds, add_mset t ts)"
| "book_step (EvTokenBack t) (ds, ts) = (if t \<in># ts then Some (ds, ts - {#t#}) else None)"
| "book_step (EvOpen i b) bk = Some bk"
| "book_step (EvAbort i) bk = Some bk"
| "book_step (EvPut i tok b) bk = Some bk"
| "book_step (EvSleep n) bk = Some bk"
| "book_step (EvDevAlloc p) bk = Some bk"
| "book_step (EvDevFree p) bk = Some bk"

definition books :: "client_event list \<Rightarrow> (u64 multiset \<times> u64 multiset) option" where
  "books es = fold (\<lambda>e b. Option.bind b (book_step e)) es (Some ({#}, {#}))"

lemma books_Nil [simp]: "books [] = Some ({#}, {#})"
  by (simp add: books_def)

lemma books_snoc [simp]: "books (es @ [e]) = Option.bind (books es) (book_step e)"
  by (simp add: books_def)

lemmas book_simps = client_simps

text \<open>
  What the library has registered after a log: a deregistration that failed leaves the address
  registered. \<open>stuck\<close> lists the addresses of the failed deregistrations.
\<close>

fun library_step :: "client_event \<Rightarrow> u64 multiset \<Rightarrow> u64 multiset" where
  "library_step (EvRegistered p n) rs = add_mset p rs"
| "library_step (EvUnregistered p ok) rs = (if ok then rs - {#p#} else rs)"
| "library_step e rs = rs"

definition library_regs :: "client_event list \<Rightarrow> u64 multiset" where
  "library_regs es = fold library_step es {#}"

fun stuck_step :: "client_event \<Rightarrow> u64 multiset \<Rightarrow> u64 multiset" where
  "stuck_step (EvUnregistered p ok) bs = (if ok then bs else add_mset p bs)"
| "stuck_step e bs = bs"

definition stuck :: "client_event list \<Rightarrow> u64 multiset" where
  "stuck es = fold stuck_step es {#}"

lemma library_regs_log [simp]:
  "library_regs [] = {#}" "library_regs (es @ [e]) = library_step e (library_regs es)"
  by (simp_all add: library_regs_def)

lemma stuck_log [simp]: "stuck [] = {#}" "stuck (es @ [e]) = stuck_step e (stuck es)"
  by (simp_all add: stuck_def)

text \<open>The two accounts differ by the failed deregistrations, as long as the client's is valid.\<close>

lemma library_books: "books es = Some (ds, ts) \<Longrightarrow> library_regs es = ds + stuck es"
proof (induction es arbitrary: ds ts rule: rev_induct)
  case (snoc e es)
  obtain ds0 ts0 where b: "books es = Some (ds0, ts0)"
    using snoc.prems by (cases "books es") auto
  show ?case using snoc.IH [OF b] snoc.prems b by (cases e) (auto split: if_splits)
qed simp

definition mm_holds :: "Token list \<Rightarrow> GdsMemoryManager \<times> 's world \<Rightarrow> bool" where
  "mm_holds ts st \<longleftrightarrow>
     books (events (snd st)) =
       Some (mset (map fst (gm_registered (fst st))), mset (map tok_ptr ts)) \<and>
     distinct (map fst (gm_registered (fst st))) \<and> gm_client (fst st) \<and>
     (\<forall>t\<in>set ts. tok_client t \<and> tok_ptr t \<noteq> 0)"

lemma map_of_None_fst: "map_of xs p = None \<longleftrightarrow> p \<notin> fst ` set xs"
  by (simp add: map_of_eq_None_iff)

lemma Register_holds:
  assumes "mm_holds ts (mgr, w)"
    and "RegisterBufferUnderLock api ptr n (mgr, w) = (ok, mgr', w')"
  shows "mm_holds ts (mgr', w') \<and> (ok \<longrightarrow> map_of (gm_registered mgr') ptr \<noteq> None)"
proof (cases "map_of (gm_registered mgr) ptr")
  case None
  obtain rc w2 where d: "w_get_descriptor api ptr n w = (rc, w2)" by force
  have "events w2 = events w @ (if rc = CU_OBJ_SUCCESS then [EvRegistered ptr n] else [])"
    using events_descriptor [of api ptr n w] d by simp
  then show ?thesis
    using assms None d by (auto simp: RegisterBufferUnderLock_def mm_holds_def map_of_None_fst
        split: if_splits)
next
  case (Some m)
  then show ?thesis using assms by (auto simp: RegisterBufferUnderLock_def)
qed

lemma RegisterBuffer_holds:
  assumes "mm_holds ts (mgr, w)" and "RegisterBuffer api ptr n (mgr, w) = (ok, mgr', w')"
  shows "mm_holds ts (mgr', w')"
  using assms(2) Register_holds [OF assms(1), of api ptr n ok mgr' w'] assms(1)
  by (simp add: RegisterBuffer_def split: if_splits)

lemma mset_filter_key:
  "distinct (map fst xs) \<Longrightarrow> p \<in> fst ` set xs \<Longrightarrow>
   mset (map fst (filter (\<lambda>e. fst e \<noteq> p) xs)) = mset (map fst xs) - {#p#}"
proof (induction xs)
  case (Cons x xs)
  show ?case
  proof (cases "fst x = p")
    case True
    then have "filter (\<lambda>e. fst e \<noteq> p) xs = xs"
      using Cons.prems(1) by (intro filter_True) (auto simp: image_iff)
    then show ?thesis using True by simp
  qed (use Cons in auto)
qed simp

lemma Unregister_holds:
  assumes "mm_holds ts (mgr, w)" and "UnregisterBuffer api ptr (mgr, w) = (ok, mgr', w')"
  shows "mm_holds ts (mgr', w')"
proof (cases "ptr = 0 \<or> map_of (gm_registered mgr) ptr = None")
  case True
  then have "mgr' = mgr \<and> w' = w"
    using assms(2) by (cases "ptr = 0") (simp_all add: UnregisterBuffer_def)
  then show ?thesis using assms(1) by simp
next
  case False
  obtain rc w2 where d: "w_put_descriptor api ptr w = (rc, w2)" by force
  have e: "events w2 = events w @ [EvUnregistered ptr (rc = CU_OBJ_SUCCESS)]"
    using events_put_descriptor [of api ptr w] d by simp
  have p: "ptr \<in> fst ` set (gm_registered mgr)" using False by (metis map_of_None_fst)
  have dist: "distinct (map fst (gm_registered mgr))" using assms(1) by (simp add: mm_holds_def)
  have "w' = w2" "mgr' = mgr\<lparr>gm_registered := filter (\<lambda>e. fst e \<noteq> ptr) (gm_registered mgr)\<rparr>"
    using assms(2) False d by (auto simp: UnregisterBuffer_def Let_def split: if_splits)
  moreover have "books (events w2) = Some (mset (map fst (gm_registered mgr)) - {#ptr#},
      mset (map tok_ptr ts))"
    using assms(1) e p by (simp add: mm_holds_def)
  ultimately show ?thesis
    using assms(1) mset_filter_key [OF dist p] distinct_map_filter [OF dist]
    by (simp add: mm_holds_def)
qed

lemma Token_end_holds: "mm_holds (t # ts) (mgr, w) \<Longrightarrow> mm_holds ts (mgr, Token_end api t w)"
  by (auto simp: mm_holds_def Token_end_def Token_Reset_def client_simps)

lemma Token_end_null [simp]: "Token_end api null_token w = w"
  by (simp add: Token_end_def Token_Reset_def null_token_def)

lemma AcquireToken_holds:
  assumes "mm_holds ts (mgr, w)"
    and "AcquireToken api ptr n off null_token (mgr, w) = (ok, t, mgr', w')"
  shows "mm_holds (if ok then t # ts else ts) (mgr', w') \<and> (\<not> ok \<longrightarrow> t = null_token)"
proof (cases "ptr = 0 \<or> n = 0")
  case True
  then show ?thesis using assms by (auto simp: AcquireToken_def)
next
  case False
  obtain ok1 mgr1 w1 where reg: "(if map_of (gm_registered mgr) ptr = None
      then RegisterBufferUnderLock api ptr (n + off) (mgr, w) else (True, mgr, w)) = (ok1, mgr1, w1)"
    by (metis prod.collapse)
  then have h1: "mm_holds ts (mgr1, w1)"
    using assms(1) Register_holds [OF assms(1), of api ptr "n + off" ok1 mgr1 w1]
    by (simp split: if_splits)
  obtain rc tok w2 where g: "w_get_token api ptr n off w1 = ((rc, tok), w2)" by (metis prod.collapse)
  then have e: "events w2 = events w1 @ (if rc = CU_OBJ_SUCCESS \<and> tok \<noteq> 0 then [EvToken tok] else [])"
    using events_token [of api ptr n off w1] by simp
  show ?thesis
    using assms(2) False reg g h1 e
    by (auto simp: AcquireToken_def Let_def Token_Assign_def Token_Reset_def null_token_def
        mm_holds_def split: if_splits)
qed

interpretation gds_tokens: token_source
  "\<lambda>(ptr, n, off) st. case AcquireToken api ptr n off null_token st of (ok, t, st') \<Rightarrow> (ok, t, st')"
  "\<lambda>t (mgr, w). (mgr, Token_end api t w)"
  mm_holds
  for api :: "'s client_api"
proof (unfold_locales, goal_cases)
  case (1 ts st q ok t st')
  then show ?case using AcquireToken_holds by (cases q; cases st; cases st') fastforce
next
  case (2 t ts st)
  then show ?case using Token_end_holds by (cases st) auto
next
  case (3 q st t st' st'')
  then show ?case
    by (cases q; cases st; cases st'; cases st'')
      (auto simp: AcquireToken_def Let_def split: if_splits prod.splits)
qed

end
