(* ===== verification/Double_Round.thy ===== *)
theory Double_Round
  imports Prelude
begin

text \<open>
  Rounding to \<open>double\<close>: a natural number in some fixed unit is rounded to 53 significant bits,
  ties to even. The lemmas bound the result by representable numbers and show that rounding
  is monotone.
\<close>

fun bit_count :: "nat \<Rightarrow> nat" where
  "bit_count n = (if n = 0 then 0 else Suc (bit_count (n div 2)))"

declare bit_count.simps [simp del]

definition round_double :: "nat \<Rightarrow> nat" where
  "round_double x =
     (let e = bit_count x - 53; q = x div 2 ^ e; r = 2 * (x mod 2 ^ e)
      in if r > 2 ^ e \<or> (r = 2 ^ e \<and> odd q \<and> 0 < e) then Suc q * 2 ^ e else q * 2 ^ e)"

definition half_even_div :: "nat \<Rightarrow> nat \<Rightarrow> nat" where
  "half_even_div a b =
     (let q = a div b; r = 2 * (a mod b) in if r > b \<or> (r = b \<and> odd q) then Suc q else q)"

lemma bit_count_le: "x < 2 ^ n \<Longrightarrow> bit_count x \<le> n"
proof (induction n arbitrary: x)
  case 0
  then show ?case by (simp add: bit_count.simps)
next
  case (Suc n)
  then have "x div 2 < 2 ^ n" by simp
  then have "bit_count (x div 2) \<le> n" by (rule Suc.IH)
  then show ?case by (subst bit_count.simps) simp
qed

lemma round_double_le:
  assumes "x \<le> y" and "2 ^ (bit_count x - 53) dvd y"
  shows "round_double x \<le> y"
proof -
  define d where "d = (2::nat) ^ (bit_count x - 53)"
  have d: "0 < d" by (simp add: d_def)
  obtain t where t: "y = d * t" using assms(2) d_def by (auto elim: dvdE)
  have "x div d \<le> t" using div_le_mono [OF assms(1), of d] d t by simp
  moreover have "Suc (x div d) \<le> t" if "0 < x mod d"
  proof -
    have "d * (x div d) < x" using that by (metis add_diff_cancel_right' less_add_same_cancel1
        mult_div_mod_eq)
    then have "d * (x div d) < d * t" using assms(1) t by linarith
    then have "x div d < t" using mult_less_cancel1 by blast
    then show ?thesis by simp
  qed
  ultimately have "(if 2 * (x mod d) > d \<or> (2 * (x mod d) = d \<and> odd (x div d) \<and> 0 < bit_count x - 53)
      then Suc (x div d) * d else x div d * d) \<le> t * d"
    using d by (auto simp del: mult_Suc intro!: mult_le_mono1)
  then show ?thesis
    unfolding round_double_def Let_def d_def [symmetric] by (simp add: t mult.commute)
qed

lemma round_double_ge:
  assumes "y \<le> x" and "2 ^ (bit_count x - 53) dvd y"
  shows "y \<le> round_double x"
proof -
  define d where "d = (2::nat) ^ (bit_count x - 53)"
  have d: "0 < d" by (simp add: d_def)
  obtain t where t: "y = d * t" using assms(2) d_def by (auto elim: dvdE)
  have "t \<le> x div d" using div_le_mono [OF assms(1), of d] d t by simp
  then have "t * d \<le> x div d * d" by (rule mult_le_mono1)
  then have "t * d \<le> (if c then Suc (x div d) * d else x div d * d)" for c
    by (simp add: trans_le_add2)
  then show ?thesis
    unfolding round_double_def Let_def d_def [symmetric] t mult.commute [of d t] by blast
qed

lemma bit_count_zero [simp]: "bit_count 0 = 0"
  by (simp add: bit_count.simps)

lemma bit_count_pos: "0 < x \<Longrightarrow> bit_count x = Suc (bit_count (x div 2))"
  by (subst bit_count.simps) simp

lemma less_bit_count: "x < 2 ^ bit_count x"
proof (induction x rule: bit_count.induct)
  case (1 n)
  show ?case
  proof (cases "n = 0")
    case False
    then have "n div 2 < 2 ^ bit_count (n div 2)" using 1 by simp
    then show ?thesis using False by (simp add: bit_count_pos)
  qed simp
qed

lemma bit_count_mono: "x \<le> y \<Longrightarrow> bit_count x \<le> bit_count y"
  using bit_count_le [of x "bit_count y"] less_bit_count [of y] by simp

lemma bit_count_lower: "0 < x \<Longrightarrow> 2 ^ (bit_count x - 1) \<le> x"
  using bit_count_le [of x "bit_count x - 1"] bit_count_pos [of x] by (metis Suc_n_not_le_n diff_Suc_1 not_le)

lemma round_double_mono:
  assumes "x \<le> y"
  shows "round_double x \<le> round_double y"
proof (cases "bit_count x = bit_count y")
  case True
  define d where "d = (2::nat) ^ (bit_count x - 53)"
  define up where "up z \<longleftrightarrow> 2 * (z mod d) > d \<or> (2 * (z mod d) = d \<and> odd (z div d) \<and> 0 < bit_count x - 53)"
    for z
  have r: "round_double x = (if up x then Suc (x div d) * d else x div d * d)"
    "round_double y = (if up y then Suc (y div d) * d else y div d * d)"
    by (simp_all add: round_double_def Let_def d_def up_def True)
  have q: "x div d \<le> y div d" using assms by (rule div_le_mono)
  show ?thesis
  proof (cases "x div d = y div d")
    case True
    have "x mod d \<le> y mod d"
      using assms True by (metis div_mult_mod_eq nat_add_left_cancel_le)
    then have "up x \<Longrightarrow> up y" by (auto simp: up_def True)
    then show ?thesis using r True by simp
  next
    case False
    then have "Suc (x div d) * d \<le> y div d * d" using q by (intro mult_le_mono1) simp
    moreover have "round_double x \<le> Suc (x div d) * d" "y div d * d \<le> round_double y"
      unfolding r by simp_all
    ultimately show ?thesis by linarith
  qed
next
  case False
  then have lt: "bit_count x < bit_count y" using bit_count_mono [OF assms] by simp
  define m where "m = (2::nat) ^ (bit_count y - 1)"
  have "0 < y" using lt by (cases y) auto
  then have "m \<le> y" using bit_count_lower by (simp add: m_def)
  moreover have "(2::nat) ^ bit_count x \<le> m" using lt unfolding m_def by (intro power_increasing) auto
  then have "x \<le> m" using less_bit_count [of x] by linarith
  moreover have "2 ^ (bit_count x - 53) dvd m" "2 ^ (bit_count y - 53) dvd m"
    using lt by (auto simp: m_def intro: le_imp_power_dvd)
  ultimately show ?thesis
    using round_double_le [of x m] round_double_ge [of m y] by linarith
qed

lemma round_double_exact: "x < 2 ^ 53 \<Longrightarrow> round_double x = x"
  using bit_count_le [of x 53] by (simp add: round_double_def)

lemma half_even_div_error:
  assumes "0 < b"
  shows "2 * (half_even_div a b * b) \<le> 2 * a + b" and "2 * a \<le> 2 * (half_even_div a b * b) + b"
proof -
  define q r where "q = a div b" and "r = a mod b"
  have a: "a = q * b + r" "r < b" using assms by (simp_all add: q_def r_def)
  show "2 * (half_even_div a b * b) \<le> 2 * a + b" "2 * a \<le> 2 * (half_even_div a b * b) + b"
    using a(2) unfolding half_even_div_def Let_def q_def [symmetric] r_def [symmetric]
    by (auto simp: a(1))
qed

end
