(* ===== verification/Client_Retry.thy ===== *)
theory Client_Retry
  imports Double_Round
begin

text \<open>
  The retry loop of the client (\<open>RetryPolicy\<close> and \<open>RetryIfRetryable\<close> in
  \<open>client/src/client.cpp\<close>) over any attempt: the exponential backoff with its cap, the jitter
  with the rounding of \<open>double\<close>, and the loop. Two locales say what a caller gets from it: an
  attempt that keeps an invariant keeps it through the loop, and a cost of one per attempt adds
  up to at most the number of attempts.
\<close>

section \<open>The policy and the backoff\<close>

record RetryPolicy =
  max_attempts :: int
  initial_backoff :: int
  max_backoff :: int

definition default_policy :: RetryPolicy where
  "default_policy = \<lparr>max_attempts = 3, initial_backoff = 100, max_backoff = 2000\<rparr>"

definition capped_backoff :: "RetryPolicy \<Rightarrow> int \<Rightarrow> int" where
  "capped_backoff policy attempt =
     (let backoff = initial_backoff policy * 2 ^ nat (attempt - 1)
      in if backoff > max_backoff policy then max_backoff policy else backoff)"

text \<open>
  A \<open>double\<close> in units of \<open>2 ^ -53\<close> is a natural number here. The jitter is one draw \<open>m\<close> of
  \<open>uniform_real_distribution(0.5, 1.5)\<close> in that unit; its product with a small integer is
  rounded to 53 significant bits, ties to even, and the cast to \<open>long long\<close> cuts the fraction
  off.
\<close>

definition jittered :: "int \<Rightarrow> nat \<Rightarrow> int" where
  "jittered backoff m = int (round_double (nat backoff * m) div 2 ^ 53)"

section \<open>The loop\<close>

definition retry_pause ::
  "RetryPolicy \<Rightarrow> ('st \<Rightarrow> nat \<times> 'st) \<Rightarrow> (int \<Rightarrow> 'st \<Rightarrow> 'st) \<Rightarrow> int \<Rightarrow> 'st \<Rightarrow> 'st" where
  "retry_pause policy jitter sleep attempt st =
     (let (m, st') = jitter st in sleep (jittered (capped_backoff policy attempt) m) st')"

function retry_loop ::
  "RetryPolicy \<Rightarrow> ('st \<Rightarrow> nat \<times> 'st) \<Rightarrow> (int \<Rightarrow> 'st \<Rightarrow> 'st) \<Rightarrow> ('st \<Rightarrow> bool \<times> 'st) \<Rightarrow>
   int \<Rightarrow> bool \<Rightarrow> 'st \<Rightarrow> bool \<times> 'st" where
  "retry_loop policy jitter sleep fn attempt ok st =
     (if attempt < max_attempts policy then
        if ok then (True, st)
        else
          (let (ok', st') = fn (retry_pause policy jitter sleep attempt st)
           in retry_loop policy jitter sleep fn (attempt + 1) ok' st')
      else (ok, st))"
  by pat_completeness auto

termination
  by (relation "measure (\<lambda>(policy, jitter, sleep, fn, attempt, ok, st).
      nat (max_attempts policy - attempt))") auto

declare retry_loop.simps [simp del]

definition RetryIfRetryable ::
  "RetryPolicy \<Rightarrow> ('st \<Rightarrow> nat \<times> 'st) \<Rightarrow> (int \<Rightarrow> 'st \<Rightarrow> 'st) \<Rightarrow> ('st \<Rightarrow> bool \<times> 'st) \<Rightarrow>
   'st \<Rightarrow> bool \<times> 'st" where
  "RetryIfRetryable policy jitter sleep fn st =
     (let (ok, st') = fn st in retry_loop policy jitter sleep fn 1 ok st')"

section \<open>Bounds on the pause\<close>

text \<open>A backoff of at most two seconds, jittered, stays within half of it on both sides.\<close>

lemma jittered_bounds:
  assumes "0 \<le> b" "b \<le> 2000" and m: "2 ^ 52 \<le> m" "m \<le> 3 * 2 ^ 52"
  shows "b div 2 \<le> jittered b m" and "jittered b m \<le> 3 * b div 2"
proof -
  define n where "n = nat b"
  have n: "n \<le> 2000" "b = int n" using assms(1,2) by (auto simp: n_def)
  have "n * m \<le> 2000 * (3 * 2 ^ 52)" using n(1) m(2) by (rule mult_le_mono)
  then have "n * m < 2 ^ 65" by simp
  then have "bit_count (n * m) - 53 \<le> 52" using bit_count_le [of "n * m" 65] by simp
  then have dvd: "(2::nat) ^ (bit_count (n * m) - 53) dvd 2 ^ 52 * k" for k
    by (meson dvd_mult2 le_imp_power_dvd)
  have "2 ^ 52 * n \<le> round_double (n * m)"
    using m(1) dvd [of n] by (intro round_double_ge) (simp_all add: mult.commute)
  moreover have "round_double (n * m) \<le> 2 ^ 52 * (3 * n)"
  proof (rule round_double_le)
    have "n * m \<le> n * (3 * 2 ^ 52)" using m(2) by (rule mult_le_mono2)
    then show "n * m \<le> 2 ^ 52 * (3 * n)" by (simp add: mult.commute mult.left_commute)
  qed (rule dvd)
  ultimately have "2 ^ 52 * n div 2 ^ 53 \<le> round_double (n * m) div 2 ^ 53"
    "round_double (n * m) div 2 ^ 53 \<le> 2 ^ 52 * (3 * n) div 2 ^ 53"
    by (simp_all only: div_le_mono)
  then have "n div 2 \<le> round_double (n * m) div 2 ^ 53" "round_double (n * m) div 2 ^ 53 \<le> 3 * n div 2"
    by simp_all
  moreover have "int n div 2 = int (n div 2)" "3 * int n div 2 = int (3 * n div 2)"
    by (simp_all add: zdiv_int)
  ultimately show "b div 2 \<le> jittered b m" "jittered b m \<le> 3 * b div 2"
    unfolding jittered_def n(2) nat_int by (simp_all only: of_nat_le_iff)
qed

lemma capped_backoff_range:
  assumes "0 \<le> initial_backoff policy" "0 \<le> max_backoff policy"
  shows "0 \<le> capped_backoff policy k \<and> capped_backoff policy k \<le> max_backoff policy"
  using assms by (auto simp: capped_backoff_def Let_def)

section \<open>Success comes from an attempt\<close>

lemma loop_true:
  assumes "retry_loop policy jitter sleep fn k ok st = (True, st')"
    and "ok \<Longrightarrow> \<exists>st0. fn st0 = (True, st)"
  shows "\<exists>st0. fn st0 = (True, st')"
  using assms
proof (induction "nat (max_attempts policy - k)" arbitrary: k ok st)
  case 0
  then show ?case by (simp add: retry_loop.simps)
next
  case (Suc n)
  obtain ok1 st1 where f: "fn (retry_pause policy jitter sleep k st) = (ok1, st1)" by force
  have more: "k < max_attempts policy" and n: "n = nat (max_attempts policy - (k + 1))"
    using Suc.hyps(2) by linarith+
  show ?case
  proof (cases ok)
    case True
    then show ?thesis using Suc.prems more by (simp add: retry_loop.simps [of policy])
  next
    case False
    then have "retry_loop policy jitter sleep fn (k + 1) ok1 st1 = (True, st')"
      using Suc.prems(1) more f by (simp add: retry_loop.simps [of policy _ _ _ k])
    then show ?thesis by (rule Suc.hyps(1) [OF n]) (use f in auto)
  qed
qed

lemma retry_true:
  "RetryIfRetryable policy jitter sleep fn st = (True, st') \<Longrightarrow> \<exists>st0. fn st0 = (True, st')"
  using loop_true by (fastforce simp: RetryIfRetryable_def split: prod.splits)

section \<open>What the loop keeps\<close>

locale retried_attempt =
  fixes fn :: "'st \<Rightarrow> bool \<times> 'st"
    and jitter :: "'st \<Rightarrow> nat \<times> 'st"
    and sleep :: "int \<Rightarrow> 'st \<Rightarrow> 'st"
    and inv :: "'st \<Rightarrow> bool"
    and achieved :: "'st \<Rightarrow> bool"
  assumes fn_inv: "inv st \<Longrightarrow> fn st = (ok, st') \<Longrightarrow> inv st' \<and> (ok \<longrightarrow> achieved st')"
    and jitter_inv: "inv st \<Longrightarrow> jitter st = (m, st') \<Longrightarrow> inv st'"
    and sleep_inv: "inv st \<Longrightarrow> inv (sleep ms st)"
begin

lemma pause_inv: "inv st \<Longrightarrow> inv (retry_pause policy jitter sleep k st)"
  using jitter_inv sleep_inv by (auto simp: retry_pause_def split: prod.splits)

lemma loop_inv:
  assumes "inv st" and "ok \<Longrightarrow> achieved st"
    and "retry_loop policy jitter sleep fn k ok st = (ok', st')"
  shows "inv st' \<and> (ok' \<longrightarrow> achieved st')"
  using assms
proof (induction "nat (max_attempts policy - k)" arbitrary: k ok st)
  case 0
  then show ?case by (simp add: retry_loop.simps)
next
  case (Suc n)
  obtain ok1 st1 where f: "fn (retry_pause policy jitter sleep k st) = (ok1, st1)" by force
  have st1: "inv st1" "ok1 \<longrightarrow> achieved st1" using fn_inv [OF pause_inv [OF Suc.prems(1)] f] by auto
  have more: "k < max_attempts policy" and n: "n = nat (max_attempts policy - (k + 1))"
    using Suc.hyps(2) by linarith+
  show ?case
  proof (cases ok)
    case True
    then show ?thesis using Suc.prems more by (simp add: retry_loop.simps [of policy])
  next
    case False
    then have "retry_loop policy jitter sleep fn (k + 1) ok1 st1 = (ok', st')"
      using Suc.prems(3) more f by (simp add: retry_loop.simps [of policy _ _ _ k])
    then show ?thesis using Suc.hyps(1) [OF n st1(1)] st1(2) by blast
  qed
qed

lemma retry_inv:
  assumes "inv st" and "RetryIfRetryable policy jitter sleep fn st = (ok, st')"
  shows "inv st' \<and> (ok \<longrightarrow> achieved st')"
proof -
  obtain ok1 st1 where f: "fn st = (ok1, st1)" by force
  then show ?thesis
    using fn_inv [OF assms(1) f] loop_inv [of st1 ok1 policy 1 ok st'] assms(2)
    by (simp add: RetryIfRetryable_def)
qed

end

locale metered_attempt = retried_attempt +
  fixes cost :: "'a \<Rightarrow> nat"
  assumes fn_cost: "inv st \<Longrightarrow> fn st = (ok, st') \<Longrightarrow> cost st' \<le> Suc (cost st)"
    and jitter_cost: "jitter st = (m, st') \<Longrightarrow> cost st' = cost st"
    and sleep_cost: "cost (sleep ms st) = cost st"
begin

lemma pause_cost: "cost (retry_pause policy jitter sleep k st) = cost st"
  using jitter_cost sleep_cost by (auto simp: retry_pause_def split: prod.splits)

lemma loop_cost:
  "inv st \<Longrightarrow>
   cost (snd (retry_loop policy jitter sleep fn k ok st)) \<le> cost st + nat (max_attempts policy - k)"
proof (induction "nat (max_attempts policy - k)" arbitrary: k ok st)
  case 0
  then show ?case by (simp add: retry_loop.simps)
next
  case (Suc n)
  obtain ok1 st1 where f: "fn (retry_pause policy jitter sleep k st) = (ok1, st1)" by force
  have p: "inv (retry_pause policy jitter sleep k st)" using pause_inv [OF Suc.prems] .
  have st1: "inv st1" using fn_inv [OF p f] by simp
  have "cost st1 \<le> Suc (cost st)" using fn_cost [OF p f] pause_cost by simp
  moreover have n: "n = nat (max_attempts policy - (k + 1))" using Suc.hyps(2) by linarith
  ultimately have "cost (snd (retry_loop policy jitter sleep fn (k + 1) ok1 st1)) \<le> Suc (cost st) + n"
    using Suc.hyps(1) [OF n st1, of ok1] n by linarith
  then show ?case
    using f Suc.hyps(2) by (subst retry_loop.simps) simp
qed

lemma retry_cost:
  assumes "inv st" "1 \<le> max_attempts policy"
  shows "cost (snd (RetryIfRetryable policy jitter sleep fn st)) \<le> cost st + nat (max_attempts policy)"
proof -
  obtain ok st1 where f: "fn st = (ok, st1)" by force
  then have "inv st1" using fn_inv [OF assms(1) f] by simp
  then show ?thesis
    using fn_cost [OF assms(1) f] loop_cost [of st1 policy 1 ok] assms f
    by (simp add: RetryIfRetryable_def nat_diff_distrib)
qed

end

text \<open>The loop with the policy the client uses, written out.\<close>

lemma Retry_default:
  "RetryIfRetryable default_policy jitter sleep fn st =
     (case fn st of (True, st1) \<Rightarrow> (True, st1)
      | (False, st1) \<Rightarrow>
         (case fn (retry_pause default_policy jitter sleep 1 st1) of (True, st2) \<Rightarrow> (True, st2)
          | (False, st2) \<Rightarrow> fn (retry_pause default_policy jitter sleep 2 st2)))"
  by (simp add: RetryIfRetryable_def default_policy_def retry_loop.simps split: prod.split bool.split)

end
