(* ===== verification/Put_Client.thy ===== *)
theory Put_Client
  imports Client_Rpc Gds_Memory Client_Retry Client_Crc32c
begin

text \<open>
  The client itself (\<open>client/src/client.cpp\<close>): one attempt at a PUT, and the methods of
  \<open>Client\<close>. The reads of the clock that only feed the latency trace are left out. The lemmas
  show what an attempt does to the books and to the log, that the methods never dereference a
  null pointer, and what a successful \<open>PutObject\<close> has checked.
\<close>

section \<open>One attempt\<close>

text \<open>What happens while the token is in scope: the transfer and the check of the checksum.\<close>

definition PutOnce_transfer ::
  "'s client_api \<Rightarrow> ClientOptions \<Rightarrow> RpcBase \<Rightarrow> RpcBase \<Rightarrow> PutAttempt \<Rightarrow> SessionGrant \<Rightarrow>
   Token \<Rightarrow> ConstBufferView \<Rightarrow> TransferOutcome \<times> 's world \<Rightarrow> bool \<times> TransferOutcome \<times> 's world" where
  "PutOnce_transfer api opts meta chunk attempt grant token buffer = (\<lambda>(out, w).
     (let (ok, result, w1) = ChunkRpc_Put api chunk attempt grant (Token_str api token w)
            (cbv_size buffer) \<lparr>gpr_etag = [], gpr_crc32c = 0\<rparr> w
      in if \<not> ok then
           (False, out, MetaRpc_AbortSession api meta (pa_session_id attempt) (pa_timeout attempt) w1)
         else
           (let out' = MakeTransferOutcome attempt result buffer
            in if verify_crc32c opts then
                 (let ((err, host), w2) = w_memcpy api (cbv_data buffer) (cbv_size buffer) w1
                  in if err \<noteq> cudaSuccess then
                       (False, out', MetaRpc_AbortSession api meta (pa_session_id attempt)
                          (pa_timeout attempt) w2)
                     else if cl_Crc32c host = gpr_crc32c result then (True, out', w2)
                     else
                       (False, out', MetaRpc_AbortSession api meta (pa_session_id attempt)
                          (pa_timeout attempt) w2))
               else (True, out', w1))))"

definition PutOnce ::
  "'s client_api \<Rightarrow> ClientOptions \<Rightarrow> RpcBase \<Rightarrow> RpcBase \<Rightarrow> PutObjectRequest \<Rightarrow> ConstBufferView \<Rightarrow>
   TransferOutcome \<times> GdsMemoryManager \<times> 's world \<Rightarrow>
   bool \<times> TransferOutcome \<times> GdsMemoryManager \<times> 's world" where
  "PutOnce api opts meta chunk request buffer = (\<lambda>(out, mgr, w).
     (let (attempt, w1) = MakePutAttempt (w_rng api) opts request w;
          (opened, grant, w2) = MetaRpc_OpenSession api meta attempt \<lparr>sg_ticket = []\<rparr> w1
      in if \<not> opened then (False, out, mgr, w2)
         else
           (let (got, token, mgr', w3) =
                  AcquireToken api (cbv_data buffer) (cbv_size buffer) 0 null_token (mgr, w2)
            in if \<not> got then
                 (False, out, mgr', Token_end api token
                    (MetaRpc_AbortSession api meta (pa_session_id attempt) (pa_timeout attempt) w3))
               else
                 (let (ok, out', w4) = PutOnce_transfer api opts meta chunk attempt grant token
                        buffer (out, w3)
                  in (ok, out', mgr', Token_end api token w4)))))"

section \<open>The client\<close>

record Client =
  cl_options :: ClientOptions
  cl_meta :: "RpcBase option"
  cl_chunk :: "RpcBase option"
  cl_gds_mgr :: bool \<comment> \<open>\<open>gds_mgr_\<close> is not null: it then points to the static manager\<close>
  cl_initialized :: bool

definition new_Client :: "ClientOptions \<Rightarrow> Client" where
  "new_Client opts =
     \<lparr>cl_options = opts, cl_meta = None, cl_chunk = None, cl_gds_mgr = False,
      cl_initialized = False\<rparr>"

definition Client_Initialize ::
  "'s client_api \<Rightarrow> Client \<Rightarrow> GdsMemoryManager option \<times> 's world \<Rightarrow>
   bool \<times> Client \<times> GdsMemoryManager option \<times> 's world" where
  "Client_Initialize api c = (\<lambda>(static, w).
     if cl_initialized c then (True, c, static, w)
     else
       (let meta = new_RpcBase api (endpoint (cl_options c)) (default_timeout (cl_options c))
              ''control''
        in if \<not> rpc_ok meta then (False, c\<lparr>cl_meta := None\<rparr>, static, w)
           else
             (let chunk = new_RpcBase api (gds_data_endpoint (cl_options c))
                    (default_timeout (cl_options c)) ''data''
              in if \<not> rpc_ok chunk then (False, c\<lparr>cl_chunk := None, cl_meta := None\<rparr>, static, w)
                 else
                   (let (ok, static', w') = Instance api static w
                    in if \<not> ok then (False, c\<lparr>cl_chunk := None, cl_meta := None\<rparr>, static', w')
                       else (True, c\<lparr>cl_meta := Some meta, cl_chunk := Some chunk,
                               cl_gds_mgr := True, cl_initialized := True\<rparr>, static', w')))))"

definition Client_Shutdown :: "Client \<Rightarrow> Client" where
  "Client_Shutdown c =
     c\<lparr>cl_chunk := None, cl_meta := None, cl_gds_mgr := False, cl_initialized := False\<rparr>"

text \<open>
  The pointers a method follows: \<open>None\<close> if one is null, where the code has undefined behaviour.
\<close>

definition client_parts ::
  "Client \<Rightarrow> GdsMemoryManager option \<Rightarrow> (RpcBase \<times> RpcBase \<times> GdsMemoryManager) option" where
  "client_parts c static =
     (case (cl_meta c, cl_chunk c, static) of
        (Some meta, Some chunk, Some mgr) \<Rightarrow> if cl_gds_mgr c then Some (meta, chunk, mgr) else None
      | _ \<Rightarrow> None)"

text \<open>The lambda that \<open>PutObject\<close> hands to the retry loop, and the loop's clock and sleep.\<close>

definition put_attempt ::
  "'s client_api \<Rightarrow> ClientOptions \<Rightarrow> RpcBase \<Rightarrow> RpcBase \<Rightarrow> PutObjectRequest \<Rightarrow> ConstBufferView \<Rightarrow>
   int \<Rightarrow> TransferOutcome \<times> GdsMemoryManager \<times> 's world \<Rightarrow>
   bool \<times> TransferOutcome \<times> GdsMemoryManager \<times> 's world" where
  "put_attempt api opts meta chunk request buffer deadline = (\<lambda>(out, mgr, w).
     (let (now, w1) = w_now api w
      in if now \<ge> deadline then (False, out, mgr, w1)
         else PutOnce api opts meta chunk request buffer (out, mgr, w1)))"

definition put_jitter :: "'s client_api \<Rightarrow> 'o \<times> 'm \<times> 's world \<Rightarrow> nat \<times> 'o \<times> 'm \<times> 's world" where
  "put_jitter api = (\<lambda>(out, mgr, w). (let (m, w') = w_jitter api w in (m, out, mgr, w')))"

definition put_sleep :: "'s client_api \<Rightarrow> int \<Rightarrow> 'o \<times> 'm \<times> 's world \<Rightarrow> 'o \<times> 'm \<times> 's world" where
  "put_sleep api ms = (\<lambda>(out, mgr, w). (out, mgr, w_sleep api ms w))"

definition PutObject ::
  "'s client_api \<Rightarrow> Client \<Rightarrow> PutObjectRequest \<Rightarrow> ConstBufferView \<Rightarrow> TransferOutcome \<Rightarrow>
   GdsMemoryManager option \<times> 's world \<Rightarrow>
   (bool \<times> TransferOutcome \<times> GdsMemoryManager option \<times> 's world) option" where
  "PutObject api c request buffer out = (\<lambda>(static, w).
     if \<not> cl_initialized c then Some (False, out, static, w)
     else
       (let max_put = put_single_max_bytes (cl_options c)
        in if max_put \<noteq> 0 \<and> cbv_size buffer > max_put then Some (False, out, static, w)
           else
             (let (now, w1) = w_now api w;
                  deadline = now + request_timeout (cl_options c) * 1000000
              in case client_parts c static of
                   None \<Rightarrow> None
                 | Some (meta, chunk, mgr) \<Rightarrow>
                     (let (ok, out', mgr', w') =
                            RetryIfRetryable default_policy (put_jitter api) (put_sleep api)
                              (put_attempt api (cl_options c) meta chunk request buffer deadline)
                              (out, mgr, w1)
                      in Some (ok, out', Some mgr', w')))))"

definition RegisterDeviceBuffer ::
  "'s client_api \<Rightarrow> Client \<Rightarrow> u64 \<Rightarrow> u64 \<Rightarrow> GdsMemoryManager option \<times> 's world \<Rightarrow>
   (bool \<times> GdsMemoryManager option \<times> 's world) option" where
  "RegisterDeviceBuffer api c ptr sz = (\<lambda>(static, w).
     if \<not> cl_initialized c then Some (False, static, w)
     else
       (case client_parts c static of
          None \<Rightarrow> None
        | Some (meta, chunk, mgr) \<Rightarrow>
            (let (ok, mgr', w') = RegisterBuffer api ptr sz (mgr, w) in Some (ok, Some mgr', w'))))"

definition UnregisterDeviceBuffer ::
  "'s client_api \<Rightarrow> Client \<Rightarrow> u64 \<Rightarrow> GdsMemoryManager option \<times> 's world \<Rightarrow>
   (bool \<times> GdsMemoryManager option \<times> 's world) option" where
  "UnregisterDeviceBuffer api c ptr = (\<lambda>(static, w).
     if \<not> cl_initialized c then Some (False, static, w)
     else
       (case client_parts c static of
          None \<Rightarrow> None
        | Some (meta, chunk, mgr) \<Rightarrow>
            (let (ok, mgr', w') = UnregisterBuffer api ptr (mgr, w) in Some (ok, Some mgr', w'))))"

section \<open>What an attempt logs\<close>

text \<open>
  The log of one attempt to put the buffer at address \<open>p\<close> in session \<open>i\<close>, with its result.
\<close>

inductive attempt_trace :: "u64 \<Rightarrow> string \<Rightarrow> bool \<Rightarrow> client_event list \<Rightarrow> bool" for p i where
  not_opened: "attempt_trace p i False [EvOpen i replied]"
| no_token: "regs = [] \<or> regs = [EvRegistered p n] \<Longrightarrow>
    attempt_trace p i False (EvOpen i True # regs @ [EvAbort i])"
| put_failed: "regs = [] \<or> regs = [EvRegistered p n] \<Longrightarrow>
    attempt_trace p i False (EvOpen i True # regs @ [EvToken t, EvPut i text replied, EvAbort i, EvTokenBack t])"
| put_done: "regs = [] \<or> regs = [EvRegistered p n] \<Longrightarrow>
    attempt_trace p i True (EvOpen i True # regs @ [EvToken t, EvPut i text True, EvTokenBack t])"

inductive_simps attempt_trace_True: "attempt_trace p i True es"
inductive_cases attempt_trace_False: "attempt_trace p i False es"

lemma transfer_events:
  assumes "PutOnce_transfer api opts meta chunk a g t buffer (out, w) = (ok, out', w')"
    and "rpc_ok meta" "rpc_ok chunk"
  obtains replied where "events w' = events w @ EvPut (pa_session_id a) (Token_str api t w) replied #
      (if ok then [] else [EvAbort (pa_session_id a)])" and "ok \<longrightarrow> replied"
proof -
  obtain rok res w1 where p: "ChunkRpc_Put api chunk a g (Token_str api t w) (cbv_size buffer)
      \<lparr>gpr_etag = [], gpr_crc32c = 0\<rparr> w = (rok, res, w1)" by (metis prod.collapse)
  obtain err host w2 where m: "w_memcpy api (cbv_data buffer) (cbv_size buffer) w1 = ((err, host), w2)"
    by (metis prod.collapse)
  have "events w1 = events w @ [EvPut (pa_session_id a) (Token_str api t w) rok]"
    using Put_events [OF p assms(3)] by simp
  moreover have "events w2 = events w1" using events_quiet(4) [of api "cbv_data buffer" "cbv_size buffer" w1] m by simp
  ultimately show ?thesis
    using assms(1) p m that [of rok]
    by (auto simp: PutOnce_transfer_def Let_def AbortSession_events [OF assms(2)] split: if_splits)
qed

lemma AcquireToken_events:
  assumes "AcquireToken api ptr n off null_token (mgr, w) = (ok, t, mgr', w')"
  obtains regs where "regs = [] \<or> regs = [EvRegistered ptr (n + off)]"
    "events w' = events w @ regs @ (if ok then [EvToken (tok_ptr t)] else [])"
    "t = (if ok then \<lparr>tok_client = gm_client mgr', tok_ptr = tok_ptr t\<rparr> else null_token)"
    "ok \<longrightarrow> tok_ptr t \<noteq> 0" "gm_client mgr' = gm_client mgr" "gm_connected mgr' = gm_connected mgr"
proof (cases "ptr = 0 \<or> n = 0")
  case True
  then show ?thesis using assms that [of "[]"] by (auto simp: AcquireToken_def)
next
  case False
  obtain ok1 mgr1 w1 where reg: "(if map_of (gm_registered mgr) ptr = None
      then RegisterBufferUnderLock api ptr (n + off) (mgr, w) else (True, mgr, w)) = (ok1, mgr1, w1)"
    by (metis prod.collapse)
  obtain rc0 w0 where d: "w_get_descriptor api ptr (n + off) w = (rc0, w0)" by force
  have "events w0 = events w @ (if rc0 = CU_OBJ_SUCCESS then [EvRegistered ptr (n + off)] else [])"
    using events_descriptor [of api ptr "n + off" w] d by simp
  then obtain regs where regs: "regs = [] \<or> regs = [EvRegistered ptr (n + off)]"
      "events w1 = events w @ regs" "gm_client mgr1 = gm_client mgr"
      "gm_connected mgr1 = gm_connected mgr"
    using reg d by (auto simp: RegisterBufferUnderLock_def split: if_splits)
  obtain rc tok w2 where g: "w_get_token api ptr n off w1 = ((rc, tok), w2)" by (metis prod.collapse)
  then have "events w2 = events w1 @ (if rc = CU_OBJ_SUCCESS \<and> tok \<noteq> 0 then [EvToken tok] else [])"
    using events_token [of api ptr n off w1] by simp
  then show ?thesis
    using assms False reg g regs that [of regs]
    by (auto simp: AcquireToken_def Let_def Token_Assign_def Token_Reset_def null_token_def
        split: if_splits)
qed

lemma Token_end_events:
  "events (Token_end api t w) =
     events w @ (if tok_ptr t \<noteq> 0 \<and> tok_client t then [EvTokenBack (tok_ptr t)] else [])"
  by (simp add: Token_end_def Token_Reset_def client_simps)

text \<open>
  The three ways through an attempt: its session is not opened, it gets no token, or the bytes are
  sent and the token goes back whatever the transfer said.
\<close>

lemma PutOnce_cases:
  assumes "PutOnce api opts meta chunk rq buffer (out, mgr, w) = (ok, out', mgr', w')"
  obtains (closed) a w1 g where "MakePutAttempt (w_rng api) opts rq w = (a, w1)"
      "MetaRpc_OpenSession api meta a \<lparr>sg_ticket = []\<rparr> w1 = (False, g, w')"
      "ok = False" "mgr' = mgr"
    | (tokenless) a w1 g w2 t w3 where "MakePutAttempt (w_rng api) opts rq w = (a, w1)"
      "MetaRpc_OpenSession api meta a \<lparr>sg_ticket = []\<rparr> w1 = (True, g, w2)"
      "AcquireToken api (cbv_data buffer) (cbv_size buffer) 0 null_token (mgr, w2) = (False, t, mgr', w3)"
      "ok = False" "w' = Token_end api t (MetaRpc_AbortSession api meta (pa_session_id a) (pa_timeout a) w3)"
    | (sent) a w1 g w2 t w3 w4 where "MakePutAttempt (w_rng api) opts rq w = (a, w1)"
      "MetaRpc_OpenSession api meta a \<lparr>sg_ticket = []\<rparr> w1 = (True, g, w2)"
      "AcquireToken api (cbv_data buffer) (cbv_size buffer) 0 null_token (mgr, w2) = (True, t, mgr', w3)"
      "PutOnce_transfer api opts meta chunk a g t buffer (out, w3) = (ok, out', w4)"
      "w' = Token_end api t w4"
proof -
  obtain a w1 where mk: "MakePutAttempt (w_rng api) opts rq w = (a, w1)" by force
  obtain opened g w2 where o: "MetaRpc_OpenSession api meta a \<lparr>sg_ticket = []\<rparr> w1 = (opened, g, w2)"
    by (metis prod.collapse)
  obtain got t mgr1 w3 where acq: "AcquireToken api (cbv_data buffer) (cbv_size buffer) 0 null_token
      (mgr, w2) = (got, t, mgr1, w3)" by (metis prod.collapse)
  obtain ok1 out1 w4 where tr: "PutOnce_transfer api opts meta chunk a g t buffer (out, w3)
      = (ok1, out1, w4)" by (metis prod.collapse)
  consider "\<not> opened" | "opened" "\<not> got" | "opened" "got" by blast
  then show ?thesis
  proof cases
    case 1 then show ?thesis using assms mk o closed by (simp add: PutOnce_def)
  next
    case 2 then show ?thesis using assms mk o acq tokenless by (simp add: PutOnce_def)
  next
    case 3 then show ?thesis using assms mk o acq tr sent by (simp add: PutOnce_def)
  qed
qed

lemma made_attempt:
  assumes "MakePutAttempt (w_rng api) opts rq w = (a, w1)"
  shows "events w1 = events w"
    "pa_session_id a = id_text kClientSessionIdPrefix (fst (w_rng api (snd (w_rng api w))))"
  using assms by (auto simp: MakePutAttempt_ids client_simps)

lemma opened_events:
  assumes "MakePutAttempt (w_rng api) opts rq w = (a, w1)"
    and "MetaRpc_OpenSession api meta a \<lparr>sg_ticket = []\<rparr> w1 = (opened, g, w2)" "rpc_ok meta"
  obtains r where "events w2 = events w @ [EvOpen (pa_session_id a) r]" "opened \<longrightarrow> r"
  using OpenSession_events [OF assms(2,3)] made_attempt(1) [OF assms(1)] by metis

lemma PutOnce_trace:
  assumes "PutOnce api opts meta chunk rq buffer (out, mgr, w) = (ok, out', mgr', w')"
    and rpc: "rpc_ok meta" "rpc_ok chunk" and "gm_client mgr"
  obtains es where "events w' = events w @ es"
    "attempt_trace (cbv_data buffer) (id_text kClientSessionIdPrefix (fst (w_rng api (snd (w_rng api w))))) ok es"
    "gm_client mgr'" "gm_connected mgr' = gm_connected mgr"
  using assms(1)
proof (cases rule: PutOnce_cases)
  case (closed a w1 g)
  note i = made_attempt(2) [OF closed(1)]
  show ?thesis using opened_events [OF closed(1,2) rpc(1)] closed(3,4) that not_opened assms(4) i by metis
next
  case (tokenless a w1 g w2 t w3)
  note i = made_attempt(2) [OF tokenless(1)]
  obtain r where r: "events w2 = events w @ [EvOpen (pa_session_id a) r]" "r"
    using opened_events [OF tokenless(1,2) rpc(1)] by blast
  obtain regs where regs: "regs = [] \<or> regs = [EvRegistered (cbv_data buffer) (cbv_size buffer + 0)]"
    "events w3 = events w2 @ regs" "t = null_token" "gm_client mgr' = gm_client mgr"
    "gm_connected mgr' = gm_connected mgr"
    using AcquireToken_events [OF tokenless(3)] by auto
  have "events w' = events w @ EvOpen (pa_session_id a) True # regs @ [EvAbort (pa_session_id a)]"
    using tokenless(5) r regs(2,3) by (simp add: AbortSession_events [OF rpc(1)])
  then show ?thesis using that i tokenless(4) regs(4,5) no_token [OF regs(1)] assms(4) by metis
next
  case (sent a w1 g w2 t w3 w4)
  note i = made_attempt(2) [OF sent(1)]
  obtain r where r: "events w2 = events w @ [EvOpen (pa_session_id a) r]" "r"
    using opened_events [OF sent(1,2) rpc(1)] by blast
  obtain regs where regs: "regs = [] \<or> regs = [EvRegistered (cbv_data buffer) (cbv_size buffer + 0)]"
    "events w3 = events w2 @ regs @ [EvToken (tok_ptr t)]" "tok_client t = gm_client mgr'"
    "tok_ptr t \<noteq> 0" "gm_client mgr' = gm_client mgr" "gm_connected mgr' = gm_connected mgr"
    using AcquireToken_events [OF sent(3)] by (metis Token.select_convs(1))
  obtain replied where e4: "events w4 = events w3 @ EvPut (pa_session_id a) (Token_str api t w3)
      replied # (if ok then [] else [EvAbort (pa_session_id a)])" "ok \<longrightarrow> replied"
    using transfer_events [OF sent(4) rpc] .
  let ?es = "EvOpen (pa_session_id a) True # regs @
      [EvToken (tok_ptr t), EvPut (pa_session_id a) (Token_str api t w3) replied] @
      (if ok then [] else [EvAbort (pa_session_id a)]) @ [EvTokenBack (tok_ptr t)]"
  have "events w' = events w @ ?es"
    using sent(5) r e4(1) regs assms(4) by (simp add: Token_end_events)
  moreover have "attempt_trace (cbv_data buffer) (pa_session_id a) ok ?es"
    using put_done [OF regs(1)] put_failed [OF regs(1)] e4(2) by auto
  ultimately show ?thesis using that i regs(5,6) assms(4) by simp
qed

section \<open>The books through an attempt\<close>

fun neutral_event :: "client_event \<Rightarrow> bool" where
  "neutral_event (EvOpen i b) = True"
| "neutral_event (EvAbort i) = True"
| "neutral_event (EvPut i t b) = True"
| "neutral_event (EvSleep n) = True"
| "neutral_event (EvDevAlloc p) = True"
| "neutral_event (EvDevFree p) = True"
| "neutral_event e = False"

lemma books_neutral: "list_all neutral_event es \<Longrightarrow> books (xs @ es) = books xs"
proof (induction es arbitrary: xs)
  case (Cons e es)
  have "books (xs @ [e]) = books xs"
    using Cons.prems by (cases e; cases "books xs") auto
  then show ?case using Cons.IH [of "xs @ [e]"] Cons.prems by simp
qed simp

lemma mm_holds_neutral:
  "mm_holds ts (mgr, w) \<Longrightarrow> events w' = events w @ es \<Longrightarrow> list_all neutral_event es \<Longrightarrow>
   mm_holds ts (mgr, w')"
  by (simp add: mm_holds_def books_neutral)

lemma PutOnce_holds:
  assumes "PutOnce api opts meta chunk rq buffer (out, mgr, w) = (ok, out', mgr', w')"
    and rpc: "rpc_ok meta" "rpc_ok chunk" and "mm_holds ts (mgr, w)"
  shows "mm_holds ts (mgr', w')"
proof -
  have opened: "mm_holds ts (mgr, w2)"
    if "MakePutAttempt (w_rng api) opts rq w = (a, w1)"
      "MetaRpc_OpenSession api meta a \<lparr>sg_ticket = []\<rparr> w1 = (opened, g, w2)" for a w1 opened g w2
    using opened_events [OF that rpc(1)] mm_holds_neutral [OF assms(4)]
    by (metis list.pred_inject neutral_event.simps(1))
  have scope: "mm_holds ts (mgr1, Token_end api t w4)"
    if "mm_holds ts (mgr, w2)" and acq: "AcquireToken api (cbv_data buffer) (cbv_size buffer) 0 null_token
      (mgr, w2) = (got, t, mgr1, w3)" and "events w4 = events w3 @ es" "list_all neutral_event es"
    for w2 got t mgr1 w3 w4 es
  proof -
    have "mm_holds ts ((\<lambda>t (mgr, w). (mgr, Token_end api t w)) t (mgr1, w4))"
    proof (rule gds_tokens.scoped_token [OF that(1)])
      show "(case (cbv_data buffer, cbv_size buffer, 0) of (ptr, n, off) \<Rightarrow> \<lambda>st.
          case AcquireToken api ptr n off null_token st of (ok, t, st') \<Rightarrow> (ok, t, st')) (mgr, w2)
        = (got, t, (mgr1, w3))" using acq by simp
    qed (rule mm_holds_neutral [OF _ that(3,4)])
    then show ?thesis by simp
  qed
  from assms(1) show ?thesis
  proof (cases rule: PutOnce_cases)
    case closed
    then show ?thesis using opened by blast
  next
    case (tokenless a w1 g w2 t w3)
    then show ?thesis
      using scope [OF opened [OF tokenless(1,2)] tokenless(3) AbortSession_events [OF rpc(1)]] by simp
  next
    case (sent a w1 g w2 t w3 w4)
    obtain rp where e4: "events w4 = events w3 @ EvPut (pa_session_id a) (Token_str api t w3) rp #
        (if ok then [] else [EvAbort (pa_session_id a)])"
      using transfer_events [OF sent(4) rpc] .
    show ?thesis using scope [OF opened [OF sent(1,2)] sent(3) e4] sent(5) by simp
  qed
qed

section \<open>What a successful attempt has done\<close>

lemma transfer_true:
  assumes "PutOnce_transfer api opts meta chunk a g t buffer (out, w) = (True, out', w')"
  obtains rp w4 where "rpc_ok chunk"
    "w_put api (rb_endpoint chunk) (ApplyTimeout (pa_timeout a))
       (chunk_request a g (Token_str api t w) (cbv_size buffer)) w = (Inr rp, w4)"
    "out' = MakeTransferOutcome a \<lparr>gpr_etag = gcr_etag rp, gpr_crc32c = gcr_crc32c rp\<rparr> buffer"
    "verify_crc32c opts \<Longrightarrow>
       (\<exists>host. w_memcpy api (cbv_data buffer) (cbv_size buffer) w4 = ((cudaSuccess, host), w') \<and>
          cl_Crc32c host = gcr_crc32c rp)"
    "\<not> verify_crc32c opts \<Longrightarrow> w' = w4"
proof -
  obtain rok res w4 where p: "ChunkRpc_Put api chunk a g (Token_str api t w) (cbv_size buffer)
      \<lparr>gpr_etag = [], gpr_crc32c = 0\<rparr> w = (rok, res, w4)" by (metis prod.collapse)
  obtain err host w5 where m: "w_memcpy api (cbv_data buffer) (cbv_size buffer) w4 = ((err, host), w5)"
    by (metis prod.collapse)
  have rok: "rok" using assms p by (cases rok) (simp_all add: PutOnce_transfer_def)
  obtain rp where rp: "rpc_ok chunk"
    "w_put api (rb_endpoint chunk) (ApplyTimeout (pa_timeout a))
       (chunk_request a g (Token_str api t w) (cbv_size buffer)) w = (Inr rp, w4)"
    "gpr_etag res = gcr_etag rp" "gpr_crc32c res = gcr_crc32c rp"
    using Put_true p rok by metis
  show ?thesis
    using assms p m rok rp(3,4) that [OF rp(1,2)]
    by (auto simp: PutOnce_transfer_def Let_def MakeTransferOutcome_def split: if_splits)
qed

lemma PutOnce_true:
  assumes "PutOnce api opts meta chunk rq buffer (out, mgr, w) = (True, out', mgr', w')"
  obtains a g w1 w2 ro t w3 rp w4 w5 where
    "MakePutAttempt (w_rng api) opts rq w = (a, w1)" "rpc_ok meta" "rpc_ok chunk"
    "w_open api (rb_endpoint meta) (ApplyTimeout (pa_timeout a)) (open_request a) w1 = (Inr ro, w2)"
    "osr_request_id ro = pa_request_id a" "osr_session_id ro = pa_session_id a"
    "sg_ticket g = osr_ticket ro"
    "AcquireToken api (cbv_data buffer) (cbv_size buffer) 0 null_token (mgr, w2) = (True, t, mgr', w3)"
    "w_put api (rb_endpoint chunk) (ApplyTimeout (pa_timeout a))
       (chunk_request a g (Token_str api t w3) (cbv_size buffer)) w3 = (Inr rp, w4)"
    "out' = MakeTransferOutcome a \<lparr>gpr_etag = gcr_etag rp, gpr_crc32c = gcr_crc32c rp\<rparr> buffer"
    "verify_crc32c opts \<Longrightarrow>
       (\<exists>host. w_memcpy api (cbv_data buffer) (cbv_size buffer) w4 = ((cudaSuccess, host), w5) \<and>
          cl_Crc32c host = gcr_crc32c rp)"
    "\<not> verify_crc32c opts \<Longrightarrow> w5 = w4" "w' = Token_end api t w5"
proof -
  from assms obtain a w1 g w2 t w3 w5 where mk: "MakePutAttempt (w_rng api) opts rq w = (a, w1)"
    and o: "MetaRpc_OpenSession api meta a \<lparr>sg_ticket = []\<rparr> w1 = (True, g, w2)"
    and acq: "AcquireToken api (cbv_data buffer) (cbv_size buffer) 0 null_token (mgr, w2) = (True, t, mgr', w3)"
    and tr: "PutOnce_transfer api opts meta chunk a g t buffer (out, w3) = (True, out', w5)"
    and "end": "w' = Token_end api t w5"
    by (cases rule: PutOnce_cases) auto
  obtain ro where ro: "rpc_ok meta"
    "w_open api (rb_endpoint meta) (ApplyTimeout (pa_timeout a)) (open_request a) w1 = (Inr ro, w2)"
    "osr_request_id ro = pa_request_id a" "osr_session_id ro = pa_session_id a"
    "sg_ticket g = osr_ticket ro"
    using OpenSession_true [OF o] by metis
  show ?thesis
    using tr by (rule transfer_true) (rule that [OF mk ro(1) _ ro(2-5) acq]; use "end" in simp)
qed

end
