(* ===== verification/Client_Runs.thy ===== *)
theory Client_Runs
  imports Put_Client
begin

text \<open>
  The client over time: what its retry loop keeps and costs, the invariant of the client with
  the process-wide manager, and any sequence of the client's methods.
\<close>

section \<open>Attempts in the retry loop\<close>

text \<open>
  What \<open>PutObject\<close> has established when it answers true: the size it reports is the buffer's,
  and with \<open>verify_crc32c\<close> the checksum of a copy of the buffer is the one it reports.
\<close>

definition put_checked ::
  "'s client_api \<Rightarrow> ClientOptions \<Rightarrow> ConstBufferView \<Rightarrow> TransferOutcome \<Rightarrow> bool" where
  "put_checked api opts buffer out \<longleftrightarrow> to_bytes_transferred out = cbv_size buffer \<and>
     (verify_crc32c opts \<longrightarrow> (\<exists>host s s'. ca_memcpy api (cbv_data buffer) (cbv_size buffer) s =
        ((cudaSuccess, host), s') \<and> cl_Crc32c host = to_crc32c out))"

definition opens_of :: "'s world \<Rightarrow> nat" where
  "opens_of w = length (filter (\<lambda>e. case e of EvOpen i b \<Rightarrow> True | _ \<Rightarrow> False) (events w))"

definition attempt_inv :: "RpcBase \<Rightarrow> RpcBase \<Rightarrow> Token list \<Rightarrow> 'o \<times> GdsMemoryManager \<times> 's world \<Rightarrow> bool" where
  "attempt_inv meta chunk ts = (\<lambda>(out, mgr, w). rpc_ok meta \<and> rpc_ok chunk \<and>
     gm_connected mgr \<and> mm_holds ts (mgr, w))"

lemma PutOnce_checked:
  assumes "PutOnce api opts meta chunk rq buffer (out, mgr, w) = (True, out', mgr', w')"
  shows "put_checked api opts buffer out'"
  using assms
proof (rule PutOnce_true)
  fix a :: PutAttempt and rp w4 w5
  assume out: "out' = MakeTransferOutcome a \<lparr>gpr_etag = gcr_etag rp, gpr_crc32c = gcr_crc32c rp\<rparr> buffer"
    and chk: "verify_crc32c opts \<Longrightarrow> \<exists>host. w_memcpy api (cbv_data buffer) (cbv_size buffer) w4 =
      ((cudaSuccess, host), w5) \<and> cl_Crc32c host = gcr_crc32c rp"
  show ?thesis
    unfolding put_checked_def
  proof (intro conjI impI)
    assume "verify_crc32c opts"
    then obtain host where "w_memcpy api (cbv_data buffer) (cbv_size buffer) w4 =
      ((cudaSuccess, host), w5)" "cl_Crc32c host = gcr_crc32c rp" using chk by blast
    then show "\<exists>host s s'. ca_memcpy api (cbv_data buffer) (cbv_size buffer) s =
        ((cudaSuccess, host), s') \<and> cl_Crc32c host = to_crc32c out'"
      by (auto simp: out MakeTransferOutcome_def w_memcpy_def split: prod.splits)
  qed (simp add: out MakeTransferOutcome_def)
qed

lemma attempt_trace_opens:
  "attempt_trace p i ok es \<Longrightarrow>
   length (filter (\<lambda>e. case e of EvOpen i b \<Rightarrow> True | _ \<Rightarrow> False) es) = 1"
  by (induction rule: attempt_trace.induct) auto

lemma put_attempt_inv:
  assumes "attempt_inv meta chunk ts st"
    and "put_attempt api opts meta chunk rq buffer deadline st = (ok, st')"
  shows "attempt_inv meta chunk ts st' \<and> (ok \<longrightarrow> put_checked api opts buffer (fst st'))"
    and "opens_of (snd (snd st')) \<le> Suc (opens_of (snd (snd st)))"
proof -
  obtain out mgr w where st: "st = (out, mgr, w)" by (metis prod.collapse)
  obtain out' mgr' w' where st': "st' = (out', mgr', w')" by (metis prod.collapse)
  have inv: "rpc_ok meta" "rpc_ok chunk" "gm_connected mgr" "mm_holds ts (mgr, w)"
    using assms(1) by (auto simp: attempt_inv_def st)
  obtain now w1 where n: "w_now api w = (now, w1)" by force
  then have e1: "events w1 = events w" using events_quiet(3) [of api w] by simp
  then have h1: "mm_holds ts (mgr, w1)" using mm_holds_neutral [OF inv(4), of w1 "[]"] by simp
  have "attempt_inv meta chunk ts st' \<and> (ok \<longrightarrow> put_checked api opts buffer (fst st')) \<and>
      opens_of w' \<le> Suc (opens_of w)"
  proof (cases "deadline \<le> now")
    case True
    then show ?thesis
      using assms(2) n inv h1 e1
      by (auto simp: st st' put_attempt_def attempt_inv_def opens_of_def)
  next
    case False
    then have p: "PutOnce api opts meta chunk rq buffer (out, mgr, w1) = (ok, out', mgr', w')"
      using assms(2) n by (simp add: st st' put_attempt_def)
    have "gm_client mgr" using h1 by (simp add: mm_holds_def)
    then obtain es i where es: "events w' = events w1 @ es" "attempt_trace (cbv_data buffer) i ok es"
        "gm_connected mgr' = gm_connected mgr"
      using PutOnce_trace [OF p inv(1,2)] by metis
    have "opens_of w' = Suc (opens_of w)"
      using es(1) e1 attempt_trace_opens [OF es(2)] by (simp add: opens_of_def)
    then show ?thesis
      using PutOnce_holds [OF p inv(1,2) h1] PutOnce_checked [of api opts meta chunk rq buffer out mgr w1 out' mgr' w']
        p inv es(3) by (simp add: st st' attempt_inv_def)
  qed
  then show "attempt_inv meta chunk ts st' \<and> (ok \<longrightarrow> put_checked api opts buffer (fst st'))"
    "opens_of (snd (snd st')) \<le> Suc (opens_of (snd (snd st)))"
    by (simp_all add: st st')
qed

lemma put_jitter_quiet:
  "put_jitter api st = (m, st') \<Longrightarrow>
     fst st' = fst st \<and> fst (snd st') = fst (snd st) \<and> events (snd (snd st')) = events (snd (snd st))"
  using events_quiet(2) [of api "snd (snd st)"]
  by (cases st) (auto simp: put_jitter_def split: prod.splits)

lemma attempt_inv_neutral:
  "attempt_inv meta chunk ts (out, mgr, w) \<Longrightarrow> events w' = events w @ es \<Longrightarrow>
   list_all neutral_event es \<Longrightarrow> attempt_inv meta chunk ts (out', mgr, w')"
  using mm_holds_neutral by (fastforce simp: attempt_inv_def)

interpretation put_retry: metered_attempt
  "put_attempt api opts meta chunk rq buffer deadline"
  "put_jitter api" "put_sleep api" "attempt_inv meta chunk ts"
  "\<lambda>st. put_checked api opts buffer (fst st)" "\<lambda>st. opens_of (snd (snd st))"
  for api :: "'s client_api" and opts meta chunk rq buffer deadline ts
proof (unfold_locales, goal_cases)
  case (1 st ok st')
  then show ?case by (rule put_attempt_inv(1))
next
  case (2 st m st')
  then show ?case
    using put_jitter_quiet [OF 2(2)] attempt_inv_neutral [of meta chunk ts _ _ _ _ "[]"]
    by (cases st; cases st') auto
next
  case (3 st ms)
  obtain out mgr w where st: "st = (out, mgr, w)" by (metis prod.collapse)
  show ?case
    using attempt_inv_neutral [OF 3 [unfolded st] events_sleep] by (simp add: st put_sleep_def)
next
  case (4 st ok st')
  then show ?case by (rule put_attempt_inv(2))
next
  case (5 st m st')
  then show ?case using put_jitter_quiet [OF 5] by (simp add: opens_of_def)
next
  case (6 ms st)
  then show ?case by (cases st) (simp add: put_sleep_def opens_of_def client_simps)
qed

section \<open>The client and the process-wide manager\<close>

definition static_inv :: "GdsMemoryManager option \<times> 's world \<Rightarrow> bool" where
  "static_inv = (\<lambda>(static, w). case static of
     None \<Rightarrow> books (events w) = Some ({#}, {#})
   | Some mgr \<Rightarrow> (if gm_client mgr then mm_holds [] (mgr, w)
       else books (events w) = Some ({#}, {#}) \<and> gm_registered mgr = [] \<and> \<not> gm_connected mgr))"

definition client_ok :: "Client \<Rightarrow> GdsMemoryManager option \<Rightarrow> bool" where
  "client_ok c static \<longleftrightarrow> cl_initialized c \<longrightarrow>
     (\<exists>meta chunk mgr. client_parts c static = Some (meta, chunk, mgr) \<and> rpc_ok meta \<and>
        rpc_ok chunk \<and> gm_connected mgr)"

definition client_inv :: "Client \<times> GdsMemoryManager option \<times> 's world \<Rightarrow> bool" where
  "client_inv = (\<lambda>(c, static, w). client_ok c static \<and> static_inv (static, w))"

lemma client_parts_static:
  "client_parts c static = Some (meta, chunk, mgr) \<longleftrightarrow>
     cl_meta c = Some meta \<and> cl_chunk c = Some chunk \<and> static = Some mgr \<and> cl_gds_mgr c"
  by (auto simp: client_parts_def split: option.splits)

lemma client_ready:
  assumes "client_inv (c, static, w)" "cl_initialized c"
  obtains meta chunk mgr where "client_parts c static = Some (meta, chunk, mgr)" "static = Some mgr"
    "attempt_inv meta chunk [] (out, mgr, w)" "rpc_ok meta" "rpc_ok chunk" "gm_connected mgr"
    "mm_holds [] (mgr, w)"
  using assms by (auto simp: client_inv_def client_ok_def static_inv_def attempt_inv_def
      client_parts_static split: if_splits)

lemma client_back:
  assumes "client_parts c static = Some (meta, chunk, mgr)" "rpc_ok meta" "rpc_ok chunk"
    "gm_connected mgr'" "mm_holds [] (mgr', w')"
  shows "client_inv (c, Some mgr', w')"
proof -
  have "client_parts c (Some mgr') = Some (meta, chunk, mgr')"
    using assms(1) by (simp add: client_parts_static)
  then show ?thesis
    using assms(2-) by (auto simp: client_inv_def client_ok_def static_inv_def mm_holds_def)
qed

lemma static_inv_books:
  assumes "static_inv (static, w)" "events w' = events w"
  shows "static_inv (static, w')"
  using assms by (cases static) (auto simp: static_inv_def mm_holds_def)

lemma PutObject_inv:
  assumes "client_inv (c, static, w)"
  obtains ok out' static' w' where
    "PutObject api c rq buffer out (static, w) = Some (ok, out', static', w')"
    "client_inv (c, static', w')" "ok \<longrightarrow> put_checked api (cl_options c) buffer out'"
    "opens_of w' \<le> opens_of w + 3"
proof (cases "cl_initialized c \<and>
    \<not> (put_single_max_bytes (cl_options c) \<noteq> 0 \<and> put_single_max_bytes (cl_options c) < cbv_size buffer)")
  case False
  then have "PutObject api c rq buffer out (static, w) = Some (False, out, static, w)"
    by (auto simp: PutObject_def)
  then show ?thesis using that [of False out static w] assms by simp
next
  case True
  obtain now w1 where n: "w_now api w = (now, w1)" by force
  then have e1: "events w1 = events w" using events_quiet(3) [of api w] by simp
  obtain meta chunk mgr where r: "client_parts c static = Some (meta, chunk, mgr)" "static = Some mgr"
      "attempt_inv meta chunk [] (out, mgr, w)" "rpc_ok meta" "rpc_ok chunk"
    using client_ready assms True by metis
  define fn where "fn = put_attempt api (cl_options c) meta chunk rq buffer
     (now + request_timeout (cl_options c) * 1000000)"
  obtain ok out' mgr' w' where l: "RetryIfRetryable default_policy (put_jitter api) (put_sleep api) fn
      (out, mgr, w1) = (ok, out', mgr', w')" by (metis prod.collapse)
  have i1: "attempt_inv meta chunk [] (out, mgr, w1)"
    using attempt_inv_neutral [OF r(3), of w1 "[]"] e1 by simp
  have post: "attempt_inv meta chunk [] (out', mgr', w')" "ok \<longrightarrow> put_checked api (cl_options c) buffer out'"
    using put_retry.retry_inv [OF i1 l [unfolded fn_def]] by auto
  have "opens_of w' \<le> opens_of w1 + 3"
    using put_retry.retry_cost [OF i1, of default_policy api "cl_options c" rq buffer
        "now + request_timeout (cl_options c) * 1000000"] l
    by (simp add: default_policy_def fn_def)
  moreover have "PutObject api c rq buffer out (static, w) = Some (ok, out', Some mgr', w')"
    using True n r l by (auto simp: PutObject_def Let_def fn_def)
  moreover have "client_inv (c, Some mgr', w')"
    using post(1) by (intro client_back [OF r(1,4,5)]) (simp_all add: attempt_inv_def)
  ultimately show ?thesis using that post(2) e1 by (simp add: opens_of_def)
qed

lemma Instance_inv:
  assumes "static_inv (static, w)" and "Instance api static w = (ok, static', w')"
  shows "static_inv (static', w') \<and> (ok \<longrightarrow> (\<exists>mgr. static' = Some mgr \<and> gm_connected mgr))"
proof (cases static)
  case None
  obtain made w1 where n: "w_new_client api w = (made, w1)" by force
  have "events w1 = events w" using events_quiet(5) [of api w] n by simp
  then have "books (events w1) = Some ({#}, {#})"
    using assms(1) None by (simp add: static_inv_def)
  moreover have "static' = Some \<lparr>gm_client = made, gm_connected = (made \<and> ca_is_connected api (env w1)),
      gm_registered = []\<rparr>" "w' = w1" "ok = (made \<and> ca_is_connected api (env w1))"
    using assms(2) None n by (auto simp: Instance_def new_GdsMemoryManager_def)
  ultimately show ?thesis by (simp add: static_inv_def mm_holds_def)
next
  case (Some mgr)
  then show ?thesis using assms by (auto simp: Instance_def)
qed

lemma Initialize_inv:
  assumes "client_inv (c, static, w)"
    and "Client_Initialize api c (static, w) = (ok, c', static', w')"
  shows "client_inv (c', static', w') \<and> (ok \<longrightarrow> cl_initialized c') \<and> cl_options c' = cl_options c"
proof (cases "cl_initialized c")
  case True
  then show ?thesis using assms by (auto simp: Client_Initialize_def)
next
  case False
  obtain iok static1 w1 where i: "Instance api static w = (iok, static1, w1)" by (metis prod.collapse)
  have st: "static_inv (static, w)" using assms(1) by (simp add: client_inv_def)
  have inst: "static_inv (static1, w1)" "iok \<longrightarrow> (\<exists>mgr. static1 = Some mgr \<and> gm_connected mgr)"
    using Instance_inv [OF st i] by auto
  show ?thesis
    using assms(2) False i inst st
    by (auto simp: Client_Initialize_def Let_def client_inv_def client_ok_def client_parts_static
        split: if_splits)
qed

lemma Shutdown_inv: "client_inv (c, static, w) \<Longrightarrow> client_inv (Client_Shutdown c, static, w)"
  by (simp add: client_inv_def client_ok_def Client_Shutdown_def)

lemma RegisterBuffer_connected:
  "RegisterBuffer api p n (mgr, w) = (ok, mgr', w') \<Longrightarrow> gm_connected mgr' = gm_connected mgr"
  by (auto simp: RegisterBuffer_def RegisterBufferUnderLock_def split: if_splits prod.splits)

lemma UnregisterBuffer_connected:
  "UnregisterBuffer api p (mgr, w) = (ok, mgr', w') \<Longrightarrow> gm_connected mgr' = gm_connected mgr"
  by (auto simp: UnregisterBuffer_def Let_def split: if_splits prod.splits)

lemma RegisterDeviceBuffer_inv:
  assumes "client_inv (c, static, w)"
  obtains ok static' w' where "RegisterDeviceBuffer api c p n (static, w) = Some (ok, static', w')"
    "client_inv (c, static', w')"
proof (cases "cl_initialized c")
  case False
  then have "RegisterDeviceBuffer api c p n (static, w) = Some (False, static, w)"
    by (simp add: RegisterDeviceBuffer_def)
  then show ?thesis using that assms by blast
next
  case True
  obtain meta chunk mgr where r: "client_parts c static = Some (meta, chunk, mgr)" "rpc_ok meta"
      "rpc_ok chunk" "gm_connected mgr" "mm_holds [] (mgr, w)"
    using client_ready assms True by metis
  obtain ok mgr' w' where b: "RegisterBuffer api p n (mgr, w) = (ok, mgr', w')" by (metis prod.collapse)
  have "client_inv (c, Some mgr', w')"
    using client_back [OF r(1-3)] RegisterBuffer_connected [OF b] r(4) RegisterBuffer_holds [OF r(5) b]
    by simp
  then show ?thesis using that [of ok "Some mgr'" w'] True r(1) b by (simp add: RegisterDeviceBuffer_def)
qed

lemma UnregisterDeviceBuffer_inv:
  assumes "client_inv (c, static, w)"
  obtains ok static' w' where "UnregisterDeviceBuffer api c p (static, w) = Some (ok, static', w')"
    "client_inv (c, static', w')"
proof (cases "cl_initialized c")
  case False
  then have "UnregisterDeviceBuffer api c p (static, w) = Some (False, static, w)"
    by (simp add: UnregisterDeviceBuffer_def)
  then show ?thesis using that assms by blast
next
  case True
  obtain meta chunk mgr where r: "client_parts c static = Some (meta, chunk, mgr)" "rpc_ok meta"
      "rpc_ok chunk" "gm_connected mgr" "mm_holds [] (mgr, w)"
    using client_ready assms True by metis
  obtain ok mgr' w' where b: "UnregisterBuffer api p (mgr, w) = (ok, mgr', w')" by (metis prod.collapse)
  have "client_inv (c, Some mgr', w')"
    using client_back [OF r(1-3)] UnregisterBuffer_connected [OF b] r(4) Unregister_holds [OF r(5) b]
    by simp
  then show ?thesis using that [of ok "Some mgr'" w'] True r(1) b by (simp add: UnregisterDeviceBuffer_def)
qed

section \<open>Any sequence of methods\<close>

datatype client_call =
    CallInitialize
  | CallShutdown
  | CallPutObject PutObjectRequest ConstBufferView TransferOutcome
  | CallRegister u64 u64
  | CallUnregister u64

type_synonym 's client_state = "Client \<times> GdsMemoryManager option \<times> 's world"

text \<open>\<open>None\<close> is a null dereference.\<close>

fun client_step :: "'s client_api \<Rightarrow> client_call \<Rightarrow> 's client_state \<Rightarrow> 's client_state option" where
  "client_step api CallInitialize (c, st) = Some (snd (Client_Initialize api c st))"
| "client_step api CallShutdown (c, st) = Some (Client_Shutdown c, st)"
| "client_step api (CallPutObject rq buffer out) (c, st) =
     map_option (\<lambda>(ok, out', st'). (c, st')) (PutObject api c rq buffer out st)"
| "client_step api (CallRegister p n) (c, st) =
     map_option (\<lambda>(ok, st'). (c, st')) (RegisterDeviceBuffer api c p n st)"
| "client_step api (CallUnregister p) (c, st) =
     map_option (\<lambda>(ok, st'). (c, st')) (UnregisterDeviceBuffer api c p st)"

fun client_run :: "'s client_api \<Rightarrow> client_call list \<Rightarrow> 's client_state \<Rightarrow> 's client_state option" where
  "client_run api [] st = Some st"
| "client_run api (call # calls) st = Option.bind (client_step api call st) (client_run api calls)"

lemma client_step_inv:
  assumes "client_inv st"
  obtains st' where "client_step api call st = Some st'" "client_inv st'"
proof -
  obtain c static w where st: "st = (c, static, w)" by (metis prod.collapse)
  note inv = assms [unfolded st]
  show ?thesis
  proof (cases call)
    case CallInitialize
    obtain ok c' static' w' where i: "Client_Initialize api c (static, w) = (ok, c', static', w')"
      by (metis prod.collapse)
    then show ?thesis using that Initialize_inv [OF inv i] CallInitialize st by simp
  next
    case CallShutdown
    then show ?thesis using that Shutdown_inv [OF inv] st by simp
  next
    case (CallPutObject rq buffer out)
    obtain ok out' static' w' where
      "PutObject api c rq buffer out (static, w) = Some (ok, out', static', w')"
      "client_inv (c, static', w')" using PutObject_inv [OF inv] by metis
    then show ?thesis using that CallPutObject st by simp
  next
    case (CallRegister p n)
    obtain ok static' w' where "RegisterDeviceBuffer api c p n (static, w) = Some (ok, static', w')"
      "client_inv (c, static', w')" using RegisterDeviceBuffer_inv [OF inv] by metis
    then show ?thesis using that CallRegister st by simp
  next
    case (CallUnregister p)
    obtain ok static' w' where "UnregisterDeviceBuffer api c p (static, w) = Some (ok, static', w')"
      "client_inv (c, static', w')" using UnregisterDeviceBuffer_inv [OF inv] by metis
    then show ?thesis using that CallUnregister st by simp
  qed
qed

lemma client_run_inv:
  "client_inv st \<Longrightarrow> \<exists>st'. client_run api calls st = Some st' \<and> client_inv st'"
proof (induction calls arbitrary: st)
  case (Cons call calls)
  obtain st1 where s: "client_step api call st = Some st1" "client_inv st1"
    using client_step_inv [OF Cons.prems] by metis
  show ?case using Cons.IH [OF s(2)] s(1) by simp
qed simp

lemma client_inv_new: "events w = [] \<Longrightarrow> client_inv (new_Client opts, None, w)"
  by (simp add: client_inv_def client_ok_def static_inv_def new_Client_def)

text \<open>The static manager's destructor at the end of the process.\<close>

lemma end_manager_books:
  assumes "books (events w) = Some (mset (map fst xs), ts)"
  shows "books (events (fold (\<lambda>(ptr, _) w. snd (w_put_descriptor api ptr w)) xs w)) = Some ({#}, ts)"
  using assms
  by (induction xs arbitrary: w) (auto simp: client_simps)

lemma end_manager_clean:
  assumes "static_inv (Some mgr, w)"
  shows "books (events (end_GdsMemoryManager api (mgr, w))) = Some ({#}, {#})"
  using assms end_manager_books [of w "gm_registered mgr" "{#}" api]
  by (auto simp: static_inv_def end_GdsMemoryManager_def mm_holds_def split: if_splits)

end
