(* ===== verification/Example_Client.thy ===== *)
theory Example_Client
  imports Client_World
begin

text \<open>
  A concrete client machine for the witnesses: every call succeeds, the RPCs echo what the
  client asked, and the device memory holds one byte value everywhere. The state counts the
  draws of the generator.
\<close>

definition demo_token :: string where
  "demo_token = ''00000000000000ff:1''"

definition demo_machine :: "u32 \<Rightarrow> nat client_api" where
  "demo_machine crc =
     \<lparr>ca_channel_init = (\<lambda>ep t. 0),
      ca_open = (\<lambda>ep t q s. (Inr \<lparr>osr_request_id = osq_request_id q, osr_session_id = osq_session_id q,
        osr_ticket = ''t'', osr_gateway_id = ''g'', osr_data_endpoint = ''d'', osr_expire_at = ''x''\<rparr>, s)),
      ca_abort = (\<lambda>ep t q s. (Inr \<lparr>asr_erased = True\<rparr>, s)),
      ca_put = (\<lambda>ep t q s. (Inr (empty_GdsChunkResponse\<lparr>gcr_etag := ''e'', gcr_crc32c := crc\<rparr>), s)),
      ca_rng = (\<lambda>s. (word_of_nat s, s + 1)),
      ca_jitter = (\<lambda>s. (2 ^ 53, s)),
      ca_now = (\<lambda>s. (0, s)),
      ca_sleep = (\<lambda>ms s. s),
      ca_memcpy = (\<lambda>p n s. ((0, replicate (unat n) 0x55), s)),
      ca_new_client = (\<lambda>s. (True, s)),
      ca_is_connected = (\<lambda>s. True),
      ca_get_descriptor = (\<lambda>p n s. (0, s)),
      ca_put_descriptor = (\<lambda>p s. (0, s)),
      ca_get_token = (\<lambda>p n off s. ((0, 9), s)),
      ca_put_token = (\<lambda>tok s. s),
      ca_token_text = (\<lambda>tok s. demo_token),
      ca_malloc = (\<lambda>n s. ((0, 4096), s)),
      ca_upload = (\<lambda>p bytes s. (0, s)),
      ca_dev_free = (\<lambda>p s. s)\<rparr>"

definition demo_options :: ClientOptions where
  "demo_options = default_options
     \<lparr>endpoint := ''p:1'', gds_data_endpoint := ''b:1'', verify_crc32c := True\<rparr>"

definition demo_request :: PutObjectRequest where
  "demo_request = default_put_request\<lparr>por_bucket := ''b'', por_key := ''k'', por_expected_size := Some 3\<rparr>"

definition demo_buffer :: ConstBufferView where
  "demo_buffer = \<lparr>cbv_data = 256, cbv_size = 3\<rparr>"

definition empty_outcome :: TransferOutcome where
  "empty_outcome = \<lparr>to_bytes_transferred = 0, to_request_id = [], to_session_id = [], to_etag = [],
     to_crc32c = 0\<rparr>"

end
