(* ===== verification/Client_Properties.thy ===== *)
theory Client_Properties
  imports Client_Runs Example_Client
begin

text \<open>
  The properties of the client: its methods in any order, one attempt at a PUT, the retry loop
  around it, and the identifiers and endpoints it builds.
\<close>

section \<open>Any use of a client\<close>

lemma client_run_reach:
  assumes "client_run api calls (new_Client opts, None, \<lparr>env = s, events = []\<rparr>) = Some st"
  shows "client_inv st"
proof -
  have "client_inv (new_Client opts, None, \<lparr>env = s, events = []\<rparr>)" by (rule client_inv_new) simp
  from client_run_inv [OF this, of api calls] show ?thesis using assms by simp
qed

text \<open>
  C4: whatever sequence of its methods a client runs, against any network and any RDMA library,
  it never follows a null pointer, every token it was issued was given back exactly once, and
  when the static manager is destroyed at the end the deregistration of every buffer that was
  registered has been asked for exactly once (whether it succeeded or not).
\<close>

theorem client_never_faults_nor_leaks:
  "case client_run api calls (new_Client opts, None, \<lparr>env = s, events = []\<rparr>) of
     None \<Rightarrow> False
   | Some (c, None, w) \<Rightarrow> books (events w) = Some ({#}, {#})
   | Some (c, Some mgr, w) \<Rightarrow> books (events (end_GdsMemoryManager api (mgr, w))) = Some ({#}, {#})"
proof -
  have "client_inv (new_Client opts, None, \<lparr>env = s, events = []\<rparr>)" by (rule client_inv_new) simp
  then obtain st' where r: "client_run api calls (new_Client opts, None, \<lparr>env = s, events = []\<rparr>) = Some st'"
      "client_inv st'" using client_run_inv by blast
  obtain c static w where st': "st' = (c, static, w)" by (metis prod.collapse)
  show ?thesis
  proof (cases static)
    case None
    then show ?thesis using r st' by (simp add: client_inv_def static_inv_def)
  next
    case (Some mgr)
    then have "static_inv (Some mgr, w)" using r st' by (simp add: client_inv_def)
    then show ?thesis using r(1) st' Some end_manager_clean by simp
  qed
qed

text \<open>
  C7: when \<open>PutObject\<close> answers true, the size it reports is the buffer's, and with
  \<open>verify_crc32c\<close> the CRC-32C of a copy of the device buffer is the checksum it reports; it
  never asks for more than three sessions.
\<close>

theorem put_object_checked:
  assumes "client_run api calls (new_Client opts, None, \<lparr>env = s, events = []\<rparr>) = Some (c, static, w)"
    and "PutObject api c rq buffer out (static, w) = Some (ok, out', static', w')"
  shows "(ok \<longrightarrow> to_bytes_transferred out' = cbv_size buffer \<and>
       (verify_crc32c (cl_options c) \<longrightarrow> (\<exists>host s s'.
          ca_memcpy api (cbv_data buffer) (cbv_size buffer) s = ((cudaSuccess, host), s') \<and>
          cl_Crc32c host = to_crc32c out'))) \<and>
     opens_of w' \<le> opens_of w + 3"
proof -
  note inv = client_run_reach [OF assms(1)]
  obtain ok2 out2 static2 w2 where "PutObject api c rq buffer out (static, w) = Some (ok2, out2, static2, w2)"
      "ok2 \<longrightarrow> put_checked api (cl_options c) buffer out2" "opens_of w2 \<le> opens_of w + 3"
    using PutObject_inv [OF inv] .
  then show ?thesis using assms(2) by (simp add: put_checked_def)
qed

lemma demo_initialized:
  "\<exists>c mgr w. client_run (demo_machine crc) [CallInitialize] (new_Client demo_options, None,
     \<lparr>env = 0, events = []\<rparr>) = Some (c, Some mgr, w) \<and> cl_initialized c \<and>
     cl_options c = demo_options"
  by (simp add: new_Client_def Client_Initialize_def demo_options_def default_options_def
      rpc_ok_new demo_machine_def Instance_def new_GdsMemoryManager_def w_new_client_def Let_def)

theorem put_object_checked_witness:
  "\<exists>c static w ok out' static' w'.
     client_run (demo_machine 7) [CallInitialize] (new_Client demo_options, None, \<lparr>env = 0, events = []\<rparr>)
       = Some (c, static, w) \<and>
     PutObject (demo_machine 7) c demo_request demo_buffer empty_outcome (static, w) =
       Some (ok, out', static', w') \<and> opens_of w' \<le> opens_of w + 3"
proof -
  obtain c mgr w where r: "client_run (demo_machine 7) [CallInitialize] (new_Client demo_options, None,
      \<lparr>env = 0, events = []\<rparr>) = Some (c, Some mgr, w)" using demo_initialized by blast
  obtain ok out' static' w' where p: "PutObject (demo_machine 7) c demo_request demo_buffer empty_outcome
      (Some mgr, w) = Some (ok, out', static', w')" using PutObject_inv [OF client_run_reach [OF r]] by metis
  from put_object_checked [OF r p] r p show ?thesis by blast
qed

section \<open>One attempt\<close>

text \<open>
  C6: the calls of one attempt. It opens one session under a fresh identifier; only if that
  succeeds it may register the buffer (and no other) and be issued one token, with which it
  makes at most one transfer for that session; when anything fails after the session was opened
  it aborts that session; and the token, if there was one, is given back last.
\<close>

theorem put_attempt_protocol:
  assumes "PutOnce api opts meta chunk rq buffer (out, mgr, w) = (ok, out', mgr', w')"
    and "rpc_ok meta" "rpc_ok chunk" "gm_client mgr"
  shows "\<exists>es. events w' = events w @ es \<and>
     attempt_trace (cbv_data buffer) (id_text kClientSessionIdPrefix (fst (w_rng api (snd (w_rng api w))))) ok es"
  using PutOnce_trace [OF assms] by metis

theorem put_attempt_protocol_witness:
  "\<exists>ok out' mgr' w' es.
     PutOnce (demo_machine 7) demo_options (new_RpcBase (demo_machine 7) ''p:1'' 9 ''control'')
       (new_RpcBase (demo_machine 7) ''b:1'' 9 ''data'') demo_request demo_buffer
       (empty_outcome, \<lparr>gm_client = True, gm_connected = True, gm_registered = []\<rparr>,
        \<lparr>env = 0, events = []\<rparr>) = (ok, out', mgr', w') \<and>
     events w' = es \<and> attempt_trace 256 (id_text kClientSessionIdPrefix 1) ok es"
proof -
  let ?st = "(empty_outcome, \<lparr>gm_client = True, gm_connected = True, gm_registered = []\<rparr>,
    \<lparr>env = 0 :: nat, events = []\<rparr>)"
  obtain ok out' mgr' w' where p: "PutOnce (demo_machine 7) demo_options
      (new_RpcBase (demo_machine 7) ''p:1'' 9 ''control'') (new_RpcBase (demo_machine 7) ''b:1'' 9 ''data'')
      demo_request demo_buffer ?st = (ok, out', mgr', w')" by (metis prod.collapse)
  have "cbv_data demo_buffer = 256" by (simp add: demo_buffer_def)
  with put_attempt_protocol [OF p] show ?thesis
    using p by (auto simp: rpc_ok_new demo_machine_def w_rng_def)
qed

section \<open>The pauses between attempts\<close>

definition sleeps_of :: "'s world \<Rightarrow> int list" where
  "sleeps_of w = concat (map (\<lambda>e. case e of EvSleep n \<Rightarrow> [n] | _ \<Rightarrow> []) (events w))"

lemma attempt_trace_sleeps:
  "attempt_trace p i ok es \<Longrightarrow> concat (map (\<lambda>e. case e of EvSleep n \<Rightarrow> [n] | _ \<Rightarrow> []) es) = []"
  by (induction rule: attempt_trace.induct) auto

lemma put_attempt_sleeps:
  assumes "attempt_inv meta chunk ts st"
    and "put_attempt api opts meta chunk rq buffer deadline st = (ok, st')"
  shows "sleeps_of (snd (snd st')) = sleeps_of (snd (snd st))"
proof -
  obtain out mgr w where st: "st = (out, mgr, w)" by (metis prod.collapse)
  obtain out' mgr' w' where st': "st' = (out', mgr', w')" by (metis prod.collapse)
  obtain now w1 where n: "w_now api w = (now, w1)" by force
  have e1: "events w1 = events w" using events_quiet(3) [of api w] n by simp
  show ?thesis
  proof (cases "deadline \<le> now")
    case True
    then show ?thesis using assms(2) n e1 by (auto simp: st st' put_attempt_def sleeps_of_def)
  next
    case False
    then have p: "PutOnce api opts meta chunk rq buffer (out, mgr, w1) = (ok, out', mgr', w')"
      using assms(2) n by (simp add: st st' put_attempt_def)
    have "rpc_ok meta" "rpc_ok chunk" "gm_client mgr"
      using assms(1) by (simp_all add: attempt_inv_def st mm_holds_def)
    then obtain es i where "events w' = events w1 @ es" "attempt_trace (cbv_data buffer) i ok es"
      using PutOnce_trace [OF p] by metis
    then show ?thesis using e1 attempt_trace_sleeps by (simp add: st st' sleeps_of_def)
  qed
qed

definition jitter_ok :: "'s client_api \<Rightarrow> bool" where
  "jitter_ok api \<longleftrightarrow> (\<forall>s. 2 ^ 52 \<le> fst (ca_jitter api s) \<and> fst (ca_jitter api s) \<le> 3 * 2 ^ 52)"

lemma pause_sleeps:
  assumes "jitter_ok api" and "capped_backoff default_policy k = b"
  obtains n where "sleeps_of (snd (snd (retry_pause default_policy (put_jitter api) (put_sleep api) k st)))
      = sleeps_of (snd (snd st)) @ [n]" "b div 2 \<le> n" "n \<le> 3 * b div 2"
proof -
  obtain out mgr w where st: "st = (out, mgr, w)" by (metis prod.collapse)
  obtain m w1 where j: "w_jitter api w = (m, w1)" by force
  then have e: "events w1 = events w" using events_quiet(2) [of api w] by simp
  have m: "2 ^ 52 \<le> m" "m \<le> 3 * 2 ^ 52"
    using j assms(1) by (auto simp: w_jitter_def jitter_ok_def split: prod.splits) (metis fst_conv)+
  have b: "0 \<le> b" "b \<le> 2000"
    using capped_backoff_range [of default_policy k] assms(2) by (auto simp: default_policy_def)
  show ?thesis
    using that [of "jittered b m"] jittered_bounds [OF b m] j e
    by (simp add: st retry_pause_def put_jitter_def put_sleep_def assms(2) sleeps_of_def client_simps)
qed

lemma default_backoffs: "capped_backoff default_policy 1 = 100" "capped_backoff default_policy 2 = 200"
  by (simp_all add: capped_backoff_def default_policy_def)

text \<open>The pauses of a whole retry loop around attempts that do not sleep themselves.\<close>

lemma retry_sleeps:
  fixes st :: "TransferOutcome \<times> GdsMemoryManager \<times> 's world"
  assumes "jitter_ok api" and i1: "attempt_inv meta chunk [] st"
    and fn: "fn = put_attempt api opts meta chunk rq buffer deadline"
  shows "\<exists>pauses. sleeps_of (snd (snd (snd (RetryIfRetryable default_policy (put_jitter api) (put_sleep api) fn st)))) =
      sleeps_of (snd (snd st)) @ pauses \<and>
    (pauses = [] \<or> (\<exists>a. pauses = [a] \<and> 50 \<le> a \<and> a \<le> 150) \<or>
     (\<exists>a b. pauses = [a, b] \<and> 50 \<le> a \<and> a \<le> 150 \<and> 100 \<le> b \<and> b \<le> 300))"
proof -
  let ?pause = "retry_pause default_policy (put_jitter api) (put_sleep api) ::
    int \<Rightarrow> TransferOutcome \<times> GdsMemoryManager \<times> 's world \<Rightarrow> _"
  let ?S = "\<lambda>st :: TransferOutcome \<times> GdsMemoryManager \<times> 's world. sleeps_of (snd (snd st))"
  have keep: "attempt_inv meta chunk [] st' \<and> ?S st' = ?S st"
    if "attempt_inv meta chunk [] st" "fn st = (b, st')" for st st' b
    using put_attempt_inv(1) [OF that(1)] put_attempt_sleeps [OF that(1)] that(2) by (auto simp: fn)
  have pinv: "attempt_inv meta chunk [] (?pause k st)" if "attempt_inv meta chunk [] st" for k st
    using put_retry.pause_inv [OF that] .
  obtain ok1 st1 where f1: "fn st = (ok1, st1)" by (metis surj_pair)
  obtain ok2 st2 where f2: "fn (?pause 1 st1) = (ok2, st2)" by (metis surj_pair)
  obtain ok3 st3 where f3: "fn (?pause 2 st2) = (ok3, st3)" by (metis surj_pair)
  have s1: "attempt_inv meta chunk [] st1" "?S st1 = ?S st" using keep [OF i1 f1] by simp_all
  obtain a where a: "?S (?pause 1 st1) = ?S st1 @ [a]" "50 \<le> a" "a \<le> 150"
    using pause_sleeps [OF assms(1) default_backoffs(1), of st1] by (auto simp del: split_paired_All)
  have s2: "attempt_inv meta chunk [] st2" "?S st2 = ?S st @ [a]"
    using keep [OF pinv [OF s1(1)] f2] a(1) s1(2) by simp_all
  obtain b where b: "?S (?pause 2 st2) = ?S st2 @ [b]" "100 \<le> b" "b \<le> 300"
    using pause_sleeps [OF assms(1) default_backoffs(2), of st2] by auto
  have s3: "?S st3 = ?S st @ [a, b]" using keep [OF pinv [OF s2(1)] f3] b(1) s2(2) by simp
  have "?S (snd (RetryIfRetryable default_policy (put_jitter api) (put_sleep api) fn st)) \<in> {?S st1, ?S st2, ?S st3}"
    unfolding Retry_default using f1 f2 f3 by (cases ok1; cases ok2) simp_all
  then show ?thesis using s1(2) s2(2) s3 a(2,3) b(2,3) by auto
qed

text \<open>
  Given that the standard library draws the jitter from the interval it was asked for,
  \<open>PutObject\<close> pauses at most twice, first for 50 to 150 and then for 100 to 300 milliseconds,
  with the rounding of the product in \<open>double\<close> taken into account.
\<close>

theorem put_object_pauses:
  assumes "jitter_ok api"
    and "client_run api calls (new_Client opts, None, \<lparr>env = s, events = []\<rparr>) = Some (c, static, w)"
    and "PutObject api c rq buffer out (static, w) = Some (ok, out', static', w')"
  shows "\<exists>pauses. sleeps_of w' = sleeps_of w @ pauses \<and>
     (pauses = [] \<or> (\<exists>a. pauses = [a] \<and> 50 \<le> a \<and> a \<le> 150) \<or>
      (\<exists>a b. pauses = [a, b] \<and> 50 \<le> a \<and> a \<le> 150 \<and> 100 \<le> b \<and> b \<le> 300))"
proof (cases "cl_initialized c \<and>
    \<not> (put_single_max_bytes (cl_options c) \<noteq> 0 \<and> put_single_max_bytes (cl_options c) < cbv_size buffer)")
  case False
  then have "w' = w" using assms(3) by (auto simp: PutObject_def Let_def split: if_splits)
  then show ?thesis by simp
next
  case True
  note inv = client_run_reach [OF assms(2)]
  obtain now w1 where n: "w_now api w = (now, w1)" by force
  then have e1: "events w1 = events w" using events_quiet(3) [of api w] by simp
  obtain meta chunk mgr where r: "client_parts c static = Some (meta, chunk, mgr)"
      "attempt_inv meta chunk [] (out, mgr, w)"
    using client_ready inv True by metis
  have i1: "attempt_inv meta chunk [] (out, mgr, w1)"
    using attempt_inv_neutral [OF r(2), of w1 "[]"] e1 by simp
  define fn where "fn = put_attempt api (cl_options c) meta chunk rq buffer
     (now + request_timeout (cl_options c) * 1000000)"
  have "w' = snd (snd (snd (RetryIfRetryable default_policy (put_jitter api) (put_sleep api) fn
      (out, mgr, w1))))"
    using assms(3) True n r(1) by (auto simp: PutObject_def Let_def fn_def split: prod.splits)
  then show ?thesis using retry_sleeps [OF assms(1) i1 fn_def] e1 by (simp add: sleeps_of_def)
qed

theorem put_object_pauses_witness:
  "\<exists>c static w ok out' static' w' pauses.
     client_run (demo_machine 7) [CallInitialize] (new_Client demo_options, None, \<lparr>env = 0, events = []\<rparr>)
       = Some (c, static, w) \<and>
     PutObject (demo_machine 7) c demo_request demo_buffer empty_outcome (static, w) =
       Some (ok, out', static', w') \<and> sleeps_of w' = sleeps_of w @ pauses \<and> length pauses \<le> 2"
proof -
  obtain c mgr w where r: "client_run (demo_machine 7) [CallInitialize] (new_Client demo_options, None,
      \<lparr>env = 0, events = []\<rparr>) = Some (c, Some mgr, w)" using demo_initialized by blast
  obtain ok out' static' w' where p: "PutObject (demo_machine 7) c demo_request demo_buffer empty_outcome
      (Some mgr, w) = Some (ok, out', static', w')" using PutObject_inv [OF client_run_reach [OF r]] by metis
  have "jitter_ok (demo_machine 7)" by (simp add: jitter_ok_def demo_machine_def)
  from put_object_pauses [OF this r p] obtain pauses where
    "sleeps_of w' = sleeps_of w @ pauses" "length pauses \<le> 2" by auto
  then show ?thesis using r p by blast
qed

section \<open>The number of bytes received\<close>

text \<open>A network that puts other numbers of received bytes into the backend's answers.\<close>

definition miscounting :: "(GdsChunkResponse \<Rightarrow> u64) \<Rightarrow> 's client_api \<Rightarrow> 's client_api" where
  "miscounting f api = api\<lparr>ca_put := (\<lambda>ep t q s.
     let (r, s') = ca_put api ep t q s
     in (map_sum id (\<lambda>resp. resp\<lparr>gcr_bytes_received := f resp\<rparr>) r, s'))\<rparr>"

lemma miscounting_world [simp]:
  "w_open (miscounting f api) = w_open api" "w_abort (miscounting f api) = w_abort api"
  "w_rng (miscounting f api) = w_rng api" "w_jitter (miscounting f api) = w_jitter api"
  "w_now (miscounting f api) = w_now api" "w_sleep (miscounting f api) = w_sleep api"
  "w_memcpy (miscounting f api) = w_memcpy api" "w_get_descriptor (miscounting f api) = w_get_descriptor api"
  "w_get_token (miscounting f api) = w_get_token api" "w_put_token (miscounting f api) = w_put_token api"
  "Token_str (miscounting f api) = Token_str api"
  by (intro ext; simp add: miscounting_def world_wrappers Token_str_def)+

lemma miscounting_put: "ChunkRpc_Put (miscounting f api) = ChunkRpc_Put api"
proof (intro ext)
  fix chunk attempt grant token n result w
  show "ChunkRpc_Put (miscounting f api) chunk attempt grant token n result w =
      ChunkRpc_Put api chunk attempt grant token n result w"
    by (auto simp: ChunkRpc_Put_def w_put_def miscounting_def Let_def split: prod.splits sum.splits)
qed

lemma miscounting_attempt: "PutOnce (miscounting f api) = PutOnce api"
proof -
  have meta: "MetaRpc_OpenSession (miscounting f api) = MetaRpc_OpenSession api"
    "MetaRpc_AbortSession (miscounting f api) = MetaRpc_AbortSession api"
    by (intro ext; simp add: MetaRpc_OpenSession_def MetaRpc_AbortSession_def)+
  have token: "Token_end (miscounting f api) = Token_end api" "Token_Assign (miscounting f api) = Token_Assign api"
    by (intro ext; simp add: Token_end_def Token_Assign_def Token_Reset_def)+
  have acquire: "AcquireToken (miscounting f api) = AcquireToken api"
    unfolding AcquireToken_def RegisterBufferUnderLock_def token miscounting_world by (rule refl)
  show ?thesis
    unfolding PutOnce_def PutOnce_transfer_def meta token acquire miscounting_put miscounting_world by (rule refl)
qed

text \<open>
  C23: the number of bytes the backend says it received plays no part in \<open>PutObject\<close>: whatever
  the answers put there, the result, the outcome and all effects are the same. A transfer of
  fewer bytes than the buffer holds is therefore reported as a transfer of the whole buffer,
  unless the checksum is verified.
\<close>

theorem received_count_ignored:
  "PutObject (miscounting f api) c rq buffer out st = PutObject api c rq buffer out st"
proof -
  have "put_attempt (miscounting f api) = put_attempt api"
    unfolding put_attempt_def miscounting_attempt miscounting_world by (rule refl)
  moreover have "put_jitter (miscounting f api) st = put_jitter api st"
    "put_sleep (miscounting f api) ms st = put_sleep api ms st"
    for ms and st :: "TransferOutcome \<times> GdsMemoryManager \<times> 'a world"
    by (simp_all add: put_jitter_def put_sleep_def)
  then have "put_jitter (miscounting f api) =
      (put_jitter api :: TransferOutcome \<times> GdsMemoryManager \<times> 'a world \<Rightarrow> _)"
    "put_sleep (miscounting f api) =
      (put_sleep api :: int \<Rightarrow> TransferOutcome \<times> GdsMemoryManager \<times> 'a world \<Rightarrow> _)"
    by (intro ext; simp)+
  ultimately show ?thesis unfolding PutObject_def miscounting_world by (simp only:)
qed

section \<open>Identifiers and endpoints\<close>

text \<open>
  The identifiers of an attempt have 20 characters, its request and session identifiers
  differ, and two attempts have the same session identifier only if their generators drew the
  same number.
\<close>

theorem attempt_identifiers:
  "length (pa_request_id (fst (MakePutAttempt rng opts rq w))) = 20 \<and>
   length (pa_session_id (fst (MakePutAttempt rng opts rq w))) = 20 \<and>
   pa_request_id (fst (MakePutAttempt rng opts rq w)) \<noteq> pa_session_id (fst (MakePutAttempt rng opts rq w)) \<and>
   (pa_session_id (fst (MakePutAttempt rng opts rq w)) = pa_session_id (fst (MakePutAttempt rng opts rq' w')) \<longleftrightarrow>
      fst (rng (snd (rng w))) = fst (rng (snd (rng w'))))"
  using id_text_kinds
  by (simp add: MakePutAttempt_ids length_id_text id_text_inj kRequestIdPrefix_def
      kClientSessionIdPrefix_def)

text \<open>
  An RPC object is usable exactly when its endpoint is not empty and the channel came up,
  and then talks to the endpoint without its trailing slashes and nothing else removed; when it
  is not usable it says why.
\<close>

theorem rpc_endpoint_trimmed:
  "case new_RpcBase api ep t role of rb \<Rightarrow>
     (rpc_ok rb \<longleftrightarrow> ep \<noteq> [] \<and> ca_channel_init api (c_str (trim_endpoint ep)) (int_cast32 t) = 0) \<and>
     (rpc_ok rb \<longleftrightarrow> rb_init_error rb = []) \<and>
     (case rb_channel rb of None \<Rightarrow> \<not> rpc_ok rb
      | Some ep' \<Rightarrow> (\<exists>n. ep = ep' @ replicate n (CHR ''/'')) \<and> (ep' = [] \<or> last ep' \<noteq> CHR ''/''))"
proof -
  have "case rb_channel (new_RpcBase api ep t role) of None \<Rightarrow> \<not> rpc_ok (new_RpcBase api ep t role)
      | Some ep' \<Rightarrow> ep' = trim_endpoint ep"
    by (auto simp: new_RpcBase_def rpc_ok_def Let_def)
  then show ?thesis
    using trim_endpoint_suffix [of ep] trim_endpoint_last [of ep]
    by (auto simp: rpc_ok_new init_error_new [of api ep t role, symmetric] split: option.splits)
qed

theorem rpc_endpoint_trimmed_witness:
  "rb_channel (new_RpcBase (demo_machine 7) ''h:1//'' 9 ''data'') = Some ''h:1'' \<and>
   (\<exists>n. ''h:1//'' = ''h:1'' @ replicate n (CHR ''/''))"
proof -
  let ?rb = "new_RpcBase (demo_machine 7) ''h:1//'' 9 ''data''"
  have c: "rb_channel ?rb = Some ''h:1''"
    by (simp add: new_RpcBase_def trim_endpoint_def demo_machine_def Let_def)
  show ?thesis
    using rpc_endpoint_trimmed [of "demo_machine 7" "''h:1//''" 9 "''data''"] c by simp
qed

end
