(* ===== verification/Client_Contract.thy ===== *)
theory Client_Contract
  imports Client_Runs
begin

text \<open>
  The client against any world: if every call the client can make keeps a property of the
  world's state, so does every method of the client. The locale is the contract a provider of
  that world (the network with the proxy and the backend behind it) has to meet.
\<close>

locale client_env =
  fixes api :: "'s client_api"
    and I :: "'s \<Rightarrow> bool"
  assumes open_I: "I s \<Longrightarrow> I (snd (ca_open api ep t q s))"
    and abort_I: "I s \<Longrightarrow> I (snd (ca_abort api ep t aq s))"
    and put_I: "I s \<Longrightarrow> I (snd (ca_put api ep t cq s))"
    and rng_I: "I s \<Longrightarrow> I (snd (ca_rng api s))"
    and jitter_I: "I s \<Longrightarrow> I (snd (ca_jitter api s))"
    and now_I: "I s \<Longrightarrow> I (snd (ca_now api s))"
    and sleep_I: "I s \<Longrightarrow> I (ca_sleep api ms s)"
    and memcpy_I: "I s \<Longrightarrow> I (snd (ca_memcpy api p n s))"
    and new_client_I: "I s \<Longrightarrow> I (snd (ca_new_client api s))"
    and get_descriptor_I: "I s \<Longrightarrow> I (snd (ca_get_descriptor api p n s))"
    and put_descriptor_I: "I s \<Longrightarrow> I (snd (ca_put_descriptor api p s))"
    and get_token_I: "I s \<Longrightarrow> I (snd (ca_get_token api p n off s))"
    and put_token_I: "I s \<Longrightarrow> I (ca_put_token api tok s)"
begin

lemma wrappers_I:
  assumes "I (env w)"
  shows "I (env (snd (w_open api ep t q w)))" "I (env (snd (w_abort api ep t aq w)))"
    "I (env (snd (w_put api ep t cq w)))" "I (env (snd (w_rng api w)))"
    "I (env (snd (w_jitter api w)))" "I (env (snd (w_now api w)))" "I (env (w_sleep api ms w))"
    "I (env (snd (w_memcpy api p n w)))" "I (env (snd (w_new_client api w)))"
    "I (env (snd (w_get_descriptor api p n w)))" "I (env (snd (w_put_descriptor api p w)))"
    "I (env (snd (w_get_token api p n off w)))" "I (env (w_put_token api tok w))"
  using assms unfolding env_calls
  by (rule open_I abort_I put_I rng_I jitter_I now_I sleep_I memcpy_I new_client_I
      get_descriptor_I put_descriptor_I get_token_I put_token_I)+

lemma MakePutAttempt_I: "I (env w) \<Longrightarrow> I (env (snd (MakePutAttempt (w_rng api) opts rq w)))"
  by (simp add: MakePutAttempt_ids wrappers_I)

lemma OpenSession_I: "I (env w) \<Longrightarrow> I (env (snd (snd (MetaRpc_OpenSession api meta a g w))))"
  using wrappers_I(1) [of w "rb_endpoint meta" "ApplyTimeout (pa_timeout a)" "open_request a"]
  by (auto simp: MetaRpc_OpenSession_def split: prod.splits sum.splits)

lemma AbortSession_I: "I (env w) \<Longrightarrow> I (env (MetaRpc_AbortSession api meta i t w))"
  by (simp add: MetaRpc_AbortSession_def wrappers_I)

lemma Put_I: "I (env w) \<Longrightarrow> I (env (snd (snd (ChunkRpc_Put api chunk a g tok n r w))))"
  using wrappers_I(3) [of w "rb_endpoint chunk" "ApplyTimeout (pa_timeout a)" "chunk_request a g tok n"]
  by (auto simp: ChunkRpc_Put_def split: prod.splits sum.splits)

lemma Register_I:
  "I (env w) \<Longrightarrow> I (env (snd (snd (RegisterBufferUnderLock api p n (mgr, w)))))"
  using wrappers_I(10) [of w p n]
  by (auto simp: RegisterBufferUnderLock_def split: prod.splits)

lemma RegisterBuffer_I: "I (env w) \<Longrightarrow> I (env (snd (snd (RegisterBuffer api p n (mgr, w)))))"
  using Register_I by (simp add: RegisterBuffer_def)

lemma UnregisterBuffer_I: "I (env w) \<Longrightarrow> I (env (snd (snd (UnregisterBuffer api p (mgr, w)))))"
  using wrappers_I(11) [of w p]
  by (auto simp: UnregisterBuffer_def Let_def split: prod.splits)

lemma Token_end_I: "I (env w) \<Longrightarrow> I (env (Token_end api t w))"
  by (simp add: Token_end_def Token_Reset_def wrappers_I)

lemma AcquireToken_I:
  assumes "I (env w)"
  shows "I (env (snd (snd (snd (AcquireToken api p n off null_token (mgr, w))))))"
proof -
  obtain ok1 mgr1 w1 where reg: "(if map_of (gm_registered mgr) p = None
      then RegisterBufferUnderLock api p (n + off) (mgr, w) else (True, mgr, w)) = (ok1, mgr1, w1)"
    by (metis prod.collapse)
  then have "I (env w1)"
    using Register_I [OF assms, of p "n + off" mgr] assms by (auto split: if_splits)
  then have "I (env (snd (w_get_token api p n off w1)))" by (rule wrappers_I)
  then show ?thesis
    using assms reg \<open>I (env w1)\<close>
    by (auto simp: AcquireToken_def Let_def Token_Assign_def Token_Reset_def null_token_def
        split: prod.splits)
qed

lemma transfer_I:
  assumes "I (env w)"
  shows "I (env (snd (snd (PutOnce_transfer api opts meta chunk a g t buffer (out, w)))))"
proof -
  obtain rok res w1 where p: "ChunkRpc_Put api chunk a g (Token_str api t w) (cbv_size buffer)
      \<lparr>gpr_etag = [], gpr_crc32c = 0\<rparr> w = (rok, res, w1)" by (metis prod.collapse)
  obtain err host w2 where m: "w_memcpy api (cbv_data buffer) (cbv_size buffer) w1 = ((err, host), w2)"
    by (metis prod.collapse)
  have w1: "I (env w1)" using Put_I [OF assms, of chunk a g] p by (metis snd_conv)
  then have "I (env w2)" using wrappers_I(8) [of w1] m by (metis snd_conv)
  then show ?thesis
    using p m w1 AbortSession_I by (simp add: PutOnce_transfer_def Let_def)
qed

lemma PutOnce_I:
  assumes "I (env w)"
  shows "I (env (snd (snd (snd (PutOnce api opts meta chunk rq buffer (out, mgr, w))))))"
proof -
  obtain a w1 where mk: "MakePutAttempt (w_rng api) opts rq w = (a, w1)" by force
  obtain opened g w2 where o: "MetaRpc_OpenSession api meta a \<lparr>sg_ticket = []\<rparr> w1 = (opened, g, w2)"
    by (metis prod.collapse)
  obtain got t mgr1 w3 where acq: "AcquireToken api (cbv_data buffer) (cbv_size buffer) 0 null_token
      (mgr, w2) = (got, t, mgr1, w3)" by (metis prod.collapse)
  obtain ok out1 w4 where tr: "PutOnce_transfer api opts meta chunk a g t buffer (out, w3)
      = (ok, out1, w4)" by (metis prod.collapse)
  have "I (env w1)" using MakePutAttempt_I [OF assms] mk by (metis snd_conv)
  then have w2: "I (env w2)" using OpenSession_I o by (metis snd_conv)
  then have w3: "I (env w3)" using AcquireToken_I acq by (metis snd_conv)
  then have "I (env w4)" using transfer_I tr by (metis snd_conv)
  then show ?thesis
    using mk o acq tr w2 w3 Token_end_I AbortSession_I by (simp add: PutOnce_def)
qed

lemma put_attempt_I:
  assumes "I (env (snd (snd st)))" and "put_attempt api opts meta chunk rq buffer d st = (ok, st')"
  shows "I (env (snd (snd st')))"
proof -
  obtain out mgr w where st: "st = (out, mgr, w)" by (metis prod.collapse)
  have "I (env (snd (w_now api w)))" using assms(1) wrappers_I(6) st by simp
  then show ?thesis
    using assms PutOnce_I [of "snd (w_now api w)" opts meta chunk rq buffer out mgr]
    by (auto simp: st put_attempt_def split: prod.splits if_splits)
qed

end

sublocale client_env \<subseteq> env_retry: retried_attempt
  "put_attempt api opts meta chunk rq buffer d" "put_jitter api" "put_sleep api"
  "\<lambda>st. I (env (snd (snd st)))"
  "\<lambda>st'. \<exists>st. I (env (snd (snd st))) \<and> put_attempt api opts meta chunk rq buffer d st = (True, st')"
  for opts meta chunk rq buffer d
proof (unfold_locales, goal_cases)
  case (1 st ok st')
  then show ?case by (metis (full_types) put_attempt_I)
next
  case (2 st m st')
  then show ?case using wrappers_I(5) [of "snd (snd st)"]
    by (cases st) (auto simp: put_jitter_def split: prod.splits)
next
  case (3 st ms)
  then show ?case by (cases st) (simp add: put_sleep_def wrappers_I)
qed

context client_env
begin

text \<open>A PUT keeps the property, and success comes from an attempt that started with it.\<close>

lemma PutObject_I:
  assumes "I (env w)" and "PutObject api c rq buffer out (static, w) = Some (ok, out', static', w')"
  shows "I (env w')"
    and "ok \<Longrightarrow> \<exists>meta chunk st mgr. I (env (snd (snd st))) \<and> static' = Some mgr \<and>
      cl_initialized c \<and> PutOnce api (cl_options c) meta chunk rq buffer st = (True, out', mgr, w')"
proof -
  have "I (env w') \<and> (ok \<longrightarrow> (\<exists>meta chunk st mgr. I (env (snd (snd st))) \<and> static' = Some mgr \<and>
      cl_initialized c \<and> PutOnce api (cl_options c) meta chunk rq buffer st = (True, out', mgr, w')))"
  proof (cases "cl_initialized c \<and> \<not> (put_single_max_bytes (cl_options c) \<noteq> 0 \<and>
      put_single_max_bytes (cl_options c) < cbv_size buffer)")
    case False
    then show ?thesis using assms by (auto simp: PutObject_def Let_def split: if_splits)
  next
    case True
    obtain now w1 where n: "w_now api w = (now, w1)" by force
    define d where "d = now + request_timeout (cl_options c) * 1000000"
    have i1: "I (env w1)" using wrappers_I(6) [OF assms(1)] n by simp
    obtain meta chunk mgr mgr' where parts: "client_parts c static = Some (meta, chunk, mgr)"
        "static' = Some mgr'" and r: "RetryIfRetryable default_policy (put_jitter api) (put_sleep api)
          (put_attempt api (cl_options c) meta chunk rq buffer d) (out, mgr, w1) = (ok, out', mgr', w')"
      using assms(2) True n
      by (auto simp: PutObject_def Let_def d_def split: option.splits prod.splits)
    have post: "I (env w') \<and> (ok \<longrightarrow> (\<exists>st. I (env (snd (snd st))) \<and>
        put_attempt api (cl_options c) meta chunk rq buffer d st = (True, out', mgr', w')))"
      using env_retry.retry_inv [OF _ r] i1 by simp
    have "\<exists>st1. I (env (snd (snd st1))) \<and>
        PutOnce api (cl_options c) meta chunk rq buffer st1 = (True, out', mgr', w')"
      if "I (env (snd (snd st)))"
        "put_attempt api (cl_options c) meta chunk rq buffer d st = (True, out', mgr', w')" for st
    proof -
      obtain o1 m1 w2 where st: "st = (o1, m1, w2)" by (metis prod.collapse)
      have "I (env (snd (w_now api w2)))" using that(1) wrappers_I(6) st by simp
      moreover have "PutOnce api (cl_options c) meta chunk rq buffer (o1, m1, snd (w_now api w2))
          = (True, out', mgr', w')"
        using that(2) st by (auto simp: put_attempt_def split: prod.splits if_splits)
      ultimately show ?thesis by (intro exI [of _ "(o1, m1, snd (w_now api w2))"]) simp
    qed
    then show ?thesis using post parts(2) True by blast
  qed
  then show "I (env w')"
    and "ok \<Longrightarrow> \<exists>meta chunk st mgr. I (env (snd (snd st))) \<and> static' = Some mgr \<and>
      cl_initialized c \<and> PutOnce api (cl_options c) meta chunk rq buffer st = (True, out', mgr, w')"
    by blast+
qed

text \<open>So do the client's other methods, and any sequence of them.\<close>

lemma Initialize_I:
  assumes "I (env w)"
  shows "I (env (snd (snd (snd (Client_Initialize api c (static, w))))))"
proof -
  have "I (env (snd (snd (Instance api static w))))"
    using assms wrappers_I(9)
    by (auto simp: Instance_def new_GdsMemoryManager_def case_prod_unfold Let_def split: option.split)
  then show ?thesis
    using assms by (simp add: Client_Initialize_def case_prod_unfold Let_def)
qed

lemma RegisterDeviceBuffer_I:
  assumes "I (env w)" and "RegisterDeviceBuffer api c p n (static, w) = Some (ok, static', w')"
  shows "I (env w')"
  using assms RegisterBuffer_I [OF assms(1), of p n]
  by (auto simp: RegisterDeviceBuffer_def split: if_splits option.splits prod.splits) (metis snd_conv)

lemma UnregisterDeviceBuffer_I:
  assumes "I (env w)" and "UnregisterDeviceBuffer api c p (static, w) = Some (ok, static', w')"
  shows "I (env w')"
  using assms UnregisterBuffer_I [OF assms(1), of p]
  by (auto simp: UnregisterDeviceBuffer_def split: if_splits option.splits prod.splits) (metis snd_conv)

lemma client_step_I:
  assumes "I (env (snd (snd st)))" and "client_step api call st = Some st'"
  shows "I (env (snd (snd st')))"
proof -
  obtain c static w where st: "st = (c, static, w)" by (metis prod.collapse)
  have w: "I (env w)" using assms(1) st by simp
  show ?thesis
  proof (cases call)
    case CallInitialize
    then show ?thesis using assms(2) Initialize_I [OF w, of c static] st by auto
  next
    case CallShutdown
    then show ?thesis using assms st by auto
  next
    case (CallPutObject rq buffer out)
    then obtain ok out' static' w' where "PutObject api c rq buffer out (static, w) = Some (ok, out', static', w')"
      "st' = (c, static', w')" using assms(2) st by auto
    then show ?thesis using PutObject_I(1) [OF w] by simp
  next
    case (CallRegister p n)
    then obtain ok static' w' where "RegisterDeviceBuffer api c p n (static, w) = Some (ok, static', w')"
      "st' = (c, static', w')" using assms(2) st by auto
    then show ?thesis using RegisterDeviceBuffer_I [OF w] by simp
  next
    case (CallUnregister p)
    then obtain ok static' w' where "UnregisterDeviceBuffer api c p (static, w) = Some (ok, static', w')"
      "st' = (c, static', w')" using assms(2) st by auto
    then show ?thesis using UnregisterDeviceBuffer_I [OF w] by simp
  qed
qed

lemma client_run_I:
  "I (env (snd (snd st))) \<Longrightarrow> client_run api calls st = Some st' \<Longrightarrow> I (env (snd (snd st')))"
proof (induction calls arbitrary: st)
  case (Cons call calls)
  obtain st1 where s: "client_step api call st = Some st1" "client_run api calls st1 = Some st'"
    using Cons.prems(2) by (auto simp: bind_eq_Some_conv)
  show ?case using Cons.IH [OF client_step_I [OF Cons.prems(1) s(1)] s(2)] .
qed simp

end

end
