(* ===== verification/End_To_End.thy ===== *)
theory End_To_End
  imports Client_Contract Data_Plane_Service Proxy_Service
begin

text \<open>
  The three processes together. A \<open>system\<close> holds the client's machine, the proxy's session
  table and the backend's sink with its server library; \<open>system_api\<close> is the client's world
  whose RPCs run the handlers of the proxy and the backend. The network is at least once: a
  call may never arrive, be handled several times, and lose its reply; the machine decides
  (\<open>fate\<close> for the client's calls, \<open>report_fate\<close> for the backend's report to the proxy).
\<close>

section \<open>The network\<close>

datatype fate =
    NotDelivered rpc_error
  | Delivered nat "rpc_error option" \<comment> \<open>how often it is handled again; why the reply is lost\<close>

text \<open>A handler's outcome as the caller sees it; a failure with a reason only has code -1.\<close>

fun wire :: "'a handled \<Rightarrow> 'a rpc_result" where
  "wire (Inl (SetFailedReason reason)) = Inl (RpcError (-1) reason)"
| "wire (Inl (SetFailedCode code reason)) = Inl (RpcError code reason)"
| "wire (Inr resp) = Inr resp"

fun handle_again :: "nat \<Rightarrow> ('y \<Rightarrow> 'a handled \<times> 'y) \<Rightarrow> 'y \<Rightarrow> 'a handled \<times> 'y" where
  "handle_again 0 h y = h y"
| "handle_again (Suc n) h y = handle_again n h (snd (h y))"

fun deliver :: "fate \<Rightarrow> ('y \<Rightarrow> 'a handled \<times> 'y) \<Rightarrow> 'y \<Rightarrow> 'a rpc_result \<times> 'y" where
  "deliver (NotDelivered e) h y = (Inl e, y)"
| "deliver (Delivered n lost) h y =
     (let (r, y') = handle_again n h y
      in (case lost of Some e \<Rightarrow> Inl e | None \<Rightarrow> wire r, y'))"

section \<open>The system\<close>

record ('c, 's) system =
  sys_client :: 'c
  sys_proxy :: SessionManager
  sys_sink :: BackendGdsSink
  sys_server :: "'s server"

text \<open>
  What is fixed in one deployment: the client's machine (its RPC fields are not used), the
  proxy's clock, the two fates, the server library, and the two services.
\<close>

record ('c, 's) deployment =
  dp_machine :: "'c client_api"
  dp_wall :: "'c \<Rightarrow> int"
  dp_fate :: "'c \<Rightarrow> fate \<times> 'c"
  dp_report_fate :: "'c \<Rightarrow> fate \<times> 'c"
  dp_server :: "'s cuobj_api"
  dp_proxy :: ProxyControlPlaneService
  dp_backend :: BackendDataPlaneService

definition net_call ::
  "('c \<Rightarrow> fate \<times> 'c) \<Rightarrow> (('c, 's) system \<Rightarrow> 'a handled \<times> ('c, 's) system) \<Rightarrow>
   ('c, 's) system \<Rightarrow> 'a rpc_result \<times> ('c, 's) system" where
  "net_call fate h y = (let (f, c) = fate (sys_client y) in deliver f h (y\<lparr>sys_client := c\<rparr>))"

definition h_open ::
  "('c, 's) deployment \<Rightarrow> OpenSessionRequest \<Rightarrow> ('c, 's) system \<Rightarrow>
   OpenSessionResponse handled \<times> ('c, 's) system" where
  "h_open d q y = (let (r, m) = proxy_OpenSession (dp_proxy d) (dp_wall d (sys_client y)) q (sys_proxy y)
     in (r, y\<lparr>sys_proxy := m\<rparr>))"

definition h_abort ::
  "AbortSessionRequest \<Rightarrow> ('c, 's) system \<Rightarrow> AbortSessionResponse handled \<times> ('c, 's) system" where
  "h_abort q y = (let (r, m) = proxy_AbortSession q (sys_proxy y) in (r, y\<lparr>sys_proxy := m\<rparr>))"

definition h_report ::
  "ReportGdsPutRequest \<Rightarrow> ('c, 's) system \<Rightarrow> ReportGdsPutResponse handled \<times> ('c, 's) system" where
  "h_report q y = (let (r, m) = proxy_ReportGdsPut q (sys_proxy y) in (r, y\<lparr>sys_proxy := m\<rparr>))"

definition h_put ::
  "('c, 's) deployment \<Rightarrow> GdsChunkRequest \<Rightarrow> ('c, 's) system \<Rightarrow>
   GdsChunkResponse handled \<times> ('c, 's) system" where
  "h_put d q y =
     (let (r, st, y') = backend_GdsPut (dp_server d)
            (\<lambda>ep rq. net_call (dp_report_fate d) (h_report rq)) (dp_backend d) q
            ((sys_sink y, sys_server y), y)
      in (r, y'\<lparr>sys_sink := fst st, sys_server := snd st\<rparr>))"

definition on_machine :: "('c \<Rightarrow> 'a \<times> 'c) \<Rightarrow> ('c, 's) system \<Rightarrow> 'a \<times> ('c, 's) system" where
  "on_machine f y = (let (r, c) = f (sys_client y) in (r, y\<lparr>sys_client := c\<rparr>))"

definition system_api :: "('c, 's) deployment \<Rightarrow> ('c, 's) system client_api" where
  "system_api d = (let m = dp_machine d in
     \<lparr>ca_channel_init = ca_channel_init m,
      ca_open = (\<lambda>ep t q. net_call (dp_fate d) (h_open d q)),
      ca_abort = (\<lambda>ep t q. net_call (dp_fate d) (h_abort q)),
      ca_put = (\<lambda>ep t q. net_call (dp_fate d) (h_put d q)),
      ca_rng = on_machine (ca_rng m),
      ca_jitter = on_machine (ca_jitter m),
      ca_now = on_machine (ca_now m),
      ca_sleep = (\<lambda>ms y. y\<lparr>sys_client := ca_sleep m ms (sys_client y)\<rparr>),
      ca_memcpy = (\<lambda>p n. on_machine (ca_memcpy m p n)),
      ca_new_client = on_machine (ca_new_client m),
      ca_is_connected = (\<lambda>y. ca_is_connected m (sys_client y)),
      ca_get_descriptor = (\<lambda>p n. on_machine (ca_get_descriptor m p n)),
      ca_put_descriptor = (\<lambda>p. on_machine (ca_put_descriptor m p)),
      ca_get_token = (\<lambda>p n off. on_machine (ca_get_token m p n off)),
      ca_put_token = (\<lambda>tok y. y\<lparr>sys_client := ca_put_token m tok (sys_client y)\<rparr>),
      ca_token_text = (\<lambda>tok y. ca_token_text m tok (sys_client y)),
      ca_malloc = (\<lambda>n. on_machine (ca_malloc m n)),
      ca_upload = (\<lambda>p bytes. on_machine (ca_upload m p bytes)),
      ca_dev_free = (\<lambda>p y. y\<lparr>sys_client := ca_dev_free m p (sys_client y)\<rparr>)\<rparr>)"

lemma system_api_simps [simp]:
  "ca_open (system_api d) ep t q = net_call (dp_fate d) (h_open d q)"
  "ca_abort (system_api d) ep t aq = net_call (dp_fate d) (h_abort aq)"
  "ca_put (system_api d) ep t cq = net_call (dp_fate d) (h_put d cq)"
  "ca_rng (system_api d) = on_machine (ca_rng (dp_machine d))"
  "ca_jitter (system_api d) = on_machine (ca_jitter (dp_machine d))"
  "ca_now (system_api d) = on_machine (ca_now (dp_machine d))"
  "ca_sleep (system_api d) ms y = y\<lparr>sys_client := ca_sleep (dp_machine d) ms (sys_client y)\<rparr>"
  "ca_memcpy (system_api d) p n = on_machine (ca_memcpy (dp_machine d) p n)"
  "ca_new_client (system_api d) = on_machine (ca_new_client (dp_machine d))"
  "ca_get_descriptor (system_api d) p n = on_machine (ca_get_descriptor (dp_machine d) p n)"
  "ca_put_descriptor (system_api d) p = on_machine (ca_put_descriptor (dp_machine d) p)"
  "ca_get_token (system_api d) p n off = on_machine (ca_get_token (dp_machine d) p n off)"
  "ca_put_token (system_api d) tok y = y\<lparr>sys_client := ca_put_token (dp_machine d) tok (sys_client y)\<rparr>"
  "ca_token_text (system_api d) tok y = ca_token_text (dp_machine d) tok (sys_client y)"
  "ca_malloc (system_api d) n = on_machine (ca_malloc (dp_machine d) n)"
  "ca_upload (system_api d) p bytes = on_machine (ca_upload (dp_machine d) p bytes)"
  "ca_dev_free (system_api d) p y = y\<lparr>sys_client := ca_dev_free (dp_machine d) p (sys_client y)\<rparr>"
  by (simp_all add: system_api_def Let_def)

section \<open>What every call keeps\<close>

text \<open>
  The table is the result of a sequence of the proxy's handlers from the table \<open>m0\<close>, and the
  sink is between requests with its books balanced.
\<close>

definition sys_inv :: "('c, 's) deployment \<Rightarrow> SessionManager \<Rightarrow> bool \<Rightarrow> ('c, 's) system \<Rightarrow> bool" where
  "sys_inv d m0 crc y \<longleftrightarrow> (\<exists>calls. sys_proxy y = proxy_run (dp_proxy d) calls m0) \<and>
     sink_ready (sys_sink y, sys_server y) \<and> compute_crc32c (sys_sink y) = crc"

lemma proxy_run_snoc:
  "proxy_step svc c (proxy_run svc calls m) = proxy_run svc (calls @ [c]) m"
  by (simp add: proxy_run_def)

lemma sys_inv_client [simp]: "sys_inv d m0 crc (y\<lparr>sys_client := c\<rparr>) = sys_inv d m0 crc y"
  by (simp add: sys_inv_def)

lemma sys_inv_step:
  "sys_inv d m0 crc y \<Longrightarrow> sys_inv d m0 crc (y\<lparr>sys_proxy := proxy_step (dp_proxy d) c (sys_proxy y)\<rparr>)"
  by (auto simp: sys_inv_def proxy_run_snoc)

lemma h_open_inv: "sys_inv d m0 crc y \<Longrightarrow> sys_inv d m0 crc (snd (h_open d q y))"
  using sys_inv_step [of d m0 crc y "(dp_wall d (sys_client y), CallOpenSession q)"]
  by (simp add: h_open_def case_prod_unfold Let_def)

lemma h_abort_inv: "sys_inv d m0 crc y \<Longrightarrow> sys_inv d m0 crc (snd (h_abort q y))"
  using sys_inv_step [of d m0 crc y "(0, CallAbortSession q)"]
  by (simp add: h_abort_def case_prod_unfold Let_def)

lemma h_report_inv: "sys_inv d m0 crc y \<Longrightarrow> sys_inv d m0 crc (snd (h_report q y))"
  using sys_inv_step [of d m0 crc y "(0, CallReportGdsPut q)"]
  by (simp add: h_report_def case_prod_unfold Let_def)

lemma handle_again_inv:
  "(\<And>y. P y \<Longrightarrow> P (snd (h y))) \<Longrightarrow> P y \<Longrightarrow> P (snd (handle_again n h y))"
  by (induction n arbitrary: y) auto

lemma net_call_inv:
  assumes "\<And>y. P y \<Longrightarrow> P (snd (h y))" and "\<And>y c. P (y\<lparr>sys_client := c\<rparr>) = P y" and "P y"
  shows "P (snd (net_call fate h y))"
proof -
  obtain f c where f: "fate (sys_client y) = (f, c)" by force
  have "P (snd (deliver f h (y\<lparr>sys_client := c\<rparr>)))"
    using assms handle_again_inv [of P h]
    by (cases f) (auto simp: case_prod_unfold Let_def)
  then show ?thesis using f by (simp add: net_call_def)
qed

lemma take_lease_crc: "compute_crc32c (fst (snd (take_lease api n st))) = compute_crc32c (fst st)"
  by (cases st) (simp add: take_lease_def case_prod_unfold Let_def split: option.split)

lemma end_lease_crc: "compute_crc32c (fst (end_lease api l st)) = compute_crc32c (fst st)"
  by (cases st) (simp add: end_lease_def case_prod_unfold Let_def split: option.split)

lemma Receive_crc: "compute_crc32c (fst (snd (ReceiveAndDiscard api obj tok n st))) = compute_crc32c (fst st)"
  by (simp add: ReceiveAndDiscard_def case_prod_unfold Let_def take_lease_crc end_lease_crc)

lemma GdsPut_crc:
  "compute_crc32c (fst (fst (snd (backend_GdsPut api notify svc rq (st, p))))) = compute_crc32c (fst st)"
proof (cases "put_accepts api st rq")
  case True
  then show ?thesis by (simp add: GdsPut_sink Receive_crc)
next
  case False
  then show ?thesis using GdsPut_refused [of api st rq notify svc p] by auto
qed

lemma GdsPut_proxy:
  "snd (snd (backend_GdsPut api notify svc rq (st, p))) = p \<or>
   (\<exists>ep q. snd (snd (backend_GdsPut api notify svc rq (st, p))) = snd (notify ep q p))"
  by (auto simp: backend_GdsPut_def Let_def split: prod.split option.split)

lemma h_put_inv:
  assumes "sys_inv d m0 crc y"
  shows "sys_inv d m0 crc (snd (h_put d q y))"
proof -
  let ?n = "\<lambda>ep rq. net_call (dp_report_fate d) (h_report rq)"
  let ?g = "backend_GdsPut (dp_server d) ?n (dp_backend d) q ((sys_sink y, sys_server y), y)"
  have "sys_inv d m0 crc (snd (net_call (dp_report_fate d) (h_report rq) y))" for rq
    by (rule net_call_inv [of "sys_inv d m0 crc", OF h_report_inv sys_inv_client assms])
  then have "sys_inv d m0 crc (snd (snd ?g))"
    using assms GdsPut_proxy [of "dp_server d" ?n "dp_backend d" q "(sys_sink y, sys_server y)" y]
    by metis
  moreover have "sink_ready (fst (snd ?g))" "compute_crc32c (fst (fst (snd ?g))) = crc"
    using assms GdsPut_ready GdsPut_crc by (auto simp: sys_inv_def GdsPut_crc GdsPut_ready)
  ultimately show ?thesis by (simp add: h_put_def sys_inv_def case_prod_unfold Let_def)
qed

lemma on_machine_keeps: "\<exists>c. snd (on_machine f y) = y\<lparr>sys_client := c\<rparr>"
  by (auto simp: on_machine_def case_prod_unfold Let_def)

lemma on_machine_inv [simp]: "sys_inv d m0 crc (snd (on_machine f y)) = sys_inv d m0 crc y"
  using on_machine_keeps [of f y] by auto

interpretation whole_system: client_env "system_api dep" "sys_inv dep m0 crc"
  for dep :: "('c, 's) deployment" and m0 crc
  by unfold_locales
    (simp_all add: net_call_inv [of "sys_inv dep m0 crc"] h_open_inv h_abort_inv h_put_inv)

section \<open>A reply comes from a handler\<close>

lemma handle_again_last:
  assumes "\<And>y. P y \<Longrightarrow> P (snd (h y))" and "P y" and "handle_again n h y = (r, y')"
  shows "\<exists>y0. P y0 \<and> h y0 = (r, y')"
  using assms by (induction n arbitrary: y) auto

lemma wire_Inr: "wire r = Inr resp \<Longrightarrow> r = Inr resp"
  by (cases r rule: wire.cases) auto

lemma net_call_Inr:
  assumes "\<And>y. P y \<Longrightarrow> P (snd (h y))" and "\<And>y c. P (y\<lparr>sys_client := c\<rparr>) = P y" and "P y"
    and "net_call fate h y = (Inr resp, y')"
  shows "\<exists>y0. P y0 \<and> h y0 = (Inr resp, y')"
proof -
  obtain f c where f: "fate (sys_client y) = (f, c)" by force
  obtain n where "f = Delivered n None" and again: "handle_again n h (y\<lparr>sys_client := c\<rparr>) = (Inr resp, y')"
    using assms(4) f
    by (cases f) (auto simp: net_call_def Let_def dest!: wire_Inr split: prod.splits option.splits)
  have "P (y\<lparr>sys_client := c\<rparr>)" using assms(2,3) by simp
  from handle_again_last [of P, OF assms(1) this again] show ?thesis .
qed

section \<open>Checked transfers\<close>

text \<open>The bytes that the backend's transfer for a request puts in the leased buffer, if it is made.\<close>

definition landed :: "('c, 's) deployment \<Rightarrow> GdsChunkRequest \<Rightarrow> ('c, 's) system \<Rightarrow> u8 list option" where
  "landed d q y = map_option (arrived (dp_server d))
     (transfer_of (dp_server d) (BuildObjectId (gcq_bucket q) (gcq_object_key q)) (gcq_rdma_token q)
       (gcq_chunk_size q) (sys_sink y, sys_server y))"

text \<open>
  A client's call for a PUT in session \<open>i\<close>: it names the object of the request, asks for as many
  bytes as the buffer has, and carries the text of a token that the RDMA library issued for the
  buffer, from its start.
\<close>

definition put_call ::
  "('c, 's) deployment \<Rightarrow> PutObjectRequest \<Rightarrow> ConstBufferView \<Rightarrow> string \<Rightarrow> GdsChunkRequest \<Rightarrow> bool" where
  "put_call d rq buffer i q \<longleftrightarrow> gcq_bucket q = por_bucket rq \<and> gcq_object_key q = por_key rq \<and>
     gcq_session_id q = i \<and> gcq_chunk_size q = cbv_size buffer \<and>
     (\<exists>c tok c'. ca_get_token (dp_machine d) (cbv_data buffer) (cbv_size buffer) 0 c = ((CU_OBJ_SUCCESS, tok), c') \<and>
        gcq_rdma_token q = c_str (ca_token_text (dp_machine d) tok c'))"

lemma h_put_landed:
  assumes "h_put d q y = (Inr resp, y')" and "sys_inv d m0 True y" and "gcq_chunk_size q \<noteq> 0"
  shows "\<exists>bytes. landed d q y = Some bytes \<and>
     gcr_crc32c resp = Crc32c bytes \<and> gcr_etag resp = BuildEtag (Crc32c bytes)"
proof -
  let ?n = "\<lambda>ep rq. net_call (dp_report_fate d) (h_report rq)"
  obtain st' p' where g: "backend_GdsPut (dp_server d) ?n (dp_backend d) q
      ((sys_sink y, sys_server y), y) = (Inr resp, st', p')"
    using assms(1) by (auto simp: h_put_def case_prod_unfold Let_def prod_eq_iff)
  obtain outcome where r: "ReceiveAndDiscard (dp_server d)
        (BuildObjectId (gcq_bucket q) (gcq_object_key q)) (gcq_rdma_token q) (gcq_chunk_size q)
        (sys_sink y, sys_server y) = (outcome, st')" "do_ok outcome"
    and resp: "resp = empty_GdsChunkResponse\<lparr>gcr_etag := BuildEtag (do_crc32c outcome),
       gcr_bytes_received := do_bytes_transferred outcome, gcr_crc32c := do_crc32c outcome\<rparr>"
    using GdsPut_ok [OF g] by metis
  have s: "sink_ready (sys_sink y, sys_server y)" "compute_crc32c (sys_sink y)"
    using assms(2) by (simp_all add: sys_inv_def)
  show ?thesis
    using Receive_transfer [OF s(1) assms(3) r(1)] r(2) s(2)
    by (auto simp: landed_def resp empty_GdsChunkResponse_def)
qed

lemma AcquireToken_size:
  "AcquireToken api p n off t st = (True, t', st') \<Longrightarrow> n \<noteq> 0 \<and> p \<noteq> 0"
  by (cases st) (auto simp: AcquireToken_def)

text \<open>The token of a successful call is one that the library issued last, for that buffer.\<close>

lemma AcquireToken_issued:
  assumes "AcquireToken api p n off null_token (mgr, w) = (True, t, mgr', w')"
  shows "\<exists>s. ca_get_token api p n off s = ((CU_OBJ_SUCCESS, tok_ptr t), env w') \<and> tok_ptr t \<noteq> 0"
  using assms
  by (auto simp: AcquireToken_def Token_Assign_def Token_Reset_def null_token_def w_get_token_def Let_def
      split: if_splits prod.splits)

lemma PutOnce_landed:
  assumes "PutOnce (system_api d) opts meta chunk rq buffer (out, mgr, w) = (True, out', mgr', w')"
    and "sys_inv d m0 True (env w)"
  shows "\<exists>q y0 resp y1 bytes. put_call d rq buffer (to_session_id out') q \<and> sys_inv d m0 True y0 \<and>
     h_put d q y0 = (Inr resp, y1) \<and> landed d q y0 = Some bytes \<and>
     EvPut (gcq_session_id q) (gcq_rdma_token q) True \<in> set (events w') \<and>
     to_crc32c out' = Crc32c bytes \<and> to_etag out' = BuildEtag (Crc32c bytes) \<and>
     (verify_crc32c opts \<longrightarrow> (\<exists>host c. ca_memcpy (dp_machine d) (cbv_data buffer) (cbv_size buffer) (sys_client y1) =
        ((cudaSuccess, host), c) \<and> Crc32c host = Crc32c bytes))"
  using assms(1)
proof (rule PutOnce_true)
  fix a :: PutAttempt and g :: SessionGrant and w1 w2 t w3 rp w4 w5 ro
  assume mk: "MakePutAttempt (w_rng (system_api d)) opts rq w = (a, w1)"
    and o: "w_open (system_api d) (rb_endpoint meta) (ApplyTimeout (pa_timeout a)) (open_request a) w1
      = (Inr ro, w2)"
    and acq: "AcquireToken (system_api d) (cbv_data buffer) (cbv_size buffer) 0 null_token (mgr, w2)
      = (True, t, mgr', w3)"
    and put: "w_put (system_api d) (rb_endpoint chunk) (ApplyTimeout (pa_timeout a))
      (chunk_request a g (Token_str (system_api d) t w3) (cbv_size buffer)) w3 = (Inr rp, w4)"
    and out': "out' = MakeTransferOutcome a \<lparr>gpr_etag = gcr_etag rp, gpr_crc32c = gcr_crc32c rp\<rparr> buffer"
    and chk: "verify_crc32c opts \<Longrightarrow> \<exists>host. w_memcpy (system_api d) (cbv_data buffer) (cbv_size buffer) w4
      = ((cudaSuccess, host), w5) \<and> cl_Crc32c host = gcr_crc32c rp"
    and nochk: "\<not> verify_crc32c opts \<Longrightarrow> w5 = w4" and w': "w' = Token_end (system_api d) t w5"
  have "events w5 = events w4"
    using chk nochk events_quiet(4) [of "system_api d" "cbv_data buffer" "cbv_size buffer" w4]
    by (cases "verify_crc32c opts") auto
  then have kept: "set (events w4) \<subseteq> set (events w')"
    by (auto simp: w' Token_end_def Token_Reset_def client_simps)
  have "sys_inv d m0 True (env w1)"
    using whole_system.MakePutAttempt_I [OF assms(2)] mk by (metis snd_conv)
  then have "sys_inv d m0 True (env w2)"
    using whole_system.wrappers_I(1) o by (metis snd_conv)
  then have i3: "sys_inv d m0 True (env w3)"
    using whole_system.AcquireToken_I acq by (metis snd_conv)
  let ?q = "chunk_request a g (Token_str (system_api d) t w3) (cbv_size buffer)"
  have call: "net_call (dp_fate d) (h_put d ?q) (env w3) = (Inr rp, env w4)"
    using w_put_call [OF put] by simp
  obtain y0 where y0: "sys_inv d m0 True y0" "h_put d ?q y0 = (Inr rp, env w4)"
    using net_call_Inr [of "sys_inv d m0 True", OF h_put_inv sys_inv_client i3 call] by blast
  have "gcq_chunk_size ?q \<noteq> 0" using AcquireToken_size [OF acq] by (simp add: chunk_request_def)
  from h_put_landed [OF y0(2,1) this] obtain bytes where b: "landed d ?q y0 = Some bytes"
      "gcr_crc32c rp = Crc32c bytes" "gcr_etag rp = BuildEtag (Crc32c bytes)" by blast
  obtain s where s: "ca_get_token (system_api d) (cbv_data buffer) (cbv_size buffer) 0 s =
      ((CU_OBJ_SUCCESS, tok_ptr t), env w3)" "tok_ptr t \<noteq> 0"
    using AcquireToken_issued [OF acq] by blast
  have "a = fst (MakePutAttempt (w_rng (system_api d)) opts rq w)" using mk by simp
  then have names: "pa_bucket a = por_bucket rq" "pa_key a = por_key rq" by (simp_all add: MakePutAttempt_ids)
  have "ca_get_token (dp_machine d) (cbv_data buffer) (cbv_size buffer) 0 (sys_client s) =
      ((CU_OBJ_SUCCESS, tok_ptr t), sys_client (env w3))"
    using s(1) by (auto simp: on_machine_def dest: sym [of _ "env w3"] split: prod.splits)
  then have "put_call d rq buffer (pa_session_id a) ?q"
    using s(2) names by (auto simp: put_call_def chunk_request_def Token_str_def)
  moreover have "\<exists>host c. ca_memcpy (dp_machine d) (cbv_data buffer) (cbv_size buffer) (sys_client (env w4)) =
      ((cudaSuccess, host), c) \<and> Crc32c host = Crc32c bytes" if "verify_crc32c opts"
    using chk [OF that] b(2)
    by (auto simp: w_memcpy_def on_machine_def cl_Crc32c_eq Let_def split: prod.splits)
  moreover have "EvPut (gcq_session_id ?q) (gcq_rdma_token ?q) True \<in> set (events w')"
    using events_put [of "system_api d" "rb_endpoint chunk" "ApplyTimeout (pa_timeout a)" ?q w3] put kept by auto
  ultimately show ?thesis
    using y0 b
    by (intro exI [of _ ?q] exI [of _ y0] exI [of _ rp] exI [of _ "env w4"] exI [of _ bytes])
      (simp add: out' MakeTransferOutcome_def)
qed

section \<open>Reported transfers\<close>

text \<open>The session \<open>i\<close> is in the table.\<close>

definition open_in :: "string \<Rightarrow> ('c, 's) system \<Rightarrow> bool" where
  "open_in i y \<longleftrightarrow> GetSession i (sys_proxy y) \<noteq> None"

lemma open_in_client [simp]: "open_in i (y\<lparr>sys_client := c\<rparr>) = open_in i y"
  by (simp add: open_in_def)

lemma h_open_opens:
  assumes "h_open d q y = (Inr resp, y')"
  shows "open_in (osr_session_id resp) y'"
proof -
  obtain m where m: "proxy_OpenSession (dp_proxy d) (dp_wall d (sys_client y)) q (sys_proxy y) = (Inr resp, m)"
    "y' = y\<lparr>sys_proxy := m\<rparr>"
    using assms by (auto simp: h_open_def split: prod.splits)
  from m(1) show ?thesis
    by (rule OpenSession_Inr) (simp add: open_in_def m(2) CreateSession_lookup)
qed

lemma h_report_keeps_open: "open_in i y \<Longrightarrow> open_in i (snd (h_report q y))"
  using proxy_step_keeps [of i "sys_proxy y" undefined "(0, CallReportGdsPut q)"]
  by (simp add: h_report_def open_in_def case_prod_unfold Let_def)

lemma h_put_keeps_open:
  assumes "open_in i y"
  shows "open_in i (snd (h_put d q y))"
proof -
  let ?n = "\<lambda>ep rq. net_call (dp_report_fate d) (h_report rq)"
  have "open_in i (snd (net_call (dp_report_fate d) (h_report rq) y))" for rq
    by (rule net_call_inv [of "open_in i", OF h_report_keeps_open open_in_client assms])
  then have "open_in i (snd (snd (backend_GdsPut (dp_server d) ?n (dp_backend d) q
      ((sys_sink y, sys_server y), y))))"
    using assms GdsPut_proxy [of "dp_server d" ?n "dp_backend d" q "(sys_sink y, sys_server y)" y]
    by metis
  then show ?thesis by (simp add: h_put_def open_in_def case_prod_unfold Let_def)
qed

text \<open>The session is completed with this tag and checksum.\<close>

definition completed_in :: "string \<Rightarrow> string \<Rightarrow> u32 \<Rightarrow> ('c, 's) system \<Rightarrow> bool" where
  "completed_in i tag crc y \<longleftrightarrow> (\<exists>s. GetSession i (sys_proxy y) = Some s \<and>
     status s = kCompleted \<and> etag s = tag \<and> crc32c s = crc)"

lemma h_report_completes:
  assumes "open_in (rgq_session_id q) y"
  shows "completed_in (rgq_session_id q) (rgq_etag q) (rgq_crc32c q) (snd (h_report q y))"
proof -
  obtain ok m where c: "CompleteSession (rgq_session_id q) (rgq_etag q) (rgq_crc32c q)
      (rgq_bytes_transferred q) (sys_proxy y) = (ok, m)" by force
  show ?thesis
    using assms CompleteSession_lookup [OF c, of "rgq_session_id q"]
    by (auto simp: h_report_def proxy_ReportGdsPut_def c completed_in_def open_in_def)
qed

text \<open>A report that arrives, however often, completes the session.\<close>

lemma reported_completes:
  assumes "open_in (rgq_session_id q) y" and "fst (fate (sys_client y)) = Delivered n lost"
  shows "completed_in (rgq_session_id q) (rgq_etag q) (rgq_crc32c q) (snd (net_call fate (h_report q) y))"
proof -
  obtain c where f: "fate (sys_client y) = (Delivered n lost, c)" using assms(2) by (metis prod.collapse)
  obtain r y' where a: "handle_again n (h_report q) (y\<lparr>sys_client := c\<rparr>) = (r, y')" by force
  have o: "open_in (rgq_session_id q) (y\<lparr>sys_client := c\<rparr>)" using assms(1) by simp
  have "\<exists>y0. open_in (rgq_session_id q) y0 \<and> h_report q y0 = (r, y')"
    by (rule handle_again_last [of "open_in (rgq_session_id q)", OF _ o a]) (rule h_report_keeps_open)
  then have "completed_in (rgq_session_id q) (rgq_etag q) (rgq_crc32c q) y'"
    using h_report_completes by (metis snd_conv)
  then show ?thesis using f a by (simp add: net_call_def)
qed

definition reports_arrive :: "('c, 's) deployment \<Rightarrow> bool" where
  "reports_arrive d \<longleftrightarrow> proxy_stub (dp_backend d) \<noteq> None \<and>
     (\<forall>c. \<exists>n lost. fst (dp_report_fate d c) = Delivered n lost)"

lemma h_put_completes:
  assumes "h_put d q y = (Inr resp, y')" and "reports_arrive d" and "open_in (gcq_session_id q) y"
  shows "completed_in (gcq_session_id q) (gcr_etag resp) (gcr_crc32c resp) y'"
proof -
  let ?n = "\<lambda>ep rq. net_call (dp_report_fate d) (h_report rq)"
  obtain st' p' where g: "backend_GdsPut (dp_server d) ?n (dp_backend d) q
      ((sys_sink y, sys_server y), y) = (Inr resp, st', p')"
    and y': "y' = p'\<lparr>sys_sink := fst st', sys_server := snd st'\<rparr>"
    using assms(1) by (auto simp: h_put_def case_prod_unfold Let_def prod_eq_iff)
  obtain ep where ep: "proxy_stub (dp_backend d) = Some ep"
    using assms(2) by (auto simp: reports_arrive_def)
  have "p' = (case proxy_stub (dp_backend d) of None \<Rightarrow> y
      | Some ep \<Rightarrow> snd (net_call (dp_report_fate d) (h_report (report_of q resp)) y))"
    by (rule GdsPut_ok [OF g])
  then have "p' = snd (net_call (dp_report_fate d) (h_report (report_of q resp)) y)"
    using ep by simp
  moreover obtain n lost where "fst (dp_report_fate d (sys_client y)) = Delivered n lost"
    using assms(2) unfolding reports_arrive_def by blast
  ultimately show ?thesis
    using reported_completes [of "report_of q resp" y "dp_report_fate d" n lost] assms(3)
    by (simp add: y' completed_in_def report_of_def)
qed

text \<open>What happens on the client's machine does not touch the table.\<close>

lemma on_machine_proxy [simp]: "sys_proxy (snd (on_machine f y)) = sys_proxy y"
  using on_machine_keeps [of f y] by auto

lemma machine_keeps_proxy:
  "sys_proxy (env (snd (w_memcpy (system_api d) p n w))) = sys_proxy (env w)"
  "sys_proxy (env (Token_end (system_api d) t w)) = sys_proxy (env w)"
  "sys_proxy (env (snd (snd (snd (AcquireToken (system_api d) p n off null_token (mgr, w)))))) =
     sys_proxy (env w)"
    apply (simp add: env_calls)
   apply (simp add: Token_end_def Token_Reset_def env_calls)
  apply (simp add: AcquireToken_def RegisterBufferUnderLock_def Token_Assign_def Token_Reset_def
      null_token_def Let_def case_prod_unfold env_calls)
  done

lemma PutOnce_reported:
  assumes "PutOnce (system_api d) opts meta chunk rq buffer (out, mgr, w) = (True, out', mgr', w')"
    and "reports_arrive d"
  shows "completed_in (to_session_id out') (to_etag out') (to_crc32c out') (env w')"
  using assms(1)
proof (rule PutOnce_true)
  fix a :: PutAttempt and g :: SessionGrant and w1 w2 t w3 rp w4 w5 ro
  assume o: "w_open (system_api d) (rb_endpoint meta) (ApplyTimeout (pa_timeout a)) (open_request a) w1
      = (Inr ro, w2)" and ses: "osr_session_id ro = pa_session_id a"
    and acq: "AcquireToken (system_api d) (cbv_data buffer) (cbv_size buffer) 0 null_token (mgr, w2)
      = (True, t, mgr', w3)"
    and put: "w_put (system_api d) (rb_endpoint chunk) (ApplyTimeout (pa_timeout a))
      (chunk_request a g (Token_str (system_api d) t w3) (cbv_size buffer)) w3 = (Inr rp, w4)"
    and out': "out' = MakeTransferOutcome a \<lparr>gpr_etag = gcr_etag rp, gpr_crc32c = gcr_crc32c rp\<rparr> buffer"
    and chk: "verify_crc32c opts \<Longrightarrow> \<exists>host. w_memcpy (system_api d) (cbv_data buffer) (cbv_size buffer) w4
      = ((cudaSuccess, host), w5) \<and> cl_Crc32c host = gcr_crc32c rp"
    and nochk: "\<not> verify_crc32c opts \<Longrightarrow> w5 = w4" and w': "w' = Token_end (system_api d) t w5"
  have "net_call (dp_fate d) (h_open d (open_request a)) (env w1) = (Inr ro, env w2)"
    using w_open_call [OF o] by simp
  then obtain y1 where "h_open d (open_request a) y1 = (Inr ro, env w2)"
    using net_call_Inr [of "\<lambda>y. True" "h_open d (open_request a)"] by blast
  then have "open_in (pa_session_id a) (env w2)" using h_open_opens ses by metis
  then have o3: "open_in (pa_session_id a) (env w3)"
    using machine_keeps_proxy(3) [of d "cbv_data buffer" "cbv_size buffer" 0 mgr w2] acq
    by (simp add: open_in_def)
  let ?q = "chunk_request a g (Token_str (system_api d) t w3) (cbv_size buffer)"
  have call: "net_call (dp_fate d) (h_put d ?q) (env w3) = (Inr rp, env w4)"
    using w_put_call [OF put] by simp
  obtain y3 where "open_in (pa_session_id a) y3" "h_put d ?q y3 = (Inr rp, env w4)"
    using net_call_Inr [of "open_in (pa_session_id a)", OF h_put_keeps_open open_in_client o3 call]
    by blast
  then have "completed_in (pa_session_id a) (gcr_etag rp) (gcr_crc32c rp) (env w4)"
    using h_put_completes [of d ?q y3 rp "env w4", OF _ assms(2)] by simp
  moreover have "sys_proxy (env w5) = sys_proxy (env w4)"
    using chk nochk machine_keeps_proxy(1) [of d "cbv_data buffer" "cbv_size buffer" w4]
    by (cases "verify_crc32c opts") auto
  ultimately show ?thesis
    by (simp add: w' completed_in_def machine_keeps_proxy(2) out' MakeTransferOutcome_def)
qed

text \<open>A completed session answers \<open>CompleteUpload\<close> for its ticket.\<close>

lemma completed_answers:
  assumes "sm_inv (sys_proxy y)" and "completed_in i tag crc y"
  shows "proxy_CompleteUpload \<lparr>cuq_upload_id = ticket_for i, cuq_parts = parts, cuq_data_flow = flow\<rparr>
      (sys_proxy y) = (Inr (empty_CompleteUploadResponse\<lparr>cur_etag := tag\<rparr>), sys_proxy y)"
proof -
  from assms(2) obtain s where s: "GetSession i (sys_proxy y) = Some s" "status s = kCompleted" "etag s = tag"
    by (auto simp: completed_in_def)
  have "ticket s = ticket_for i" using sm_inv_lookup [OF assms(1) s(1)] by simp
  then have "GetCompletedSession (ticket_for i) (sys_proxy y) = Some s"
    using GetCompletedSession_iff [OF assms(1)] s(1,2) by blast
  then show ?thesis by (simp add: proxy_CompleteUpload_def s(3))
qed

lemma sys_inv_table: "sys_inv d m0 crc y \<Longrightarrow> sm_inv m0 \<Longrightarrow> sm_inv (sys_proxy y)"
  by (auto simp: sys_inv_def proxy_run_inv)

section \<open>The system from its start\<close>

text \<open>
  A system that has just come up: an empty session table, a sink that was started and has not
  served a request, and a client whose methods were then called in any order.
\<close>

definition fresh_system ::
  "('c, 's) deployment \<Rightarrow> int \<Rightarrow> bool \<Rightarrow> ('c, 's) system \<Rightarrow> bool" where
  "fresh_system d ttl crc y \<longleftrightarrow> sys_proxy y = new_SessionManager ttl \<and>
     (\<exists>host port s. Sink_Start (dp_server d) (new_sink host port crc, \<lparr>srv_state = s, srv_calls = []\<rparr>) =
        (True, sys_sink y, sys_server y))"

definition system_run ::
  "('c, 's) deployment \<Rightarrow> ClientOptions \<Rightarrow> client_call list \<Rightarrow> ('c, 's) system \<Rightarrow>
   ('c, 's) system client_state option" where
  "system_run d opts calls y =
     client_run (system_api d) calls (new_Client opts, None, \<lparr>env = y, events = []\<rparr>)"

lemma fresh_system_inv:
  assumes "fresh_system d ttl crc y"
  shows "sys_inv d (new_SessionManager ttl) crc y"
proof -
  obtain host port s where st: "Sink_Start (dp_server d)
      (new_sink host port crc, \<lparr>srv_state = s, srv_calls = []\<rparr>) = (True, sys_sink y, sys_server y)"
    using assms by (auto simp: fresh_system_def)
  then have "sink_ready (sys_sink y, sys_server y)"
    by (rule Start_ready) (simp add: pool_simps)
  moreover have "compute_crc32c (sys_sink y) = crc"
    using st by (auto simp: Sink_Start_def Let_def new_sink_def split: if_splits dest!: sym [of _ "sys_sink y"])
  moreover have "sys_proxy y = proxy_run (dp_proxy d) [] (new_SessionManager ttl)"
    using assms by (simp add: fresh_system_def proxy_run_def)
  ultimately show ?thesis unfolding sys_inv_def by blast
qed

lemma system_run_inv:
  assumes "fresh_system d ttl crc y" and "system_run d opts calls y = Some (c, static, w)"
  shows "sys_inv d (new_SessionManager ttl) crc (env w)"
  using whole_system.client_run_I [of d "new_SessionManager ttl" crc _ calls "(c, static, w)"]
    fresh_system_inv [OF assms(1)] assms(2)
  by (simp add: system_run_def) (metis snd_conv world.select_convs(1))

end
