(* ===== verification/Example_System.thy ===== *)
theory Example_System
  imports End_To_End Example_Server Example_Client
begin

text \<open>
  A concrete deployment for the witnesses of the end-to-end properties: the machine of
  \<open>Example_Client\<close>, the server library of \<open>Example_Server\<close>, a network that delivers every
  call and repeats every report once. The lemmas run a \<open>PutObject\<close> of three bytes through
  the client, the proxy and the backend, step by step.
\<close>

definition demo_deployment :: "(nat, nat) deployment" where
  "demo_deployment =
     \<lparr>dp_machine = demo_machine 0, dp_wall = (\<lambda>c. 0), dp_fate = (\<lambda>c. (Delivered 0 None, c)),
      dp_report_fate = (\<lambda>c. (Delivered 1 None, c)), dp_server = demo_server,
      dp_proxy = \<lparr>ps_gateway_id = ''g'', ps_backend_endpoint = ''b:1''\<rparr>,
      dp_backend = \<lparr>bs_gateway_id = ''g'', proxy_stub = Some ''p:1''\<rparr>\<rparr>"

definition demo_system :: "(nat, nat) system" where
  "demo_system = (let (ok, k, w) = Sink_Start demo_server (new_sink ''h'' 1 True, demo_boot)
     in \<lparr>sys_client = 0, sys_proxy = new_SessionManager 60, sys_sink = k, sys_server = w\<rparr>)"

lemma demo_fresh: "fresh_system demo_deployment 60 True demo_system"
  unfolding fresh_system_def
  by (intro conjI exI [of _ "''h''"] exI [of _ 1] exI [of _ 1])
    (simp_all add: demo_system_def demo_deployment_def demo_boot_def Sink_Start_def Let_def srv_connected_def demo_server_def)

definition demo_client :: Client where
  "demo_client = \<lparr>cl_options = demo_options,
     cl_meta = Some \<lparr>rb_channel = Some ''p:1'', rb_stub = True, rb_init_error = []\<rparr>,
     cl_chunk = Some \<lparr>rb_channel = Some ''b:1'', rb_stub = True, rb_init_error = []\<rparr>,
     cl_gds_mgr = True, cl_initialized = True\<rparr>"

definition demo_manager :: GdsMemoryManager where
  "demo_manager = \<lparr>gm_client = True, gm_connected = True, gm_registered = []\<rparr>"

lemma demo_run:
  "system_run demo_deployment demo_options [CallInitialize] demo_system =
     Some (demo_client, Some demo_manager, \<lparr>env = demo_system, events = []\<rparr>)"
  by (simp add: system_run_def new_Client_def Client_Initialize_def demo_options_def default_options_def
      new_RpcBase_def rpc_ok_def trim_endpoint_def c_str_def system_api_def demo_deployment_def demo_machine_def
      Instance_def new_GdsMemoryManager_def w_new_client_def on_machine_def world_log_def Let_def
      demo_client_def demo_manager_def)

abbreviation demo_rpc :: "string \<Rightarrow> RpcBase" where
  "demo_rpc e \<equiv> \<lparr>rb_channel = Some e, rb_stub = True, rb_init_error = []\<rparr>"

abbreviation demo_tried :: PutAttempt where
  "demo_tried \<equiv> \<lparr>pa_timeout = 30000, pa_bucket = ''b'', pa_key = ''k'', pa_length = Some 3,
     pa_request_id = id_text kRequestIdPrefix 0, pa_session_id = id_text kClientSessionIdPrefix 1\<rparr>"

abbreviation demo_grant :: SessionGrant where
  "demo_grant \<equiv> \<lparr>sg_ticket = ticket_for (id_text kClientSessionIdPrefix 1)\<rparr>"

abbreviation demo_descriptor :: Token where
  "demo_descriptor \<equiv> \<lparr>tok_client = True, tok_ptr = 9\<rparr>"

abbreviation demo_world :: "SessionManager \<Rightarrow> client_event list \<Rightarrow> (nat, nat) system world" where
  "demo_world m evs \<equiv> \<lparr>env = demo_system\<lparr>sys_client := 2, sys_proxy := m\<rparr>, events = evs\<rparr>"

lemma demo_made:
  "MakePutAttempt (w_rng (system_api demo_deployment)) demo_options demo_request
     \<lparr>env = demo_system, events = []\<rparr> = (demo_tried, \<lparr>env = demo_system\<lparr>sys_client := 2\<rparr>, events = []\<rparr>)"
  by (simp add: MakePutAttempt_ids demo_request_def default_put_request_def MakeContext_def w_rng_def
      on_machine_def demo_deployment_def demo_machine_def demo_system_def world_log_def Let_def split: prod.splits)

lemma demo_opened:
  obtains m where "MetaRpc_OpenSession (system_api demo_deployment) (demo_rpc ''p:1'') demo_tried
      \<lparr>sg_ticket = []\<rparr> \<lparr>env = demo_system\<lparr>sys_client := 2\<rparr>, events = []\<rparr> =
      (True, demo_grant, demo_world m [EvOpen (id_text kClientSessionIdPrefix 1) True])"
  by (simp add: MetaRpc_OpenSession_def rpc_ok_def w_open_def net_call_def demo_deployment_def h_open_def
      OpenSession_valid open_valid_def open_request_def empty_OpenSessionRequest_def kGdsDataPath_def
      kOpTypePut_def CreateSession_eq created_id_def Let_def world_log_def)

lemma demo_acquired:
  obtains mgr' evs where "AcquireToken (system_api demo_deployment) (cbv_data demo_buffer)
      (cbv_size demo_buffer) 0 null_token (demo_manager, demo_world m evs0) =
      (True, demo_descriptor, mgr', demo_world m evs)"
  by (simp add: AcquireToken_def demo_buffer_def demo_manager_def RegisterBufferUnderLock_def
      w_get_descriptor_def w_get_token_def on_machine_def demo_deployment_def demo_machine_def
      CU_OBJ_SUCCESS_def Token_Assign_def Token_Reset_def null_token_def Let_def world_log_def)

lemma demo_sent:
  "Token_str (system_api demo_deployment) demo_descriptor (demo_world m evs) = demo_token"
  by (simp add: Token_str_def demo_deployment_def demo_machine_def demo_token_def c_str_def)

lemma demo_stored:
  obtains y' where "w_put (system_api demo_deployment) ''b:1'' 30000
      (chunk_request demo_tried demo_grant demo_token 3) (demo_world m evs) =
      (Inr (empty_GdsChunkResponse\<lparr>gcr_etag := BuildEtag (Crc32c [0x55, 0x55, 0x55]),
         gcr_bytes_received := 3, gcr_crc32c := Crc32c [0x55, 0x55, 0x55]\<rparr>),
       \<lparr>env = y', events = evs @ [EvPut (id_text kClientSessionIdPrefix 1) demo_token True]\<rparr>)"
proof -
  let ?q = "chunk_request demo_tried demo_grant demo_token 3"
  have sys: "(sys_sink demo_system, sys_server demo_system) = demo_backend"
    by (simp add: demo_system_def demo_backend_def Let_def case_prod_unfold)
  obtain st' where rec: "ReceiveAndDiscard demo_server ''b/k'' demo_token 3
      (sys_sink demo_system, sys_server demo_system) =
      (\<lparr>do_ok = True, do_error = [], do_bytes_transferred = 3, do_crc32c = Crc32c [0x55, 0x55, 0x55]\<rparr>, st')"
    using demo_receive unfolding sys by blast
  have q: "gcq_upload_id ?q = []" "gcq_rdma_token ?q \<noteq> []" "gcq_chunk_size ?q = 3"
    "BuildObjectId (gcq_bucket ?q) (gcq_object_key ?q) = ''b/k''" "gcq_rdma_token ?q = demo_token"
    by (simp_all add: demo_token_def BuildObjectId_def)
  have up: "Sink_available demo_server (sys_sink demo_system, sys_server demo_system)"
    using demo_backend_started by (simp add: sys)
  show ?thesis
    using that q rec up
    by (simp add: w_put_def net_call_def demo_deployment_def h_put_def backend_GdsPut_def Let_def
        world_log_def split: prod.split)
qed

lemma demo_transferred:
  "\<exists>out' w'. PutOnce_transfer (system_api demo_deployment) demo_options (demo_rpc ''p:1'') (demo_rpc ''b:1'')
     demo_tried demo_grant demo_descriptor demo_buffer (empty_outcome, demo_world m evs) = (True, out', w')"
proof -
  let ?api = "system_api demo_deployment" and ?crc = "Crc32c [0x55, 0x55, 0x55]"
  obtain y' where put: "w_put ?api ''b:1'' 30000 (chunk_request demo_tried demo_grant demo_token 3)
      (demo_world m evs) = (Inr (empty_GdsChunkResponse\<lparr>gcr_etag := BuildEtag ?crc,
         gcr_bytes_received := 3, gcr_crc32c := ?crc\<rparr>),
       \<lparr>env = y', events = evs @ [EvPut (id_text kClientSessionIdPrefix 1) demo_token True]\<rparr>)"
    using demo_stored .
  have chunk: "ChunkRpc_Put ?api (demo_rpc ''b:1'') demo_tried demo_grant
      (Token_str ?api demo_descriptor (demo_world m evs)) (cbv_size demo_buffer)
      \<lparr>gpr_etag = [], gpr_crc32c = 0\<rparr> (demo_world m evs) =
      (True, \<lparr>gpr_etag = BuildEtag ?crc, gpr_crc32c = ?crc\<rparr>,
       \<lparr>env = y', events = evs @ [EvPut (id_text kClientSessionIdPrefix 1) demo_token True]\<rparr>)"
    using put by (simp add: ChunkRpc_Put_def rpc_ok_def demo_sent rb_endpoint_def ApplyTimeout_def
        int_cast32_def demo_buffer_def empty_GdsChunkResponse_def)
  have three: "replicate 3 x = [x, x, x]" for x :: u8 by (simp add: numeral_3_eq_3)
  have copy: "w_memcpy ?api (cbv_data demo_buffer) (cbv_size demo_buffer) w =
      ((cudaSuccess, [0x55, 0x55, 0x55]), w\<lparr>events := events w\<rparr>)" for w
    by (simp add: w_memcpy_def on_machine_def demo_deployment_def demo_machine_def world_log_def
        cudaSuccess_def demo_buffer_def three)
  have v: "verify_crc32c demo_options" by (simp add: demo_options_def)
  show ?thesis using chunk copy v by (simp add: PutOnce_transfer_def Let_def cl_Crc32c_eq)
qed

lemma demo_attempt:
  "\<exists>out' mgr' w'. PutOnce (system_api demo_deployment) demo_options (demo_rpc ''p:1'') (demo_rpc ''b:1'')
     demo_request demo_buffer (empty_outcome, demo_manager, \<lparr>env = demo_system, events = []\<rparr>)
   = (True, out', mgr', w')"
proof -
  obtain m where m: "MetaRpc_OpenSession (system_api demo_deployment) (demo_rpc ''p:1'') demo_tried
      \<lparr>sg_ticket = []\<rparr> \<lparr>env = demo_system\<lparr>sys_client := 2\<rparr>, events = []\<rparr> =
      (True, demo_grant, demo_world m [EvOpen (id_text kClientSessionIdPrefix 1) True])"
    using demo_opened .
  obtain mgr' evs where acq: "AcquireToken (system_api demo_deployment) (cbv_data demo_buffer)
      (cbv_size demo_buffer) 0 null_token
      (demo_manager, demo_world m [EvOpen (id_text kClientSessionIdPrefix 1) True]) =
      (True, demo_descriptor, mgr', demo_world m evs)"
    using demo_acquired .
  show ?thesis
    unfolding PutOnce_def using demo_transferred [of m evs] demo_made m acq by auto
qed

lemma demo_put_true:
  "\<exists>c static w out' static' w'.
     system_run demo_deployment demo_options [CallInitialize] demo_system = Some (c, static, w) \<and>
     verify_crc32c (cl_options c) \<and>
     PutObject (system_api demo_deployment) c demo_request demo_buffer empty_outcome (static, w) =
       Some (True, out', static', w')"
proof -
  obtain out' mgr' w' where p: "PutOnce (system_api demo_deployment) demo_options
     \<lparr>rb_channel = Some ''p:1'', rb_stub = True, rb_init_error = []\<rparr>
     \<lparr>rb_channel = Some ''b:1'', rb_stub = True, rb_init_error = []\<rparr>
     demo_request demo_buffer (empty_outcome, demo_manager, \<lparr>env = demo_system, events = []\<rparr>)
     = (True, out', mgr', w')" using demo_attempt by blast
  have now: "w_now (system_api demo_deployment) \<lparr>env = demo_system, events = []\<rparr> =
      (0, \<lparr>env = demo_system, events = []\<rparr>)"
    by (simp add: w_now_def on_machine_def demo_deployment_def demo_machine_def world_log_def Let_def
      demo_system_def split: prod.split)
  have "PutObject (system_api demo_deployment) demo_client demo_request demo_buffer empty_outcome
      (Some demo_manager, \<lparr>env = demo_system, events = []\<rparr>) = Some (True, out', Some mgr', w')"
    using p now by (simp add: PutObject_def demo_client_def demo_options_def default_options_def
      demo_buffer_def client_parts_def Retry_default put_attempt_def Let_def)
  then show ?thesis using demo_run by (simp add: demo_client_def demo_options_def)
qed
end
