(* ===== verification/Client_Device.thy ===== *)
theory Client_Device
  imports Client_Runs
begin

text \<open>
  Device memory and the client: which buffer the client's methods may touch, and the books of
  device memory, which note every buffer that is freed while the library has it registered: that
  happens when its deregistration failed, which the client does not try again. The lemmas say
  what each method adds to the log for a buffer, so that a program that allocates, registers,
  puts, unregisters and frees can be followed through.
\<close>

section \<open>Methods that touch one buffer\<close>

fun on_buffer :: "u64 \<Rightarrow> client_event \<Rightarrow> bool" where
  "on_buffer p (EvRegistered q n) = (q = p)"
| "on_buffer p (EvUnregistered q ok) = False"
| "on_buffer p (EvDevAlloc q) = False"
| "on_buffer p (EvDevFree q) = False"
| "on_buffer p e = True"

definition extends_on :: "u64 \<Rightarrow> client_event list \<Rightarrow> 's world \<Rightarrow> bool" where
  "extends_on p base w \<longleftrightarrow> (\<exists>es. events w = base @ es \<and> list_all (on_buffer p) es)"

lemma extends_on_refl [intro]: "events w = base \<Longrightarrow> extends_on p base w"
  by (auto simp: extends_on_def)

lemma extends_on_append:
  "extends_on p base w \<Longrightarrow> events w' = events w @ es \<Longrightarrow> list_all (on_buffer p) es \<Longrightarrow>
   extends_on p base w'"
  unfolding extends_on_def by (metis append_assoc list_all_append)

lemma attempt_trace_on: "attempt_trace p i ok es \<Longrightarrow> list_all (on_buffer p) es"
  by (induction rule: attempt_trace.induct) auto

lemma put_attempt_on:
  assumes "attempt_inv meta chunk ts st" "extends_on (cbv_data buffer) base (snd (snd st))"
    and "put_attempt api opts meta chunk rq buffer deadline st = (ok, st')"
  shows "extends_on (cbv_data buffer) base (snd (snd st'))"
proof -
  obtain out mgr w where st: "st = (out, mgr, w)" by (metis prod.collapse)
  obtain out' mgr' w' where st': "st' = (out', mgr', w')" by (metis prod.collapse)
  obtain now w1 where n: "w_now api w = (now, w1)" by force
  have "events w1 = events w" using events_quiet(3) [of api w] n by simp
  then have e1: "extends_on (cbv_data buffer) base w1" using assms(2) by (simp add: st extends_on_def)
  show ?thesis
  proof (cases "deadline \<le> now")
    case True
    then show ?thesis using assms(3) n e1 by (auto simp: st st' put_attempt_def)
  next
    case False
    then have p: "PutOnce api opts meta chunk rq buffer (out, mgr, w1) = (ok, out', mgr', w')"
      using assms(3) n by (simp add: st st' put_attempt_def)
    have "rpc_ok meta" "rpc_ok chunk" "gm_client mgr"
      using assms(1) by (simp_all add: attempt_inv_def st mm_holds_def)
    then obtain es i where "events w' = events w1 @ es" "attempt_trace (cbv_data buffer) i ok es"
      using PutOnce_trace [OF p] by metis
    then show ?thesis using extends_on_append [OF e1] attempt_trace_on st' by (metis snd_conv)
  qed
qed

interpretation put_touches: retried_attempt
  "put_attempt api opts meta chunk rq buffer deadline" "put_jitter api" "put_sleep api"
  "\<lambda>st. attempt_inv meta chunk ts st \<and> extends_on (cbv_data buffer) base (snd (snd st))"
  "\<lambda>st. True"
  for api :: "'s client_api" and opts meta chunk rq buffer deadline ts base
proof (unfold_locales, goal_cases)
  case (1 st ok st')
  then show ?case using put_attempt_inv(1) put_attempt_on by metis
next
  case (2 st m st')
  then show ?case
    using put_retry.jitter_inv [OF conjunct1 [OF 2(1)] 2(2)] put_jitter_quiet [OF 2(2)]
    by (simp add: extends_on_def)
next
  case (3 st ms)
  obtain out mgr w where st: "st = (out, mgr, w)" by (metis prod.collapse)
  have "extends_on (cbv_data buffer) base (w_sleep api ms w)"
    using 3 by (auto simp: st intro!: extends_on_append [OF _ events_sleep])
  then show ?case using 3 put_retry.sleep_inv by (auto simp: st put_sleep_def)
qed

lemma PutObject_on:
  assumes "client_inv (c, static, w)"
    and "PutObject api c rq buffer out (static, w) = Some (ok, out', static', w')"
  shows "extends_on (cbv_data buffer) (events w) w'"
proof (cases "cl_initialized c \<and>
    \<not> (put_single_max_bytes (cl_options c) \<noteq> 0 \<and> put_single_max_bytes (cl_options c) < cbv_size buffer)")
  case False
  then show ?thesis using assms(2) by (auto simp: PutObject_def Let_def split: if_splits)
next
  case True
  obtain now w1 where n: "w_now api w = (now, w1)" by force
  then have e1: "events w1 = events w" using events_quiet(3) [of api w] by simp
  obtain meta chunk mgr where r: "client_parts c static = Some (meta, chunk, mgr)"
      "attempt_inv meta chunk [] (out, mgr, w)"
    using client_ready assms(1) True by metis
  have i1: "attempt_inv meta chunk [] (out, mgr, w1)"
    using attempt_inv_neutral [OF r(2), of w1 "[]"] e1 by simp
  define fn where "fn = put_attempt api (cl_options c) meta chunk rq buffer
     (now + request_timeout (cl_options c) * 1000000)"
  obtain ok1 out1 mgr1 w2 where l: "RetryIfRetryable default_policy (put_jitter api) (put_sleep api) fn
      (out, mgr, w1) = (ok1, out1, mgr1, w2)" by (metis prod.collapse)
  have "extends_on (cbv_data buffer) (events w) w2"
    using put_touches.retry_inv [OF _ l [unfolded fn_def]] i1 e1 by auto
  moreover have "w' = w2"
    using assms(2) True n r l by (auto simp: PutObject_def Let_def fn_def)
  ultimately show ?thesis by simp
qed

section \<open>The books of device memory\<close>

text \<open>
  The addresses of device memory in use, those registered with the RDMA library, and those that
  were freed while the library had them registered. Freeing an address that is not in use, or
  deregistering one that is not registered, is \<open>None\<close>; an address whose deregistration failed
  stays registered.
\<close>

type_synonym device_account = "u64 multiset \<times> u64 multiset \<times> u64 multiset"

fun dev_step :: "client_event \<Rightarrow> device_account \<Rightarrow> device_account option" where
  "dev_step (EvDevAlloc p) (as, rs, bad) = Some (add_mset p as, rs, bad)"
| "dev_step (EvDevFree p) (as, rs, bad) =
     (if p \<in># as then Some (as - {#p#}, rs, if p \<in># rs then add_mset p bad else bad) else None)"
| "dev_step (EvRegistered p n) (as, rs, bad) = Some (as, add_mset p rs, bad)"
| "dev_step (EvUnregistered p ok) (as, rs, bad) =
     (if p \<in># rs then Some (as, if ok then rs - {#p#} else rs, bad) else None)"
| "dev_step e b = Some b"

definition dev_books :: "client_event list \<Rightarrow> device_account option" where
  "dev_books es = fold (\<lambda>e b. Option.bind b (dev_step e)) es (Some ({#}, {#}, {#}))"

lemma dev_books_Nil [simp]: "dev_books [] = Some ({#}, {#}, {#})"
  by (simp add: dev_books_def)

lemma dev_books_snoc [simp]: "dev_books (es @ [e]) = Option.bind (dev_books es) (dev_step e)"
  by (simp add: dev_books_def)

text \<open>The second part is what the library has registered.\<close>

lemma dev_books_library: "dev_books es = Some (as, rs, bad) \<Longrightarrow> rs = library_regs es"
proof (induction es arbitrary: as rs bad rule: rev_induct)
  case (snoc e es)
  obtain as0 rs0 bad0 where d: "dev_books es = Some (as0, rs0, bad0)"
    using snoc.prems by (cases "dev_books es") auto
  show ?case using snoc.IH [OF d] snoc.prems d by (cases e) (auto split: if_splits)
qed simp

lemma dev_books_registered:
  "dev_books es = Some (as, rs, bad) \<Longrightarrow> books es = Some (ds, ts) \<Longrightarrow> rs = ds + stuck es"
  using dev_books_library library_books by metis

text \<open>Work on one buffer leaves the allocations as they are and registers nothing else.\<close>

lemma dev_books_on:
  "dev_books base = Some (as, rs, bad) \<Longrightarrow> list_all (on_buffer p) es \<Longrightarrow>
   \<exists>rs'. dev_books (base @ es) = Some (as, rs', bad) \<and> set_mset rs' \<subseteq> insert p (set_mset rs) \<and>
     stuck (base @ es) = stuck base"
proof (induction es arbitrary: base rs)
  case (Cons e es)
  have "\<exists>rs1. dev_books (base @ [e]) = Some (as, rs1, bad) \<and> set_mset rs1 \<subseteq> insert p (set_mset rs) \<and>
      stuck (base @ [e]) = stuck base"
    using Cons.prems by (cases e) auto
  then show ?case using Cons.IH [of "base @ [e]"] Cons.prems(2) by fastforce
qed auto

section \<open>Unregistering and the end of the process\<close>

lemma UnregisterBuffer_events:
  "UnregisterBuffer api p (mgr, w) = (ok, mgr', w') \<Longrightarrow>
   events w' = events w @
     (if p \<noteq> 0 \<and> map_of (gm_registered mgr) p \<noteq> None then [EvUnregistered p ok] else [])"
  using events_put_descriptor [of api p w]
  by (auto simp: UnregisterBuffer_def Let_def split: if_splits prod.splits)

lemma UnregisterBuffer_table:
  "UnregisterBuffer api p (mgr, w) = (ok, mgr', w') \<Longrightarrow> p \<noteq> 0 \<Longrightarrow>
   fst ` set (gm_registered mgr') = fst ` set (gm_registered mgr) - {p}"
  by (force simp: UnregisterBuffer_def Let_def map_of_None_fst split: if_splits prod.splits)

text \<open>
  Where the library has registered nothing but the buffer, \<open>UnregisterDeviceBuffer\<close> leaves the
  client nothing to do, and the buffer registered exactly when the library refused.
\<close>

definition device_left :: "u64 \<Rightarrow> 's world \<Rightarrow> bool" where
  "device_left p w \<longleftrightarrow> dev_books (events w) = Some ({#p#}, stuck (events w), {#}) \<and>
     stuck (events w) \<subseteq># {#p#} \<and> books (events w) = Some ({#}, {#})"

lemma Unregister_device:
  assumes inv: "client_inv (c, static, w)" and p: "p \<noteq> 0" and init: "cl_initialized c"
    and dev: "dev_books (events w) = Some ({#p#}, rs, {#})" "set_mset rs \<subseteq> {p}" "stuck (events w) = {#}"
  obtains ok static' w' where
    "UnregisterDeviceBuffer api c p (static, w) = Some (ok, static', w')"
    "client_inv (c, static', w')" "device_left p w'" "ok \<longleftrightarrow> stuck (events w') = {#}"
proof -
  obtain meta chunk mgr where r: "client_parts c static = Some (meta, chunk, mgr)" "rpc_ok meta"
      "rpc_ok chunk" "gm_connected mgr" "mm_holds [] (mgr, w)"
    using client_ready inv init by metis
  obtain ok mgr' w' where b: "UnregisterBuffer api p (mgr, w) = (ok, mgr', w')" by (metis prod.collapse)
  have u: "UnregisterDeviceBuffer api c p (static, w) = Some (ok, Some mgr', w')"
    using init r(1) b by (simp add: UnregisterDeviceBuffer_def)
  have m: "mm_holds [] (mgr', w')" using Unregister_holds [OF r(5) b] .
  have bk: "books (events w) = Some (mset (map fst (gm_registered mgr)), {#})"
    "books (events w') = Some (mset (map fst (gm_registered mgr')), {#})"
    using r(5) m by (simp_all add: mm_holds_def)
  have rs: "rs = mset (map fst (gm_registered mgr))"
    using dev_books_registered [OF dev(1) bk(1)] dev(3) by simp
  then have "fst ` set (gm_registered mgr') = {}" using UnregisterBuffer_table [OF b p] dev(2) by auto
  then have "gm_registered mgr' = []" by simp
  then have clean: "books (events w') = Some ({#}, {#})" using bk(2) by simp
  note e = UnregisterBuffer_events [OF b]
  have "\<exists>rs'. dev_books (events w') = Some ({#p#}, rs', {#})"
    using e dev(1) rs by (auto simp: map_of_None_fst)
  then obtain rs' where d': "dev_books (events w') = Some ({#p#}, rs', {#})" by blast
  have "rs' = stuck (events w')" using dev_books_registered [OF d' clean] by simp
  moreover have "stuck (events w') \<subseteq># {#p#}" using e dev(3) by simp
  moreover have "ok \<longleftrightarrow> stuck (events w') = {#}"
    using e dev(3) b p by (cases "map_of (gm_registered mgr) p") (auto simp: UnregisterBuffer_def)
  moreover have "client_inv (c, Some mgr', w')"
    using client_back [OF r(1-3)] UnregisterBuffer_connected [OF b] r(4) m by simp
  ultimately show ?thesis using that u d' clean by (simp add: device_left_def)
qed

lemma Register_device:
  assumes inv: "client_inv (c, static, w)" and init: "cl_initialized c"
    and "RegisterDeviceBuffer api c p n (static, w) = Some (ok, static', w')"
  shows "client_inv (c, static', w') \<and> extends_on p (events w) w' \<and> (ok \<longrightarrow> p \<noteq> 0) \<and>
    (\<not> ok \<longrightarrow> events w' = events w)"
proof -
  obtain meta chunk mgr where r: "client_parts c static = Some (meta, chunk, mgr)"
    using client_ready inv init by metis
  obtain ok1 mgr1 w1 where b: "RegisterBuffer api p n (mgr, w) = (ok1, mgr1, w1)" by (metis prod.collapse)
  then have "events w1 = events w \<and> (ok1 \<longrightarrow> p \<noteq> 0) \<or> ok1 \<and> p \<noteq> 0 \<and> events w1 = events w @ [EvRegistered p n]"
    using events_descriptor [of api p n w]
    by (auto simp: RegisterBuffer_def RegisterBufferUnderLock_def split: if_splits prod.splits)
  moreover have "ok = ok1" "w' = w1"
    using assms(3) init r b by (auto simp: RegisterDeviceBuffer_def)
  moreover have "client_inv (c, static', w')"
    using RegisterDeviceBuffer_inv [OF inv, of api p n] assms(3) by auto
  ultimately show ?thesis
    using extends_on_refl [of w "events w" p] extends_on_append [of p "events w" w w1 "[EvRegistered p n]"]
    by auto
qed

text \<open>A program that puts its buffer and then unregisters it.\<close>

lemma put_then_unregister:
  assumes inv: "client_inv (c, static, w)" and "cl_initialized c" and "p \<noteq> 0"
    and dev: "dev_books (events w) = Some ({#p#}, rs, {#})" "set_mset rs \<subseteq> {p}" "stuck (events w) = {#}"
  obtains ok out' static1 w1 b static2 w2 where
    "PutObject api c rq \<lparr>cbv_data = p, cbv_size = n\<rparr> out (static, w) = Some (ok, out', static1, w1)"
    "ok \<longrightarrow> to_bytes_transferred out' = n"
    "UnregisterDeviceBuffer api c p (static1, w1) = Some (b, static2, w2)"
    "client_inv (c, static2, w2)" "device_left p w2"
proof -
  obtain ok out' static1 w1 where put: "PutObject api c rq \<lparr>cbv_data = p, cbv_size = n\<rparr> out (static, w) =
      Some (ok, out', static1, w1)" "client_inv (c, static1, w1)"
      "ok \<longrightarrow> put_checked api (cl_options c) \<lparr>cbv_data = p, cbv_size = n\<rparr> out'"
    using PutObject_inv [OF inv] by metis
  have "extends_on p (events w) w1" using PutObject_on [OF inv put(1)] by simp
  then obtain rs1 where d: "dev_books (events w1) = Some ({#p#}, rs1, {#})" "set_mset rs1 \<subseteq> {p}"
      "stuck (events w1) = {#}"
    using dev_books_on [OF dev(1)] dev(2,3) unfolding extends_on_def by fastforce
  obtain b static2 w2 where "UnregisterDeviceBuffer api c p (static1, w1) = Some (b, static2, w2)"
      "client_inv (c, static2, w2)" "device_left p w2"
    using Unregister_device [OF put(2) assms(3,2) d] by metis
  then show ?thesis using that [OF put(1)] put(3) by (simp add: put_checked_def)
qed

text \<open>At the end of the process the static manager, if there is one, is destroyed.\<close>

definition at_exit :: "'s client_api \<Rightarrow> GdsMemoryManager option \<Rightarrow> 's world \<Rightarrow> 's world" where
  "at_exit api static w =
     (case static of None \<Rightarrow> w | Some mgr \<Rightarrow> end_GdsMemoryManager api (mgr, w))"

text \<open>
  The end of a program that has nothing left to deregister: it frees its buffer, once, and the
  manager's destructor does nothing. The buffer is freed while registered, and stays registered,
  exactly when its deregistration had failed.
\<close>

lemma free_and_exit:
  assumes "static_inv (static, w)" and "device_left p w"
  shows "let es = events (at_exit api static (w_dev_free api p w))
         in dev_books es = Some ({#}, stuck es, stuck es) \<and> stuck es = stuck (events w)"
proof -
  have "at_exit api static (w_dev_free api p w) = w_dev_free api p w"
    using assms by (auto simp: at_exit_def end_GdsMemoryManager_def static_inv_def mm_holds_def device_left_def
        split: option.splits if_splits)
  moreover have "stuck (events w) = {#} \<or> stuck (events w) = {#p#}"
    using assms(2) by (auto simp: device_left_def mset_subset_eq_exists_conv single_is_union)
  ultimately show ?thesis using assms(2) by (auto simp: device_left_def client_simps)
qed

end
