(* ===== verification/Put_Example.thy ===== *)
theory Put_Example
  imports Client_Device
begin

text \<open>
  The example program \<open>examples/gds/gds_put_example.cpp\<close>: one upload of 100 MiB of device
  memory from start to exit, with every early return. The lemma follows the device buffer: on
  every path it is freed exactly once, after its deregistration was asked for; the program does
  not look at the answer, so the buffer is freed while registered when that failed.
\<close>

section \<open>The program\<close>

definition proxy_addr :: string where
  "proxy_addr = ''192.168.1.198:9100''"

definition backend_addr :: string where
  "backend_addr = ''192.168.1.198:9200''"

definition example_bytes :: u64 where
  "example_bytes = 100 * 1024 * 1024"

definition host_pattern :: "u64 \<Rightarrow> u8 list" where
  "host_pattern n = map (\<lambda>i. word_of_nat (i mod 251)) [0..<unat n]"

definition unset_outcome :: TransferOutcome where
  "unset_outcome = \<lparr>to_bytes_transferred = 0, to_request_id = [], to_session_id = [], to_etag = [],
     to_crc32c = 0\<rparr>"

definition example_options :: ClientOptions where
  "example_options = default_options\<lparr>endpoint := proxy_addr, gds_data_endpoint := backend_addr\<rparr>"

definition example_request :: PutObjectRequest where
  "example_request = set_expected_size example_bytes
     (set_key ''obj1'' (set_bucket ''test-bucket'' default_put_request))"

text \<open>
  \<open>main\<close>: the exit code, the outcome it prints, and the world after the static manager was
  destroyed; \<open>None\<close> is a null dereference inside a client method.
\<close>

definition put_example_main :: "'s client_api \<Rightarrow> 's \<Rightarrow> (int \<times> TransferOutcome \<times> 's world) option" where
  "put_example_main api s =
     (let ((e, dev), w1) = w_malloc api example_bytes \<lparr>env = s, events = []\<rparr>
      in if e \<noteq> cudaSuccess then Some (1, unset_outcome, w1)
         else
           (let (e2, w2) = w_upload api dev (host_pattern example_bytes) w1
            in if e2 \<noteq> cudaSuccess then Some (1, unset_outcome, w_dev_free api dev w2)
               else
                 (let (ok, c, static, w3) = Client_Initialize api (new_Client example_options) (None, w2)
                  in if \<not> ok then Some (1, unset_outcome, at_exit api static (w_dev_free api dev w3))
                     else
                       (case RegisterDeviceBuffer api c dev example_bytes (static, w3) of
                          None \<Rightarrow> None
                        | Some (registered, static, w4) \<Rightarrow>
                            if \<not> registered
                            then Some (1, unset_outcome, at_exit api static (w_dev_free api dev w4))
                            else
                              (case PutObject api c example_request
                                  \<lparr>cbv_data = dev, cbv_size = example_bytes\<rparr> unset_outcome (static, w4) of
                                 None \<Rightarrow> None
                               | Some (put_ok, out, static, w5) \<Rightarrow>
                                   (case UnregisterDeviceBuffer api c dev (static, w5) of
                                      None \<Rightarrow> None
                                    | Some (_, static, w6) \<Rightarrow>
                                        Some (if put_ok then 0 else 1, out,
                                          at_exit api static (w_dev_free api dev w6))))))))"

section \<open>The device buffer on every path\<close>

lemma quiet_device:
  assumes "client_inv (c, static, w)" "events w' = events w"
  shows "client_inv (c, static, w')"
  using assms static_inv_books by (auto simp: client_inv_def)

lemma Initialize_events:
  "Client_Initialize api c (None, w) = (ok, c', static', w') \<Longrightarrow> events w' = events w"
  using events_quiet(5) [of api w]
  by (auto simp: Client_Initialize_def Instance_def new_GdsMemoryManager_def Let_def
      split: if_splits prod.splits)

text \<open>
  What the program leaves: all device memory freed, once; the memory freed while the library had
  it registered, and the memory still registered, is the one whose deregistration failed.
\<close>

definition device_end :: "'s world \<Rightarrow> bool" where
  "device_end w \<longleftrightarrow> dev_books (events w) = Some ({#}, stuck (events w), stuck (events w))"

lemma nothing_registered:
  assumes "client_inv (c, static, w)" and "dev_books (events w) = Some ({#dev#}, {#}, {#})"
  shows "device_end (at_exit api static (w_dev_free api dev w))"
proof -
  obtain ds ts where b: "books (events w) = Some (ds, ts)" "ts = {#}"
    using assms(1) by (auto simp: client_inv_def static_inv_def mm_holds_def split: option.splits if_splits)
  then have "ds = {#}" "stuck (events w) = {#}" using dev_books_registered [OF assms(2) b(1)] by simp_all
  then have "device_left dev w" using assms(2) b by (simp add: device_left_def)
  then show ?thesis
    using free_and_exit [of static w dev api] assms(1) by (auto simp: Let_def device_end_def client_inv_def)
qed

text \<open>What remains to be done once the buffer is registered.\<close>

lemma registered_outcome:
  assumes inv: "client_inv (c, static, w)" and "cl_initialized c" "dev \<noteq> 0"
    and d: "dev_books (events w) = Some ({#dev#}, rs, {#})" "set_mset rs \<subseteq> {dev}" "stuck (events w) = {#}"
  obtains put_ok out static1 w1 b static2 w2 where
    "PutObject api c example_request \<lparr>cbv_data = dev, cbv_size = example_bytes\<rparr> unset_outcome (static, w) =
       Some (put_ok, out, static1, w1)" "put_ok \<longrightarrow> to_bytes_transferred out = example_bytes"
    "UnregisterDeviceBuffer api c dev (static1, w1) = Some (b, static2, w2)"
    "device_end (at_exit api static2 (w_dev_free api dev w2))"
proof -
  obtain put_ok out static1 w1 b static2 w2 where p:
    "PutObject api c example_request \<lparr>cbv_data = dev, cbv_size = example_bytes\<rparr> unset_outcome (static, w) =
       Some (put_ok, out, static1, w1)" "put_ok \<longrightarrow> to_bytes_transferred out = example_bytes"
    "UnregisterDeviceBuffer api c dev (static1, w1) = Some (b, static2, w2)"
    "client_inv (c, static2, w2)" "device_left dev w2"
    using put_then_unregister [OF assms] .
  then have "device_end (at_exit api static2 (w_dev_free api dev w2))"
    using free_and_exit [of static2 w2 dev api] by (auto simp: Let_def device_end_def client_inv_def)
  then show ?thesis using that p(1-3) by blast
qed

text \<open>The program from the point where the client is initialized.\<close>

lemma initialized_outcome:
  assumes m: "w_malloc api example_bytes \<lparr>env = s, events = []\<rparr> = ((cudaSuccess, dev), w1)"
    and u: "w_upload api dev (host_pattern example_bytes) w1 = (cudaSuccess, w2)"
    and i: "Client_Initialize api (new_Client example_options) (None, w2) = (True, c, static, w3)"
    and inv: "client_inv (c, static, w3)" "cl_initialized c"
    and d: "dev_books (events w3) = Some ({#dev#}, {#}, {#})" "stuck (events w3) = {#}"
  obtains code out w where "put_example_main api s = Some (code, out, w)"
    "device_end w" "code = 0 \<or> code = 1"
    "code = 0 \<longrightarrow> to_bytes_transferred out = example_bytes"
proof -
  obtain reg static4 w4 where r: "RegisterDeviceBuffer api c dev example_bytes (static, w3) = Some (reg, static4, w4)"
      "client_inv (c, static4, w4)" using RegisterDeviceBuffer_inv [OF inv(1)] .
  note dev = Register_device [OF inv r(1)]
  show ?thesis
  proof (cases reg)
    case False
    then have "put_example_main api s = Some (1, unset_outcome, at_exit api static4 (w_dev_free api dev w4))"
      using m u i r(1) by (simp add: put_example_main_def)
    then show ?thesis using that [of 1] nothing_registered [OF r(2)] d dev False by simp
  next
    case True
    obtain rs where d4: "dev_books (events w4) = Some ({#dev#}, rs, {#})" "set_mset rs \<subseteq> {dev}"
        "stuck (events w4) = {#}"
      using dev dev_books_on [OF d(1)] d(2) unfolding extends_on_def by fastforce
    have nz: "dev \<noteq> 0" using dev True by simp
    obtain put_ok out static5 w5 b static6 w6 where p: "PutObject api c example_request
        \<lparr>cbv_data = dev, cbv_size = example_bytes\<rparr> unset_outcome (static4, w4) = Some (put_ok, out, static5, w5)"
        "put_ok \<longrightarrow> to_bytes_transferred out = example_bytes"
        "UnregisterDeviceBuffer api c dev (static5, w5) = Some (b, static6, w6)"
        "device_end (at_exit api static6 (w_dev_free api dev w6))"
      using registered_outcome [OF r(2) inv(2) nz d4] .
    then have "put_example_main api s = Some (if put_ok then 0 else 1, out,
        at_exit api static6 (w_dev_free api dev w6))"
      using m u i r(1) True by (simp add: put_example_main_def)
    then show ?thesis using that [of "if put_ok then 0 else 1" out] p(2,4) by auto
  qed
qed

lemma put_example_outcome:
  obtains code out w where "put_example_main api s = Some (code, out, w)"
    "device_end w" "code = 0 \<or> code = 1"
    "code = 0 \<longrightarrow> to_bytes_transferred out = example_bytes"
proof -
  obtain e dev w1 where m: "w_malloc api example_bytes \<lparr>env = s, events = []\<rparr> = ((e, dev), w1)"
    by (metis prod.collapse)
  have e1: "events w1 = (if e = cudaSuccess then [EvDevAlloc dev] else [])"
    using events_malloc [of api example_bytes "\<lparr>env = s, events = []\<rparr>"] m by simp
  obtain e2 w2 where u: "w_upload api dev (host_pattern example_bytes) w1 = (e2, w2)" by force
  obtain ok c static w3 where i: "Client_Initialize api (new_Client example_options) (None, w2) =
      (ok, c, static, w3)" by (metis prod.collapse)
  show ?thesis
  proof (cases "e = cudaSuccess")
    case False
    then show ?thesis using that [of 1 unset_outcome w1] m e1 by (simp add: put_example_main_def device_end_def)
  next
    case alloc: True
    have e2: "events w2 = [EvDevAlloc dev]" using u events_quiet(6) [of api dev _ w1] e1 alloc by (metis snd_conv)
    have new: "client_inv (new_Client example_options, None, w2)"
      by (simp add: client_inv_def client_ok_def static_inv_def new_Client_def e2 books_def)
    have d2: "dev_books (events w2) = Some ({#dev#}, {#}, {#})" "stuck (events w2) = {#}"
      by (simp_all add: e2 dev_books_def stuck_def)
    have inv3: "client_inv (c, static, w3)" "ok \<longrightarrow> cl_initialized c" using Initialize_inv [OF new i] by auto
    have d3: "dev_books (events w3) = Some ({#dev#}, {#}, {#})" "stuck (events w3) = {#}"
      using d2 Initialize_events [OF i] by simp_all
    show ?thesis
    proof (cases "e2 = cudaSuccess \<and> ok")
      case True
      then show ?thesis
        using initialized_outcome [OF m [unfolded alloc] _ _ inv3(1) _ d3] u i inv3(2) that by metis
    next
      case False
      then have "put_example_main api s = Some (1, unset_outcome, if e2 = cudaSuccess
          then at_exit api static (w_dev_free api dev w3) else at_exit api None (w_dev_free api dev w2))"
        using m u alloc i by (simp add: put_example_main_def at_exit_def)
      then show ?thesis
        using that [of 1] nothing_registered [OF new d2(1)] nothing_registered [OF inv3(1) d3(1)] by (auto split: if_splits)
    qed
  qed
qed

end
