(* ===== verification/Programs.thy ===== *)
theory Programs
  imports Data_Plane_Service Proxy_Service Put_Example
begin

text \<open>
  The two server programs (\<open>backend/src/main.cpp\<close>, \<open>proxy/src/main.cpp\<close>): their flags with
  the default values, the order in which they set up and tear down what they own, and their
  exit codes. The RPC server is a parameter, the results of \<open>AddService\<close> and \<open>Start\<close>; the
  requests it delivers until a signal arrives are a list.
\<close>

section \<open>Flags\<close>

record backend_flags =
  bf_brpc_port :: int
  bf_rdma_port :: int
  bf_bind_host :: string
  bf_public_host :: string
  bf_num_threads :: int
  bf_backend_id :: string
  bf_proxy_endpoint :: string
  bf_compute_crc32c :: bool

definition default_backend_flags :: backend_flags where
  "default_backend_flags =
     \<lparr>bf_brpc_port = 9200, bf_rdma_port = 18516, bf_bind_host = ''192.168.1.198'',
      bf_public_host = ''192.168.1.198'', bf_num_threads = 4, bf_backend_id = ''backend-0'',
      bf_proxy_endpoint = ''192.168.1.198:9100'', bf_compute_crc32c = True\<rparr>"

record proxy_flags =
  pf_proxy_port :: int
  pf_bind_host :: string
  pf_num_threads :: int
  pf_session_ttl_sec :: int
  pf_gateway_id :: string
  pf_backend_endpoint :: string

definition default_proxy_flags :: proxy_flags where
  "default_proxy_flags =
     \<lparr>pf_proxy_port = 9100, pf_bind_host = ''192.168.1.198'', pf_num_threads = 4,
      pf_session_ttl_sec = 300, pf_gateway_id = ''proxy-0'',
      pf_backend_endpoint = ''192.168.1.198:9200''\<rparr>"

definition backend_endpoint_of :: "backend_flags \<Rightarrow> string" where
  "backend_endpoint_of f = bf_bind_host f @ '':'' @ int_to_string (bf_brpc_port f)"

definition proxy_endpoint_of :: "proxy_flags \<Rightarrow> string" where
  "proxy_endpoint_of f = pf_bind_host f @ '':'' @ int_to_string (pf_proxy_port f)"

section \<open>The programs\<close>

text \<open>The library's server: the result of \<open>AddService\<close>, and of \<open>Start\<close> for an endpoint and a
  number of threads.\<close>

record rpc_server =
  rs_add_service :: int
  rs_start :: "string \<Rightarrow> int \<Rightarrow> int"

text \<open>
  The sink is destroyed when \<open>main\<close> returns, on every path; its destructor stops it, which does
  nothing when it was stopped before.
\<close>

definition backend_main ::
  "'s cuobj_api \<Rightarrow> (string \<Rightarrow> int \<Rightarrow> int) \<Rightarrow> 'p notify_proxy \<Rightarrow> rpc_server \<Rightarrow> backend_flags \<Rightarrow>
   GdsChunkRequest list \<Rightarrow> 's server \<Rightarrow> 'p \<Rightarrow> int \<times> (BackendGdsSink \<times> 's server) \<times> 'p" where
  "backend_main api chan_init notify srv f requests w p =
     (let (ok, st) = Sink_Start api (new_sink (bf_bind_host f) (bf_rdma_port f) (bf_compute_crc32c f), w)
      in if \<not> ok then (1, Sink_Stop api st, p)
         else
           (let svc = new_BackendDataPlaneService chan_init (bf_backend_id f) (bf_proxy_endpoint f)
            in if rs_add_service srv \<noteq> 0 then (1, Sink_Stop api st, p)
               else if rs_start srv (c_str (backend_endpoint_of f)) (bf_num_threads f) \<noteq> 0
               then (1, Sink_Stop api st, p)
               else
                 (let (st1, p1) = backend_serve api notify svc requests (st, p);
                      st2 = Sink_Stop api st1
                  in (0, Sink_Stop api st2, p1))))"

definition proxy_main ::
  "rpc_server \<Rightarrow> proxy_flags \<Rightarrow> (int \<times> proxy_call) list \<Rightarrow> int \<times> SessionManager" where
  "proxy_main srv f calls =
     (let session_mgr = new_SessionManager (pf_session_ttl_sec f);
          svc = \<lparr>ps_gateway_id = pf_gateway_id f, ps_backend_endpoint = pf_backend_endpoint f\<rparr>
      in if rs_add_service srv \<noteq> 0 then (1, session_mgr)
         else if rs_start srv (c_str (proxy_endpoint_of f)) (pf_num_threads f) \<noteq> 0
         then (1, session_mgr)
         else (0, proxy_run svc calls session_mgr))"

section \<open>Tear-down\<close>

text \<open>A stopped sink holds nothing, so that stopping it again does nothing.\<close>

lemma Sink_Stop_stopped:
  "sink_pool (fst st) = None \<Longrightarrow> \<not> server_up (fst st) \<Longrightarrow> Sink_Stop api st = st"
  by (cases st) (simp add: Sink_Stop_def)

lemma Sink_Stop_twice: "Sink_Stop api (Sink_Stop api st) = Sink_Stop api st"
  by (rule Sink_Stop_stopped) (simp_all add: Sink_Stop_def case_prod_unfold Let_def)

lemma Start_failed:
  assumes "Sink_Start api (new_sink host port crc, w) = (False, st)"
    and "ledger_of (srv_calls w) = Some empty_ledger"
  shows "ledger_of (srv_calls (snd (Sink_Stop api st))) = Some empty_ledger"
proof -
  have "sink_pool (fst st) = None" "\<not> server_up (fst st)"
    using assms(1) by (auto simp: Sink_Start_def Let_def new_sink_def split: if_splits)
  then have "Sink_Stop api st = st" by (rule Sink_Stop_stopped)
  then show ?thesis
    using assms by (auto simp: Sink_Start_def Let_def srv_create_def srv_destroy_def pool_simps
        empty_ledger_def split: if_splits)
qed

lemma serve_stop_clean:
  "sink_ready st \<Longrightarrow>
   ledger_of (srv_calls (snd (Sink_Stop api (fst (backend_serve api notify svc qs (st, p)))))) =
     Some empty_ledger"
  using backend_serve_ready [of "(st, p)" api notify svc qs] by (intro Stop_clean) simp

end
