(* ===== verification/Bench_Args.thy ===== *)
theory Bench_Args
  imports Double_Round
begin

text \<open>
  The command line and the number formatting of the benchmark
  (\<open>examples/gds/gds_bench_example.cpp\<close>): sizes with a unit suffix, counts, the option loop,
  \<open>HumanBytes\<close> and \<open>Percentile\<close>. The lemmas say which texts the parsers accept and with which
  value, wrap-around included.
\<close>

section \<open>Numbers\<close>

definition is_digit :: "char \<Rightarrow> bool" where
  "is_digit c = (let k = of_char c :: nat in 48 \<le> k \<and> k \<le> 57)"

definition digit_word :: "char \<Rightarrow> u64" where
  "digit_word c = word_of_nat (of_char c - 48)"

definition to_lower :: "char \<Rightarrow> char" where
  "to_lower c = (let k = of_char c :: nat in if 65 \<le> k \<and> k \<le> 90 then char_of (k + 32) else c)"

text \<open>The digit loop of \<open>ParseSize\<close>: the value and the rest of the text.\<close>

fun leading_number :: "u64 \<Rightarrow> string \<Rightarrow> u64 \<times> string" where
  "leading_number num [] = (num, [])"
| "leading_number num (c # s) =
     (if is_digit c then leading_number (num * 10 + digit_word c) s else (num, c # s))"

text \<open>The unit suffix, \<open>None\<close> for a character that is none.\<close>

definition size_unit :: "char \<Rightarrow> u64 option" where
  "size_unit c =
     (let l = to_lower c in
      if l = CHR ''b'' then Some 1
      else if l = CHR ''k'' then Some 1024
      else if l = CHR ''m'' then Some (1024 * 1024)
      else if l = CHR ''g'' then Some (1024 * 1024 * 1024)
      else None)"

text \<open>The result and the output parameter, which a failure leaves as it was.\<close>

definition ParseSize :: "string \<Rightarrow> u64 \<Rightarrow> bool \<times> u64" where
  "ParseSize s out =
     (if s = [] then (False, out)
      else
        let (num, rest) = leading_number 0 s
        in if length rest = length s then (False, out)
           else
             (case rest of
                [] \<Rightarrow> (True, num * 1)
              | [c] \<Rightarrow> (case size_unit c of None \<Rightarrow> (False, out) | Some mul \<Rightarrow> (True, num * mul))
              | _ \<Rightarrow> (False, out)))"

fun uint_loop :: "u64 \<Rightarrow> string \<Rightarrow> u64 option" where
  "uint_loop v [] = Some v"
| "uint_loop v (c # s) = (if \<not> is_digit c then None else uint_loop (v * 10 + digit_word c) s)"

definition ParseUint :: "string \<Rightarrow> u64 \<Rightarrow> bool \<times> u64" where
  "ParseUint s out =
     (if s = [] then (False, out)
      else case uint_loop 0 s of None \<Rightarrow> (False, out) | Some v \<Rightarrow> (True, v))"

section \<open>Options\<close>

record Args =
  ba_proxy :: string
  ba_backend :: string
  ba_size :: u64
  ba_count :: u64
  ba_concurrency :: u64
  ba_warmup :: u64
  ba_bucket :: string
  ba_key_prefix :: string
  ba_verify_crc32c :: bool
  ba_trace :: bool

definition default_args :: Args where
  "default_args =
     \<lparr>ba_proxy = ''192.168.1.198:9100'', ba_backend = ''192.168.1.198:9200'',
      ba_size = 100 * 1024 * 1024, ba_count = 10, ba_concurrency = 1, ba_warmup = 0,
      ba_bucket = ''test-bucket'', ba_key_prefix = ''obj'', ba_verify_crc32c = False, ba_trace = False\<rparr>"

text \<open>\<open>ParseArgs\<close> returns, or it leaves the process with code 0 after printing the usage.\<close>

datatype args_result = ArgsReturn bool Args | ArgsExit

definition takes_value :: "string \<Rightarrow> bool" where
  "takes_value arg \<longleftrightarrow> arg \<in> {''--proxy'', ''--backend'', ''--size'', ''--count'', ''--concurrency'',
     ''--warmup'', ''--bucket'', ''--key-prefix''}"

text \<open>What an option does with its value: success, and the changed arguments.\<close>

definition option_value :: "string \<Rightarrow> string \<Rightarrow> Args \<Rightarrow> bool \<times> Args" where
  "option_value arg val a =
     (if arg = ''--proxy'' then (True, a\<lparr>ba_proxy := val\<rparr>)
      else if arg = ''--backend'' then (True, a\<lparr>ba_backend := val\<rparr>)
      else if arg = ''--size'' then
        (let (ok, n) = ParseSize val (ba_size a) in (ok, a\<lparr>ba_size := n\<rparr>))
      else if arg = ''--count'' then
        (let (ok, n) = ParseUint val (ba_count a) in (ok, a\<lparr>ba_count := n\<rparr>))
      else if arg = ''--concurrency'' then
        (let (ok, n) = ParseUint val (ba_concurrency a) in (ok, a\<lparr>ba_concurrency := n\<rparr>))
      else if arg = ''--warmup'' then
        (let (ok, n) = ParseUint val (ba_warmup a) in (ok, a\<lparr>ba_warmup := n\<rparr>))
      else if arg = ''--bucket'' then (True, a\<lparr>ba_bucket := val\<rparr>)
      else (True, a\<lparr>ba_key_prefix := val\<rparr>))"

text \<open>The loop over the arguments after the program's name, and the check at its end.\<close>

fun args_loop :: "string list \<Rightarrow> Args \<Rightarrow> args_result" where
  "args_loop [] a =
     (if ba_size a = 0 \<or> ba_count a = 0 \<or> ba_concurrency a = 0 then ArgsReturn False a
      else ArgsReturn True a)"
| "args_loop (arg # rest) a =
     (if takes_value arg then
        (case rest of
           [] \<Rightarrow> ArgsReturn False a
         | val # rest' \<Rightarrow>
             (let (ok, a') = option_value arg val a
              in if ok then args_loop rest' a' else ArgsReturn False a'))
      else if arg = ''--verify-crc32c'' then args_loop rest (a\<lparr>ba_verify_crc32c := True\<rparr>)
      else if arg = ''--trace'' then args_loop rest (a\<lparr>ba_trace := True\<rparr>)
      else if arg = ''--help'' \<or> arg = ''-h'' then ArgsExit
      else ArgsReturn False a)"

definition ParseArgs :: "string list \<Rightarrow> Args \<Rightarrow> args_result" where
  "ParseArgs argv a = args_loop (tl argv) a"

section \<open>Formatting\<close>

text \<open>
  \<open>snprintf("%.2f")\<close> of the double nearest to \<open>b\<close>, divided by \<open>2 ^ k\<close>, which is exact: the
  decimal text is the exact binary value rounded to hundredths, ties to even.
\<close>

definition hundredths :: "nat \<Rightarrow> nat \<Rightarrow> nat" where
  "hundredths k b = half_even_div (round_double b * 100) (2 ^ k)"

definition fixed2 :: "nat \<Rightarrow> string" where
  "fixed2 h = to_string (h div 100) @ ''.'' @ [hex_digit (h mod 100 div 10), hex_digit (h mod 10)]"

definition HumanBytes :: "u64 \<Rightarrow> string" where
  "HumanBytes b =
     (if 1024 * 1024 * 1024 \<le> b then fixed2 (hundredths 30 (unat b)) @ '' GiB''
      else if 1024 * 1024 \<le> b then fixed2 (hundredths 20 (unat b)) @ '' MiB''
      else if 1024 \<le> b then fixed2 (hundredths 10 (unat b)) @ '' KiB''
      else to_string (unat b) @ '' B'')"

text \<open>
  \<open>p / 100.0\<close> for a whole number of percent from 50 to 100, in units of \<open>2 ^ -53\<close>; the product
  with the last index is rounded to a double again and its fraction is cut off. The program
  asks for 50, 95 and 99.
\<close>

definition percent_double :: "nat \<Rightarrow> nat" where
  "percent_double p = half_even_div (p * 2 ^ 53) 100"

definition Percentile :: "'a::zero list \<Rightarrow> nat \<Rightarrow> 'a" where
  "Percentile xs p =
     (if xs = [] then 0
      else
        let idx = round_double (percent_double p * (length xs - 1)) div 2 ^ 53;
            idx' = (if length xs \<le> idx then length xs - 1 else idx)
        in xs ! idx')"

section \<open>What the parsers accept\<close>

text \<open>The value of a text of digits, as a natural number.\<close>

definition digits_value :: "string \<Rightarrow> nat" where
  "digits_value s = fold (\<lambda>c n. n * 10 + (of_char c - 48)) s 0"

lemma fold_digits_from:
  "fold (\<lambda>c n. n * 10 + (of_char c - 48)) s k = k * 10 ^ length s + digits_value s"
proof (induction s rule: rev_induct)
  case (snoc c s)
  then show ?case by (simp add: digits_value_def algebra_simps)
qed (simp add: digits_value_def)

lemma leading_number_spec:
  "leading_number v s =
     (word_of_nat (fold (\<lambda>c n. n * 10 + (of_char c - 48)) (takeWhile is_digit s) (unat v)),
      dropWhile is_digit s)"
proof (induction s arbitrary: v)
  case (Cons c s)
  have "word_of_nat (fold (\<lambda>c n. n * 10 + (of_char c - 48)) xs (unat (v * 10 + digit_word c))) =
      (word_of_nat (fold (\<lambda>c n. n * 10 + (of_char c - 48)) xs (unat v * 10 + (of_char c - 48))) :: u64)"
    for xs unfolding fold_digits_from by (simp add: digit_word_def)
  then show ?case using Cons.IH by simp
qed simp

lemma uint_loop_spec:
  "uint_loop v s = (if list_all is_digit s
     then Some (word_of_nat (fold (\<lambda>c n. n * 10 + (of_char c - 48)) s (unat v))) else None)"
proof (induction s arbitrary: v)
  case (Cons c s)
  have "word_of_nat (fold (\<lambda>c n. n * 10 + (of_char c - 48)) xs (unat (v * 10 + digit_word c))) =
      (word_of_nat (fold (\<lambda>c n. n * 10 + (of_char c - 48)) xs (unat v * 10 + (of_char c - 48))) :: u64)"
    for xs unfolding fold_digits_from by (simp add: digit_word_def)
  then show ?case using Cons.IH by simp
qed simp

lemma ParseUint_spec:
  "ParseUint s out =
     (if s \<noteq> [] \<and> list_all is_digit s then (True, word_of_nat (digits_value s)) else (False, out))"
  by (simp add: ParseUint_def uint_loop_spec digits_value_def)

lemma hex_digit_decimal:
  "d < 10 \<Longrightarrow> is_digit (hex_digit d) \<and> of_char (hex_digit d) - 48 = d"
  by (auto simp: hex_digit_def is_digit_def of_char_of take_bit_eq_mod)

lemma to_string_digits:
  "list_all is_digit (to_string n) \<and> digits_value (to_string n) = n \<and> to_string n \<noteq> []"
proof (induction n rule: to_string.induct)
  case (1 n)
  show ?case
  proof (cases "n < 10")
    case True
    then show ?thesis
      using hex_digit_decimal [of n] by (simp add: to_string.simps [of n] digits_value_def)
  next
    case False
    then have "list_all is_digit (to_string (n div 10))" "digits_value (to_string (n div 10)) = n div 10"
      using 1 by auto
    then show ?thesis
      using False hex_digit_decimal [of "n mod 10"]
      by (simp add: to_string.simps [of n] digits_value_def)
  qed
qed

end
