(* ===== verification/Program_Properties.thy ===== *)
theory Program_Properties
  imports Programs Bench_Args Example_Server
begin

text \<open>
  The properties of the whole programs: the upload example and the two servers, from their start
  to their exit code, and how their default addresses fit together.
\<close>

section \<open>The upload example\<close>

text \<open>
  C27: whatever CUDA, the RDMA library and the network answer, the upload example ends without
  following a null pointer. It frees its device memory exactly once. The memory it frees while
  the RDMA library has it registered, and what is still registered when it exits, is exactly the
  memory whose deregistration failed, so neither happens unless the library refuses, which the
  program does not notice. Its exit code is 0 or 1, and with 0 all 100 MiB were reported as
  transferred.
\<close>

theorem put_example_clean:
  "case put_example_main api s of
     None \<Rightarrow> False
   | Some (code, out, w) \<Rightarrow>
       dev_books (events w) = Some ({#}, stuck (events w), stuck (events w)) \<and>
       (if code = 0 then to_bytes_transferred out = 104857600 else code = 1)"
proof -
  obtain code out w where "put_example_main api s = Some (code, out, w)"
      "device_end w" "code = 0 \<or> code = 1"
      "code = 0 \<longrightarrow> to_bytes_transferred out = example_bytes"
    using put_example_outcome .
  then show ?thesis by (auto simp: example_bytes_def device_end_def)
qed

section \<open>The backend program\<close>

text \<open>
  C26: however the backend program ends, every host buffer, registration and channel was freed
  exactly once. Its exit code is 0 just when the sink, the service and the server started; when
  it is not 0, no request was served and the proxy was not called.
\<close>

theorem backend_main_clean:
  assumes "backend_main api chan_init notify srv f requests \<lparr>srv_state = s, srv_calls = []\<rparr> p = (code, st, p')"
  shows "ledger_of (srv_calls (snd st)) = Some empty_ledger \<and>
    code = (if fst (Sink_Start api (new_sink (bf_bind_host f) (bf_rdma_port f) (bf_compute_crc32c f),
                  \<lparr>srv_state = s, srv_calls = []\<rparr>)) \<and> rs_add_service srv = 0 \<and>
               rs_start srv (c_str (backend_endpoint_of f)) (bf_num_threads f) = 0 then 0 else 1) \<and>
    (if code = 0 then True else p' = p)"
proof -
  let ?w = "\<lparr>srv_state = s, srv_calls = []\<rparr>"
  obtain ok st0 where start: "Sink_Start api (new_sink (bf_bind_host f) (bf_rdma_port f) (bf_compute_crc32c f), ?w) =
      (ok, st0)" by (metis surj_pair)
  have l: "ledger_of (srv_calls ?w) = Some empty_ledger" by (simp add: pool_simps)
  show ?thesis
  proof (cases ok)
    case False
    then show ?thesis
      using assms start Start_failed [OF _ l] by (cases st0) (auto simp: backend_main_def)
  next
    case True
    then have ready: "sink_ready st0" using Start_ready start l by metis
    obtain st1 p1 where serve: "backend_serve api notify
        (new_BackendDataPlaneService chan_init (bf_backend_id f) (bf_proxy_endpoint f)) requests (st0, p) = (st1, p1)"
      by (metis surj_pair)
    then have "sink_ready st1" using backend_serve_ready [of "(st0, p)"] ready by (metis fst_conv)
    then show ?thesis
      using assms start True serve Stop_clean [OF ready] Stop_clean [of st1 api]
      by (cases st1) (auto intro: Stop_clean simp: backend_main_def Sink_Stop_twice split: if_splits)
  qed
qed

definition demo_flags :: backend_flags where
  "demo_flags = default_backend_flags\<lparr>bf_bind_host := ''h'', bf_rdma_port := 1\<rparr>"

theorem backend_main_clean_witness:
  "\<exists>st p'. backend_main demo_server (\<lambda>ep t. 0) (\<lambda>ep q p. (Inr \<lparr>rgr_accepted = True\<rparr>, p))
     \<lparr>rs_add_service = 0, rs_start = (\<lambda>ep n. 0)\<rparr> demo_flags [] \<lparr>srv_state = 1, srv_calls = []\<rparr> () = (0, st, p') \<and>
     ledger_of (srv_calls (snd st)) = Some empty_ledger"
proof -
  obtain code st p' where m: "backend_main demo_server (\<lambda>ep t. 0) (\<lambda>ep q p. (Inr \<lparr>rgr_accepted = True\<rparr>, p))
     \<lparr>rs_add_service = 0, rs_start = (\<lambda>ep n. 0)\<rparr> demo_flags [] \<lparr>srv_state = 1, srv_calls = []\<rparr> () = (code, st, p')"
    by (metis prod.collapse)
  from backend_main_clean [OF this] have "code = 0" "ledger_of (srv_calls (snd st)) = Some empty_ledger"
    using demo_backend_started(1)
    by (simp_all add: demo_flags_def default_backend_flags_def demo_boot_def)
  then show ?thesis using m by blast
qed

section \<open>Addresses\<close>

lemma port_texts: "int_to_string 9100 = ''9100''" "int_to_string 9200 = ''9200''"
  by (simp_all add: int_to_string_def to_string.simps hex_digit_def) (code_simp+)

text \<open>
  Out of the box the programs find each other: the proxy listens where the backend, the
  upload example and the benchmark expect it, and the backend where the proxy and the two
  clients expect it.
\<close>

theorem default_addresses_agree:
  "proxy_endpoint_of default_proxy_flags = bf_proxy_endpoint default_backend_flags \<and>
   proxy_endpoint_of default_proxy_flags = endpoint example_options \<and>
   proxy_endpoint_of default_proxy_flags = ba_proxy default_args \<and>
   backend_endpoint_of default_backend_flags = pf_backend_endpoint default_proxy_flags \<and>
   backend_endpoint_of default_backend_flags = gds_data_endpoint example_options \<and>
   backend_endpoint_of default_backend_flags = ba_backend default_args"
  by (simp add: proxy_endpoint_of_def backend_endpoint_of_def default_proxy_flags_def default_backend_flags_def
      example_options_def default_args_def proxy_addr_def backend_addr_def port_texts)

end
