(* ===== verification/Memory_Threads.thy ===== *)
theory Memory_Threads
  imports Gds_Memory Scheduled
begin

text \<open>
  The client's memory manager under several threads
  (\<open>client/src/gds_transport/gds_memory_manager.cpp\<close>). The methods are cut where another thread
  can come between: before each critical section of \<open>registration_mu_\<close> and before each call into
  the vendor's library outside of it. \<open>AcquireToken\<close> has two critical sections, the look-up and the
  registration, and takes the token after both. The first lemmas show that a thread that is not
  interrupted does what the sequential definitions of \<open>Gds_Memory\<close> do; the later ones say what
  every schedule keeps.
\<close>

section \<open>Threads\<close>

text \<open>
  Where a thread is in the manager's code. Inside a critical section there is one call into the
  vendor's library, which does not read the table, so a critical section is one stretch.
\<close>

datatype mem_phase =
    MemOutside
  | RegisterLock u64 u64 \<comment> \<open>before the critical section of \<open>RegisterBuffer\<close>\<close>
  | UnregisterLock u64
  | LookupLock u64 u64 u64 \<comment> \<open>before the first critical section of \<open>AcquireToken\<close>\<close>
  | EnsureLock u64 u64 u64 \<comment> \<open>before the second one\<close>
  | FetchToken u64 u64 u64 \<comment> \<open>before \<open>cuMemObjGetRDMAToken\<close>\<close>
  | StoreToken Token \<comment> \<open>before the move assignment to \<open>out\<close>\<close>
  | DropToken \<comment> \<open>before the release in a token's destructor\<close>

record mem_thread =
  mt_phase :: mem_phase
  mt_token :: Token \<comment> \<open>the token the thread owns\<close>
  mt_ok :: bool \<comment> \<open>what its last method returned\<close>

datatype mem_method =
    MemRegister u64 u64
  | MemUnregister u64
  | MemAcquire u64 u64 u64
  | MemDrop

text \<open>Entering a method: the checks of the arguments come before the lock.\<close>

definition enter_memory :: "mem_method \<Rightarrow> mem_thread \<Rightarrow> mem_thread" where
  "enter_memory m t =
     (case m of
        MemRegister ptr sz \<Rightarrow>
          if ptr = 0 \<or> sz = 0 then t\<lparr>mt_ok := False\<rparr> else t\<lparr>mt_phase := RegisterLock ptr sz\<rparr>
      | MemUnregister ptr \<Rightarrow>
          if ptr = 0 then t\<lparr>mt_ok := False\<rparr> else t\<lparr>mt_phase := UnregisterLock ptr\<rparr>
      | MemAcquire ptr sz offset \<Rightarrow>
          if ptr = 0 \<or> sz = 0 then t\<lparr>mt_ok := False\<rparr> else t\<lparr>mt_phase := LookupLock ptr sz offset\<rparr>
      | MemDrop \<Rightarrow> t\<lparr>mt_phase := DropToken\<rparr>)"

type_synonym 's mem_state = "GdsMemoryManager \<times> 's world"

definition leave_memory :: "bool \<Rightarrow> mem_thread \<Rightarrow> mem_thread" where
  "leave_memory ok t = t\<lparr>mt_phase := MemOutside, mt_ok := ok\<rparr>"

text \<open>One stretch of a thread inside the manager.\<close>

definition memory_move ::
  "'s client_api \<Rightarrow> mem_thread \<times> 's mem_state \<Rightarrow> mem_thread \<times> 's mem_state" where
  "memory_move api = (\<lambda>(t, mgr, w).
     case mt_phase t of
       MemOutside \<Rightarrow> (t, mgr, w)
     | RegisterLock ptr sz \<Rightarrow>
         (let (ok, st) = RegisterBufferUnderLock api ptr sz (mgr, w) in (leave_memory ok t, st))
     | UnregisterLock ptr \<Rightarrow>
         if map_of (gm_registered mgr) ptr = None then (leave_memory True t, mgr, w)
         else
           (let (rc, w') = w_put_descriptor api ptr w;
                mgr' = mgr\<lparr>gm_registered := filter (\<lambda>e. fst e \<noteq> ptr) (gm_registered mgr)\<rparr>
            in (leave_memory (rc = CU_OBJ_SUCCESS) t, mgr', w'))
     | LookupLock ptr sz offset \<Rightarrow>
         (let need_register = (map_of (gm_registered mgr) ptr = None)
          in (t\<lparr>mt_phase := (if need_register then EnsureLock ptr sz offset else FetchToken ptr sz offset)\<rparr>, mgr, w))
     | EnsureLock ptr sz offset \<Rightarrow>
         (let (ok, st) = RegisterBufferUnderLock api ptr (sz + offset) (mgr, w)
          in (if ok then t\<lparr>mt_phase := FetchToken ptr sz offset\<rparr> else leave_memory False t, st))
     | FetchToken ptr sz offset \<Rightarrow>
         (let ((rc, tok), w') = w_get_token api ptr sz offset w
          in (if rc \<noteq> CU_OBJ_SUCCESS \<or> tok = 0 then leave_memory False t
              else t\<lparr>mt_phase := StoreToken \<lparr>tok_client = gm_client mgr, tok_ptr = tok\<rparr>\<rparr>, mgr, w'))
     | StoreToken tok \<Rightarrow>
         (let (out', tmp, w') = Token_Assign api (mt_token t) tok w
          in ((leave_memory True t)\<lparr>mt_token := out'\<rparr>, mgr, w'))
     | DropToken \<Rightarrow>
         (let (none, w') = Token_Reset api (mt_token t) w
          in (t\<lparr>mt_phase := MemOutside, mt_token := none\<rparr>, mgr, w')))"

section \<open>Schedules\<close>

datatype mem_event = MemCall nat mem_method | MemRun nat

type_synonym 's mem_system = "mem_thread list \<times> 's mem_state"

fun mem_event_step :: "'s client_api \<Rightarrow> mem_event \<Rightarrow> 's mem_system \<Rightarrow> 's mem_system" where
  "mem_event_step api (MemCall i m) (ts, st) =
     (if i < length ts \<and> mt_phase (ts ! i) = MemOutside then (ts[i := enter_memory m (ts ! i)], st) else (ts, st))"
| "mem_event_step api (MemRun i) (ts, st) =
     (if i < length ts then (let (t, st') = memory_move api (ts ! i, st) in (ts[i := t], st')) else (ts, st))"

definition mem_sched :: "'s client_api \<Rightarrow> mem_event list \<Rightarrow> 's mem_system \<Rightarrow> 's mem_system" where
  "mem_sched api evs st = fold (mem_event_step api) evs st"

definition idle_mem_thread :: mem_thread where
  "idle_mem_thread = \<lparr>mt_phase = MemOutside, mt_token = null_token, mt_ok = True\<rparr>"

lemma mem_sched_simps [simp]:
  "mem_sched api [] st = st" "mem_sched api (e # es) st = mem_sched api es (mem_event_step api e st)"
  "mem_sched api (xs @ ys) st = mem_sched api ys (mem_sched api xs st)"
  by (simp_all add: mem_sched_def)

section \<open>A thread alone\<close>

text \<open>The stretches one by one, for a thread in the given phase.\<close>

lemma move_register:
  "memory_move api (t\<lparr>mt_phase := RegisterLock ptr sz\<rparr>, st) =
     (leave_memory (fst (RegisterBufferUnderLock api ptr sz st)) t, snd (RegisterBufferUnderLock api ptr sz st))"
  by (cases st) (simp add: memory_move_def leave_memory_def Let_def split: prod.split)

lemma move_unregister:
  "ptr \<noteq> 0 \<Longrightarrow> memory_move api (t\<lparr>mt_phase := UnregisterLock ptr\<rparr>, st) =
     (leave_memory (fst (UnregisterBuffer api ptr st)) t, snd (UnregisterBuffer api ptr st))"
  by (cases st) (simp add: memory_move_def leave_memory_def UnregisterBuffer_def Let_def split: prod.split)

lemma move_lookup:
  "memory_move api (t\<lparr>mt_phase := LookupLock ptr sz off\<rparr>, mgr, w) =
     (t\<lparr>mt_phase := (if map_of (gm_registered mgr) ptr = None then EnsureLock ptr sz off else FetchToken ptr sz off)\<rparr>, mgr, w)"
  by (simp add: memory_move_def)

lemma move_ensure:
  "memory_move api (t\<lparr>mt_phase := EnsureLock ptr sz off\<rparr>, st) =
     (let (ok, st') = RegisterBufferUnderLock api ptr (sz + off) st
      in (if ok then t\<lparr>mt_phase := FetchToken ptr sz off\<rparr> else leave_memory False t, st'))"
  by (cases st) (simp add: memory_move_def leave_memory_def Let_def split: prod.split)

lemma move_fetch:
  "memory_move api (t\<lparr>mt_phase := FetchToken ptr sz off\<rparr>, mgr, w) =
     (let ((rc, tok), w') = w_get_token api ptr sz off w
      in (if rc \<noteq> CU_OBJ_SUCCESS \<or> tok = 0 then leave_memory False t
          else t\<lparr>mt_phase := StoreToken \<lparr>tok_client = gm_client mgr, tok_ptr = tok\<rparr>\<rparr>, mgr, w'))"
  by (simp add: memory_move_def leave_memory_def Let_def split: prod.split)

lemma move_store:
  "memory_move api (t\<lparr>mt_phase := StoreToken tok\<rparr>, mgr, w) =
     ((leave_memory True t)\<lparr>mt_token := tok\<rparr>, mgr, snd (Token_Reset api (mt_token t) w))"
  by (simp add: memory_move_def leave_memory_def Token_Assign_def Token_Reset_def)

lemma move_drop:
  "memory_move api (t\<lparr>mt_phase := DropToken\<rparr>, mgr, w) =
     (t\<lparr>mt_phase := MemOutside, mt_token := null_token\<rparr>, mgr, Token_end api (mt_token t) w)"
  by (simp add: memory_move_def Token_end_def Token_Reset_def)

lemma move_idle: "mt_phase t = MemOutside \<Longrightarrow> memory_move api (t, st) = (t, st)"
  by (cases st) (simp add: memory_move_def)

lemma move_left [simp]: "memory_move api (leave_memory ok t, st) = (leave_memory ok t, st)"
  by (simp add: move_idle leave_memory_def)

lemmas memory_moves = move_register move_unregister move_lookup move_ensure move_fetch move_store move_drop

definition memory_alone :: "'s client_api \<Rightarrow> nat \<Rightarrow> mem_thread \<times> 's mem_state \<Rightarrow> mem_thread \<times> 's mem_state" where
  "memory_alone api k = (memory_move api ^^ k)"

lemma alone_sched_mem:
  "i < length ts \<Longrightarrow> mem_sched api (replicate k (MemRun i)) (ts, st) =
     (let (t, st') = memory_alone api k (ts ! i, st) in (ts[i := t], st'))"
  by (induction k arbitrary: ts st)
     (auto simp: memory_alone_def funpow_Suc_right Let_def simp del: funpow.simps split: prod.splits)

definition method_alone_mem ::
  "'s client_api \<Rightarrow> nat \<Rightarrow> mem_method \<Rightarrow> mem_thread \<times> 's mem_state \<Rightarrow> mem_thread \<times> 's mem_state" where
  "method_alone_mem api k m = (\<lambda>(t, st). memory_alone api k (enter_memory m t, st))"

lemma thread_stays: "mt_phase t = MemOutside \<Longrightarrow> leave_memory ok t = t\<lparr>mt_ok := ok\<rparr>"
  by (cases t) (simp add: leave_memory_def)

lemma register_alone:
  assumes "mt_phase t = MemOutside"
  shows "method_alone_mem api 1 (MemRegister ptr sz) (t, st) =
    (t\<lparr>mt_ok := fst (RegisterBuffer api ptr sz st)\<rparr>, snd (RegisterBuffer api ptr sz st))"
proof (cases "ptr = 0 \<or> sz = 0")
  case True
  then show ?thesis using assms
    by (cases st) (auto simp: method_alone_mem_def memory_alone_def enter_memory_def RegisterBuffer_def move_idle)
next
  case False
  then show ?thesis using assms
    by (cases st) (simp add: method_alone_mem_def memory_alone_def enter_memory_def RegisterBuffer_def move_register thread_stays)
qed

lemma unregister_alone:
  assumes "mt_phase t = MemOutside"
  shows "method_alone_mem api 1 (MemUnregister ptr) (t, st) =
    (t\<lparr>mt_ok := fst (UnregisterBuffer api ptr st)\<rparr>, snd (UnregisterBuffer api ptr st))"
proof (cases "ptr = 0")
  case True
  then show ?thesis using assms
    by (cases st) (simp add: method_alone_mem_def memory_alone_def enter_memory_def UnregisterBuffer_def move_idle)
next
  case False
  then show ?thesis using assms
    by (simp add: method_alone_mem_def memory_alone_def enter_memory_def move_unregister thread_stays)
qed

lemma drop_alone:
  assumes "mt_phase t = MemOutside"
  shows "method_alone_mem api 1 MemDrop (t, mgr, w) =
    (t\<lparr>mt_token := null_token\<rparr>, mgr, Token_end api (mt_token t) w)"
proof -
  have "t\<lparr>mt_phase := MemOutside, mt_token := null_token\<rparr> = t\<lparr>mt_token := null_token\<rparr>"
    using assms by (cases t) simp
  then show ?thesis by (simp add: method_alone_mem_def memory_alone_def enter_memory_def move_drop)
qed

text \<open>From the point where the buffer is known to be registered, and the whole of \<open>AcquireToken\<close>.\<close>

definition finish_acquire ::
  "'s client_api \<Rightarrow> u64 \<Rightarrow> u64 \<Rightarrow> u64 \<Rightarrow> Token \<Rightarrow> 's mem_state \<Rightarrow> bool \<times> Token \<times> 's mem_state" where
  "finish_acquire api ptr sz off out = (\<lambda>(mgr, w).
     (let ((rc, tok), w2) = w_get_token api ptr sz off w
      in if rc \<noteq> CU_OBJ_SUCCESS \<or> tok = 0 then (False, out, mgr, w2)
         else (True, \<lparr>tok_client = gm_client mgr, tok_ptr = tok\<rparr>, mgr, snd (Token_Reset api out w2))))"

lemma fetch_alone:
  assumes "mt_phase t = MemOutside"
  shows "memory_move api (memory_move api (t\<lparr>mt_phase := FetchToken ptr sz off\<rparr>, st)) =
    (let (ok, tok, st') = finish_acquire api ptr sz off (mt_token t) st in (t\<lparr>mt_ok := ok, mt_token := tok\<rparr>, st'))"
proof -
  obtain mgr w where st: "st = (mgr, w)" by (cases st)
  obtain rc tok w2 where g: "w_get_token api ptr sz off w = ((rc, tok), w2)" by (metis prod.collapse)
  have t: "t\<lparr>mt_token := mt_token t\<rparr> = t" "t\<lparr>mt_ok := ok, mt_token := mt_token t\<rparr> = t\<lparr>mt_ok := ok\<rparr>" for ok
    by (cases t; simp)+
  show ?thesis
    using assms by (simp add: st move_fetch g finish_acquire_def move_store t thread_stays move_idle)
qed

lemma AcquireToken_finish:
  "AcquireToken api ptr sz off out st =
     (if ptr = 0 \<or> sz = 0 then (False, out, st)
      else if map_of (gm_registered (fst st)) ptr \<noteq> None then finish_acquire api ptr sz off out st
      else (let (ok, st1) = RegisterBufferUnderLock api ptr (sz + off) st
            in if ok then finish_acquire api ptr sz off out st1 else (False, out, st1)))"
  by (cases st) (auto simp: AcquireToken_def finish_acquire_def Token_Assign_def Token_Reset_def Let_def split: prod.split)

lemma acquire_token_alone:
  assumes "mt_phase t = MemOutside"
  shows "method_alone_mem api 4 (MemAcquire ptr sz off) (t, st) =
    (let (ok, tok, st') = AcquireToken api ptr sz off (mt_token t) st in (t\<lparr>mt_ok := ok, mt_token := tok\<rparr>, st'))"
proof -
  obtain mgr w where st: "st = (mgr, w)" by (cases st)
  have t: "t\<lparr>mt_token := mt_token t\<rparr> = t" "t\<lparr>mt_ok := ok, mt_token := mt_token t\<rparr> = t\<lparr>mt_ok := ok\<rparr>" for ok
    by (cases t; simp)+
  have out: "memory_move api (t\<lparr>mt_ok := ok, mt_token := tok\<rparr>, st') = (t\<lparr>mt_ok := ok, mt_token := tok\<rparr>, st')"
    "memory_move api (t\<lparr>mt_ok := ok\<rparr>, st') = (t\<lparr>mt_ok := ok\<rparr>, st')" for ok tok st'
    using assms by (simp_all add: move_idle)
  have four: "memory_alone api 4 x = memory_move api (memory_move api (memory_move api (memory_move api x)))" for x
    by (simp add: memory_alone_def eval_nat_numeral)
  show ?thesis
    using assms
    by (simp add: method_alone_mem_def four enter_memory_def st AcquireToken_finish move_lookup move_ensure
        fetch_alone t out thread_stays Let_def case_prod_unfold if_distrib [of "memory_move api"] cong: if_cong)
qed

section \<open>The books of every schedule\<close>

definition owned_token :: "Token \<Rightarrow> Token list" where
  "owned_token t = (if tok_ptr t = 0 then [] else [t])"

definition thread_tokens :: "mem_thread \<Rightarrow> Token list" where
  "thread_tokens t = owned_token (mt_token t) @ (case mt_phase t of StoreToken tok \<Rightarrow> [tok] | _ \<Rightarrow> [])"

definition mem_thread_wf :: "mem_thread \<Rightarrow> bool" where
  "mem_thread_wf t \<longleftrightarrow> (tok_ptr (mt_token t) = 0 \<longrightarrow> mt_token t = null_token) \<and>
     (case mt_phase t of UnregisterLock ptr \<Rightarrow> ptr \<noteq> 0 | StoreToken tok \<Rightarrow> tok_ptr tok \<noteq> 0 | _ \<Rightarrow> True)"

definition memory_inv :: "'s mem_system \<Rightarrow> bool" where
  "memory_inv = (\<lambda>(ts, st). list_all mem_thread_wf ts \<and> mm_holds (concat (map thread_tokens ts)) st)"

lemma mm_holds_perm: "mset us = mset vs \<Longrightarrow> mm_holds us st = mm_holds vs st"
  by (simp add: mm_holds_def mset_map [symmetric] del: mset_map) (metis mset_map set_mset_mset)

lemma mm_holds_owned: "mm_holds (owned_token t @ us) (mgr, w) \<Longrightarrow> mm_holds us (mgr, Token_end api t w)"
  using Token_end_holds [of t us mgr w api]
  by (cases "tok_ptr t = 0") (simp_all add: owned_token_def Token_end_def Token_Reset_def)

lemma tokens_of_phase [simp]:
  "thread_tokens (t\<lparr>mt_phase := StoreToken tok\<rparr>) = owned_token (mt_token t) @ [tok]"
  "thread_tokens (leave_memory ok t) = owned_token (mt_token t)"
  "thread_tokens (t\<lparr>mt_phase := FetchToken ptr sz off\<rparr>) = owned_token (mt_token t)"
  "thread_tokens (t\<lparr>mt_phase := LookupLock ptr sz off\<rparr>) = owned_token (mt_token t)"
  "thread_tokens (t\<lparr>mt_phase := EnsureLock ptr sz off\<rparr>) = owned_token (mt_token t)"
  "thread_tokens (t\<lparr>mt_phase := RegisterLock ptr sz\<rparr>) = owned_token (mt_token t)"
  "thread_tokens (t\<lparr>mt_phase := UnregisterLock ptr\<rparr>) = owned_token (mt_token t)"
  "thread_tokens (t\<lparr>mt_phase := DropToken\<rparr>) = owned_token (mt_token t)"
  "thread_tokens ((leave_memory ok t)\<lparr>mt_token := tok\<rparr>) = owned_token tok"
  "thread_tokens (t\<lparr>mt_phase := MemOutside, mt_token := tok\<rparr>) = owned_token tok"
  by (simp_all add: thread_tokens_def leave_memory_def)

text \<open>One stretch of a thread, with whatever tokens \<open>us\<close> the other threads hold.\<close>

lemma fetch_holds:
  assumes "mm_holds us (mgr, w)" "w_get_token api ptr sz off w = ((rc, tok), w')"
  shows "mm_holds (if rc \<noteq> CU_OBJ_SUCCESS \<or> tok = 0 then us else \<lparr>tok_client = gm_client mgr, tok_ptr = tok\<rparr> # us) (mgr, w')"
proof -
  have "events w' = events w @ (if rc = CU_OBJ_SUCCESS \<and> tok \<noteq> 0 then [EvToken tok] else [])"
    using events_token [of api ptr sz off w] assms(2) by simp
  then show ?thesis using assms(1) by (auto simp: mm_holds_def)
qed

definition step_holds :: "Token list \<Rightarrow> mem_thread \<times> 's mem_state \<Rightarrow> bool" where
  "step_holds us = (\<lambda>(t, st). mm_holds (thread_tokens t @ us) st \<and> mem_thread_wf t)"

lemma register_step_holds:
  assumes "mm_holds (owned_token (mt_token t) @ us) st" "tok_ptr (mt_token t) = 0 \<longrightarrow> mt_token t = null_token"
  shows "step_holds us (memory_move api (t\<lparr>mt_phase := RegisterLock ptr sz\<rparr>, st))"
    "step_holds us (memory_move api (t\<lparr>mt_phase := EnsureLock ptr sz off\<rparr>, st))"
proof -
  obtain mgr w where st: "st = (mgr, w)" by (cases st)
  have "mm_holds (owned_token (mt_token t) @ us) (snd (RegisterBufferUnderLock api ptr n st))" for n
    using Register_holds [OF assms(1) [unfolded st], of api ptr n] st by (metis prod.collapse)
  then show "step_holds us (memory_move api (t\<lparr>mt_phase := RegisterLock ptr sz\<rparr>, st))"
    "step_holds us (memory_move api (t\<lparr>mt_phase := EnsureLock ptr sz off\<rparr>, st))"
    using assms(2)
    by (auto simp: step_holds_def move_register move_ensure mem_thread_wf_def Let_def case_prod_unfold) (simp_all add: leave_memory_def)
qed

lemma unregister_step_holds:
  assumes "mm_holds (owned_token (mt_token t) @ us) st" "tok_ptr (mt_token t) = 0 \<longrightarrow> mt_token t = null_token" "ptr \<noteq> 0"
  shows "step_holds us (memory_move api (t\<lparr>mt_phase := UnregisterLock ptr\<rparr>, st))"
proof -
  obtain mgr w where st: "st = (mgr, w)" by (cases st)
  have "mm_holds (owned_token (mt_token t) @ us) (snd (UnregisterBuffer api ptr st))"
    using Unregister_holds [OF assms(1) [unfolded st], of api ptr] st by (metis prod.collapse)
  then show ?thesis
    using assms(2,3) by (simp add: step_holds_def move_unregister mem_thread_wf_def) (simp add: leave_memory_def)
qed

lemma fetch_step_holds:
  assumes "mm_holds (owned_token (mt_token t) @ us) st" "tok_ptr (mt_token t) = 0 \<longrightarrow> mt_token t = null_token"
  shows "step_holds us (memory_move api (t\<lparr>mt_phase := FetchToken ptr sz off\<rparr>, st))"
proof -
  obtain mgr w where st: "st = (mgr, w)" by (cases st)
  obtain rc tok w1 where g: "w_get_token api ptr sz off w = ((rc, tok), w1)" by (metis prod.collapse)
  show ?thesis
    using fetch_holds [OF assms(1) [unfolded st] g] assms(2)
    by (auto simp: step_holds_def st move_fetch g mem_thread_wf_def leave_memory_def thread_tokens_def
        intro: mm_holds_perm [THEN iffD1, rotated] split: if_splits)
qed

lemma token_step_holds:
  assumes "mm_holds (owned_token (mt_token t) @ us) st"
  shows "step_holds us (memory_move api (t\<lparr>mt_phase := DropToken\<rparr>, st))"
    and "us = tok # vs \<Longrightarrow> tok_ptr tok \<noteq> 0 \<Longrightarrow> step_holds vs (memory_move api (t\<lparr>mt_phase := StoreToken tok\<rparr>, st))"
proof -
  obtain mgr w where st: "st = (mgr, w)" by (cases st)
  have h: "mm_holds us (mgr, Token_end api (mt_token t) w)" using mm_holds_owned assms st by blast
  then show "step_holds us (memory_move api (t\<lparr>mt_phase := DropToken\<rparr>, st))"
    by (simp add: step_holds_def st move_drop mem_thread_wf_def) (simp add: owned_token_def null_token_def)
  show "us = tok # vs \<Longrightarrow> tok_ptr tok \<noteq> 0 \<Longrightarrow> step_holds vs (memory_move api (t\<lparr>mt_phase := StoreToken tok\<rparr>, st))"
    using h by (simp add: step_holds_def st move_store mem_thread_wf_def Token_end_def) (simp add: owned_token_def leave_memory_def)
qed

lemma memory_move_holds:
  assumes "mm_holds (thread_tokens t @ us) st" "mem_thread_wf t"
  shows "step_holds us (memory_move api (t, st))"
proof -
  have own: "mm_holds (owned_token (mt_token t) @ us) st" if "\<And>tok. mt_phase t \<noteq> StoreToken tok"
    using assms(1) that by (cases "mt_phase t") (simp_all add: thread_tokens_def, blast)
  have wf: "tok_ptr (mt_token t) = 0 \<longrightarrow> mt_token t = null_token" using assms(2) by (simp add: mem_thread_wf_def)
  have "step_holds us (memory_move api (t\<lparr>mt_phase := mt_phase t\<rparr>, st))"
  proof (cases "mt_phase t")
    case (UnregisterLock ptr)
    then show ?thesis using unregister_step_holds [OF own wf] assms(2) by (simp add: mem_thread_wf_def)
  next
    case (LookupLock ptr sz off)
    then show ?thesis using own wf by (cases st) (auto simp: step_holds_def move_lookup mem_thread_wf_def)
  next
    case (StoreToken tok)
    then have "mm_holds (owned_token (mt_token t) @ tok # us) st" using assms(1) by (simp add: thread_tokens_def)
    from token_step_holds(2) [OF this refl] show ?thesis using assms(2) StoreToken by (simp add: mem_thread_wf_def)
  next
    case MemOutside
    from assms move_idle [OF this, of api st] show ?thesis by (simp add: step_holds_def)
  qed (use own wf register_step_holds fetch_step_holds token_step_holds(1) in simp_all)
  then show ?thesis by simp
qed

lemma mset_thread_tokens:
  assumes "i < length ts"
  defines "us \<equiv> concat (map thread_tokens (take i ts)) @ concat (map thread_tokens (drop (Suc i) ts))"
  shows "mset (concat (map thread_tokens (ts[i := t]))) = mset (thread_tokens t @ us)"
    "mset (concat (map thread_tokens ts)) = mset (thread_tokens (ts ! i) @ us)"
proof -
  show a: "mset (concat (map thread_tokens (ts[i := t]))) = mset (thread_tokens t @ us)" for t
    unfolding upd_conv_take_nth_drop [OF assms(1)] us_def by simp
  show "mset (concat (map thread_tokens ts)) = mset (thread_tokens (ts ! i) @ us)"
    using a [of "ts ! i"] by simp
qed

lemma memory_inv_swap:
  assumes "memory_inv (ts, st)" "i < length ts"
    and "\<And>us. mm_holds (thread_tokens (ts ! i) @ us) st \<Longrightarrow> mm_holds (thread_tokens t @ us) st' \<and> mem_thread_wf t"
  shows "memory_inv (ts[i := t], st')"
  using assms(1,3) mm_holds_perm [OF mset_thread_tokens(1) [OF assms(2)], of t st']
    mm_holds_perm [OF mset_thread_tokens(2) [OF assms(2)], of st]
  by (auto simp: memory_inv_def intro: list_all_swap)

lemma enter_memory_tokens:
  assumes "mt_phase t = MemOutside" "mem_thread_wf t"
  shows "thread_tokens (enter_memory m t) = thread_tokens t \<and> mem_thread_wf (enter_memory m t)"
  using assms by (cases m) (auto simp: enter_memory_def thread_tokens_def mem_thread_wf_def)

lemma memory_event_inv:
  assumes "memory_inv st"
  shows "memory_inv (mem_event_step api e st)"
proof -
  obtain ts s where st: "st = (ts, s)" by (cases st)
  have wf: "mem_thread_wf (ts ! i)" if "i < length ts" for i
    using assms that by (simp add: st memory_inv_def list_all_length)
  show ?thesis
  proof (cases e)
    case (MemCall i m)
    then show ?thesis
      using assms memory_inv_swap [of ts s i "enter_memory m (ts ! i)" s] enter_memory_tokens wf by (auto simp: st)
  next
    case (MemRun i)
    obtain t s' where m: "memory_move api (ts ! i, s) = (t, s')" by (metis surj_pair)
    then show ?thesis
      using assms memory_inv_swap [of ts s i t s'] memory_move_holds [OF _ wf, of i _ s api] by (auto simp: st MemRun step_holds_def)
  qed
qed

interpretation memory_books: scheduled "mem_event_step api" "\<lambda>e. True" memory_inv
  for api :: "'s client_api"
  by unfold_locales (rule memory_event_inv)

section \<open>Registration under schedules\<close>

text \<open>
  As long as nobody unregisters a buffer, it stays registered, and a thread past the second
  critical section of \<open>AcquireToken\<close> finds it registered.
\<close>

definition unregisters :: "u64 \<Rightarrow> mem_event \<Rightarrow> bool" where
  "unregisters ptr e \<longleftrightarrow> (\<exists>i. e = MemCall i (MemUnregister ptr))"

definition past_registration :: "u64 \<Rightarrow> mem_thread \<Rightarrow> bool" where
  "past_registration ptr t \<longleftrightarrow> (\<exists>sz off. mt_phase t = FetchToken ptr sz off)"

definition registered_inv :: "u64 \<Rightarrow> 's mem_system \<Rightarrow> bool" where
  "registered_inv ptr = (\<lambda>(ts, mgr, w). list_all (\<lambda>t. mt_phase t \<noteq> UnregisterLock ptr) ts \<and>
     (list_ex (past_registration ptr) ts \<longrightarrow> ptr \<in> fst ` set (gm_registered mgr)))"

lemma RegisterUnderLock_table:
  assumes "RegisterBufferUnderLock api p n (mgr, w) = (ok, mgr', w')"
  shows "fst ` set (gm_registered mgr) \<subseteq> fst ` set (gm_registered mgr')" "ok \<Longrightarrow> p \<in> fst ` set (gm_registered mgr')"
  using assms by (auto simp: RegisterBufferUnderLock_def map_of_None_fst Let_def split: if_splits prod.splits
      dest!: map_of_SomeD intro: rev_image_eqI)

lemma memory_move_registered:
  assumes "memory_move api (t, mgr, w) = (t', mgr', w')" "mt_phase t \<noteq> UnregisterLock ptr"
  shows "mt_phase t' \<noteq> UnregisterLock ptr \<and>
    (ptr \<in> fst ` set (gm_registered mgr) \<longrightarrow> ptr \<in> fst ` set (gm_registered mgr')) \<and>
    (past_registration ptr t' \<longrightarrow> ptr \<in> fst ` set (gm_registered mgr'))"
proof -
  have mv: "memory_move api (t\<lparr>mt_phase := mt_phase t\<rparr>, mgr, w) = (t', mgr', w')" using assms(1) by simp
  show ?thesis
  proof (cases "mt_phase t")
    case (RegisterLock p n)
    obtain ok mgr1 w1 where r: "RegisterBufferUnderLock api p n (mgr, w) = (ok, mgr1, w1)" by (metis prod.collapse)
    then have "mgr' = mgr1" "t' = leave_memory ok t" using mv RegisterLock by (simp_all add: move_register)
    then show ?thesis
      using RegisterUnderLock_table [OF r] by (auto simp: past_registration_def leave_memory_def)
  next
    case (EnsureLock p n off)
    obtain ok mgr1 w1 where r: "RegisterBufferUnderLock api p (n + off) (mgr, w) = (ok, mgr1, w1)" by (metis prod.collapse)
    then have "mgr' = mgr1" "t' = (if ok then t\<lparr>mt_phase := FetchToken p n off\<rparr> else leave_memory False t)"
      using mv EnsureLock by (simp_all add: move_ensure)
    then show ?thesis
      using RegisterUnderLock_table [OF r] by (auto simp: past_registration_def leave_memory_def)
  next
    case (UnregisterLock p)
    then show ?thesis
      using assms by (auto simp: memory_move_def past_registration_def leave_memory_def Let_def image_iff
          split: if_splits prod.splits)
  next
    case (LookupLock p n off)
    then show ?thesis using mv by (auto simp: move_lookup past_registration_def map_of_None_fst split: if_splits intro: rev_image_eqI)
  next
    case (FetchToken p n off)
    then show ?thesis
      using mv by (auto simp: move_fetch past_registration_def leave_memory_def split: prod.splits if_splits)
  qed (use assms in \<open>auto simp: memory_move_def past_registration_def leave_memory_def Let_def split: prod.splits\<close>)
qed

lemma enter_memory_registered:
  assumes "mt_phase t = MemOutside" "m \<noteq> MemUnregister ptr"
  shows "mt_phase (enter_memory m t) \<noteq> UnregisterLock ptr \<and> \<not> past_registration ptr (enter_memory m t)"
  using assms by (cases m) (auto simp: enter_memory_def past_registration_def)

lemma registered_event_inv:
  assumes "registered_inv ptr st" "\<not> unregisters ptr e"
  shows "registered_inv ptr (mem_event_step api e st)"
proof -
  obtain ts mgr w where st: "st = (ts, mgr, w)" by (metis prod.collapse)
  have a: "list_all (\<lambda>t. mt_phase t \<noteq> UnregisterLock ptr) ts"
    "list_ex (past_registration ptr) ts \<longrightarrow> ptr \<in> fst ` set (gm_registered mgr)"
    using assms(1) by (simp_all add: st registered_inv_def)
  have some: "list_ex (past_registration ptr) (ts[i := t]) \<Longrightarrow> list_ex (past_registration ptr) ts \<or> past_registration ptr t"
    for i t by (auto simp: list_ex_iff dest!: set_update_subset_insert [THEN subsetD])
  show ?thesis
  proof (cases e)
    case (MemCall i m)
    then have m: "m \<noteq> MemUnregister ptr" using assms(2) by (auto simp: unregisters_def)
    show ?thesis
    proof (cases "i < length ts \<and> mt_phase (ts ! i) = MemOutside")
      case True
      note n = enter_memory_registered [OF conjunct2 [OF True] m]
      then have "list_all (\<lambda>t. mt_phase t \<noteq> UnregisterLock ptr) (ts[i := enter_memory m (ts ! i)])"
        using a(1) by (simp add: list_all_swap)
      moreover have "list_ex (past_registration ptr) (ts[i := enter_memory m (ts ! i)]) \<longrightarrow>
          ptr \<in> fst ` set (gm_registered mgr)"
        using some [of i "enter_memory m (ts ! i)"] a(2) n by simp
      ultimately show ?thesis using True by (simp add: st MemCall registered_inv_def)
    qed (use assms(1) in \<open>auto simp: st MemCall\<close>)
  next
    case (MemRun i)
    show ?thesis
    proof (cases "i < length ts")
      case True
      obtain t mgr' w' where m: "memory_move api (ts ! i, mgr, w) = (t, mgr', w')" by (metis prod.collapse)
      have "mt_phase (ts ! i) \<noteq> UnregisterLock ptr" using a(1) True by (simp add: list_all_length)
      note mv = memory_move_registered [OF m this]
      then have "list_all (\<lambda>t. mt_phase t \<noteq> UnregisterLock ptr) (ts[i := t])" using a(1) by (simp add: list_all_swap)
      moreover have "ptr \<in> fst ` set (gm_registered mgr')" if "list_ex (past_registration ptr) (ts[i := t])"
        using some [OF that] a(2) mv by (elim disjE) simp_all
      ultimately show ?thesis using True m by (simp add: st MemRun registered_inv_def)
    qed (use assms in \<open>simp add: st MemRun\<close>)
  qed
qed

interpretation memory_registered: scheduled "mem_event_step api" "\<lambda>e. \<not> unregisters ptr e" "registered_inv ptr"
  for api :: "'s client_api" and ptr :: u64
  by unfold_locales (rule registered_event_inv)

text \<open>No deregistration of the buffer fails as long as nobody asks for one.\<close>

lemma stuck_calls:
  "stuck (events (snd (w_get_descriptor api p n w))) = stuck (events w)"
  "stuck (events (snd (w_get_token api p n off w))) = stuck (events w)"
  "stuck (events (w_put_token api tok w)) = stuck (events w)"
  "stuck (events (snd (w_put_descriptor api p w))) =
     (if fst (w_put_descriptor api p w) = CU_OBJ_SUCCESS then stuck (events w) else add_mset p (stuck (events w)))"
  by (simp_all add: client_simps split: prod.split)

lemma memory_move_stuck:
  assumes "memory_move api (t, mgr, w) = (t', mgr', w')" "mt_phase t \<noteq> UnregisterLock ptr"
    and "ptr \<notin># stuck (events w)"
  shows "ptr \<notin># stuck (events w')"
proof (cases "mt_phase t")
  case (UnregisterLock p)
  then show ?thesis
    using assms stuck_calls(4) [of api p w]
    by (auto simp: memory_move_def UnregisterBuffer_def Let_def split: if_splits prod.splits)
next
  case (FetchToken p n off)
  then show ?thesis
    using assms stuck_calls(2) [of api p n off w] by (auto simp: memory_move_def Let_def split: if_splits prod.splits)
next
  case (RegisterLock p n)
  then show ?thesis
    using assms stuck_calls(1) [of api p n w]
    by (auto simp: memory_move_def RegisterBufferUnderLock_def Let_def split: if_splits prod.splits)
next
  case (EnsureLock p n off)
  then show ?thesis
    using assms stuck_calls(1) [of api p "n + off" w]
    by (auto simp: memory_move_def RegisterBufferUnderLock_def Let_def split: if_splits prod.splits)
qed (use assms stuck_calls(3) [of api "tok_ptr (mt_token t)" w] in
    \<open>auto simp: memory_move_def Token_Reset_def Token_Assign_def Let_def split: if_splits prod.splits\<close>)

definition unstuck_inv :: "u64 \<Rightarrow> 's mem_system \<Rightarrow> bool" where
  "unstuck_inv ptr st \<longleftrightarrow> registered_inv ptr st \<and> ptr \<notin># stuck (events (snd (snd st)))"

interpretation memory_unstuck: scheduled "mem_event_step api" "\<lambda>e. \<not> unregisters ptr e" "unstuck_inv ptr"
  for api :: "'s client_api" and ptr :: u64
proof (unfold_locales, goal_cases)
  case (1 st e)
  obtain ts mgr w where st: "st = (ts, mgr, w)" by (metis prod.collapse)
  have phase: "mt_phase t \<noteq> UnregisterLock ptr" if "t \<in> set ts" for t
    using 1(1) that by (auto simp: st unstuck_inv_def registered_inv_def list_all_iff)
  have "ptr \<notin># stuck (events (snd (snd (mem_event_step api e st))))"
  proof (cases e)
    case (MemRun i)
    obtain t mgr' w' where m: "memory_move api (ts ! i, mgr, w) = (t, mgr', w')" by (metis prod.collapse)
    then show ?thesis
      using memory_move_stuck [OF m] phase [of "ts ! i"] 1(1) by (auto simp: st MemRun unstuck_inv_def)
  qed (use 1(1) in \<open>auto simp: st unstuck_inv_def\<close>)
  then show ?case using registered_event_inv [of ptr st e api] 1 by (simp add: unstuck_inv_def)
qed

end
