(* ===== verification/Stretches.thy ===== *)
theory Stretches
  imports Prelude
begin

text \<open>
  Code cut into stretches against the code as a whole, as a locale: a move of one stretch keeps
  the result of what is left to do and leaves less to do, so that the moves without interruption
  come to an end, with the result of the whole. \<open>x\<close> is the thread with the state it works on.
\<close>

locale stretched =
  fixes move :: "'x \<Rightarrow> 'x"
    and remaining :: "'x \<Rightarrow> 'r"
    and left :: "'x \<Rightarrow> nat"
    and wf :: "'x \<Rightarrow> bool"
  assumes move_wf: "wf x \<Longrightarrow> wf (move x)"
    and move_remaining: "wf x \<Longrightarrow> remaining (move x) = remaining x"
    and move_left: "wf x \<Longrightarrow> left x \<noteq> 0 \<Longrightarrow> left (move x) < left x"
    and move_done: "left x = 0 \<Longrightarrow> move x = x"
begin

lemma moves_wf: "wf x \<Longrightarrow> wf ((move ^^ n) x)"
  by (induction n) (simp_all add: move_wf)

lemma moves_remaining: "wf x \<Longrightarrow> remaining ((move ^^ n) x) = remaining x"
  by (induction n) (simp_all add: move_remaining moves_wf)

lemma moves_left: "wf x \<Longrightarrow> left ((move ^^ n) x) \<le> left x - n"
proof (induction n)
  case (Suc n)
  let ?y = "(move ^^ n) x"
  show ?case
  proof (cases "left ?y = 0")
    case True
    then show ?thesis using move_done [OF True] by simp
  next
    case False
    then show ?thesis using Suc move_left [OF moves_wf [OF Suc.prems] False] by simp
  qed
qed simp

text \<open>Enough moves end it, with the result of the whole.\<close>

lemma alone:
  assumes "wf x" "left x \<le> n"
  shows "left ((move ^^ n) x) = 0" "remaining ((move ^^ n) x) = remaining x"
  using moves_left [OF assms(1), of n] assms(2) moves_remaining [OF assms(1)] by simp_all

end

end
