(* ===== verification/Put_Threads.thy ===== *)
theory Put_Threads
  imports Put_Client Memory_Threads Stretches
begin

text \<open>
  \<open>Client::PutObject\<close> (\<open>client/src/client.cpp\<close>) under several threads, cut where another thread can
  come between: one stretch makes one call into the RPC runtime, CUDA or the clock, or is one
  stretch of \<open>AcquireToken\<close> in the memory manager, which \<open>Memory_Threads\<close> provides. The generators
  of identifiers and of the jitter are thread-local in the code, so their draws need no stretch of
  their own. The lemmas show that a thread that is not interrupted does what the sequential
  \<open>PutObject\<close> does and that it needs at most 39 stretches.
\<close>

section \<open>Threads\<close>

text \<open>Where a thread is in \<open>PutObject\<close>, in the retry loop and in the attempt.\<close>

datatype put_phase =
    PutOutside
  | FixDeadline \<comment> \<open>before the reading of the clock that gives the deadline\<close>
  | TryClock \<comment> \<open>at the beginning of an attempt, before its reading of the clock\<close>
  | TryIds \<comment> \<open>before \<open>MakePutAttempt\<close>\<close>
  | TryOpen
  | TryToken \<comment> \<open>inside \<open>AcquireToken\<close>\<close>
  | TryPut
  | TryCopy \<comment> \<open>before the copy back for the checksum\<close>
  | TryAbort
  | TryEnd \<comment> \<open>before the end of the token's scope\<close>
  | Pause

text \<open>The variables of the call: the parameters, those of the loop and those of the attempt.\<close>

record put_thread =
  pt_phase :: put_phase
  pt_request :: PutObjectRequest
  pt_buffer :: ConstBufferView
  pt_out :: TransferOutcome
  pt_ok :: bool \<comment> \<open>the result of the attempt, and at the end of the method\<close>
  pt_deadline :: int
  pt_number :: int \<comment> \<open>the number of the attempt, from 1\<close>
  pt_try :: PutAttempt
  pt_grant :: SessionGrant
  pt_result :: GdsPutResult
  pt_mem :: mem_thread \<comment> \<open>the thread in the memory manager, with the attempt's token\<close>

text \<open>Entering the method: the two checks come before the first reading of the clock.\<close>

definition enter_put ::
  "Client \<Rightarrow> PutObjectRequest \<Rightarrow> ConstBufferView \<Rightarrow> TransferOutcome \<Rightarrow> put_thread \<Rightarrow> put_thread" where
  "enter_put c request buffer out t =
     (let t' = t\<lparr>pt_request := request, pt_buffer := buffer, pt_out := out, pt_ok := False\<rparr>;
          max_put = put_single_max_bytes (cl_options c)
      in if \<not> cl_initialized c then t'
         else if max_put \<noteq> 0 \<and> cbv_size buffer > max_put then t'
         else t'\<lparr>pt_phase := FixDeadline\<rparr>)"

text \<open>The end of an attempt in the retry loop: return, or pause before the next one.\<close>

definition end_try :: "bool \<Rightarrow> put_thread \<Rightarrow> put_thread" where
  "end_try ok t =
     t\<lparr>pt_phase := (if pt_number t < max_attempts default_policy \<and> \<not> ok then Pause else PutOutside), pt_ok := ok\<rparr>"

text \<open>One stretch of a thread in \<open>PutObject\<close>.\<close>

definition put_move ::
  "'s client_api \<Rightarrow> ClientOptions \<Rightarrow> RpcBase \<Rightarrow> RpcBase \<Rightarrow> put_thread \<times> 's mem_state \<Rightarrow>
   put_thread \<times> 's mem_state" where
  "put_move api opts meta chunk = (\<lambda>(t, mgr, w).
     case pt_phase t of
       PutOutside \<Rightarrow> (t, mgr, w)
     | FixDeadline \<Rightarrow>
         (let (now, w') = w_now api w
          in (t\<lparr>pt_phase := TryClock, pt_number := 1,
                pt_deadline := now + request_timeout opts * 1000000\<rparr>, mgr, w'))
     | TryClock \<Rightarrow>
         (let (now, w') = w_now api w
          in (if now \<ge> pt_deadline t then end_try False t else t\<lparr>pt_phase := TryIds\<rparr>, mgr, w'))
     | TryIds \<Rightarrow>
         (let (attempt, w') = MakePutAttempt (w_rng api) opts (pt_request t) w
          in (t\<lparr>pt_phase := TryOpen, pt_try := attempt\<rparr>, mgr, w'))
     | TryOpen \<Rightarrow>
         (let (opened, grant, w') = MetaRpc_OpenSession api meta (pt_try t) \<lparr>sg_ticket = []\<rparr> w
          in (if \<not> opened then end_try False t
              else t\<lparr>pt_phase := TryToken, pt_grant := grant,
                     pt_mem := enter_memory (MemAcquire (cbv_data (pt_buffer t)) (cbv_size (pt_buffer t)) 0)
                       (pt_mem t)\<rparr>, mgr, w'))
     | TryToken \<Rightarrow>
         if mt_phase (pt_mem t) = MemOutside
         then (t\<lparr>pt_phase := (if mt_ok (pt_mem t) then TryPut else TryAbort)\<rparr>, mgr, w)
         else
           (let (m, mgr', w') = memory_move api (pt_mem t, mgr, w) in (t\<lparr>pt_mem := m\<rparr>, mgr', w'))
     | TryPut \<Rightarrow>
         (let (ok, result, w') = ChunkRpc_Put api chunk (pt_try t) (pt_grant t)
                (Token_str api (mt_token (pt_mem t)) w) (cbv_size (pt_buffer t))
                \<lparr>gpr_etag = [], gpr_crc32c = 0\<rparr> w
          in (if \<not> ok then t\<lparr>pt_phase := TryAbort\<rparr>
              else t\<lparr>pt_phase := (if verify_crc32c opts then TryCopy else TryEnd), pt_ok := True,
                     pt_result := result,
                     pt_out := MakeTransferOutcome (pt_try t) result (pt_buffer t)\<rparr>, mgr, w'))
     | TryCopy \<Rightarrow>
         (let ((err, host), w') = w_memcpy api (cbv_data (pt_buffer t)) (cbv_size (pt_buffer t)) w
          in (if err \<noteq> cudaSuccess then t\<lparr>pt_phase := TryAbort\<rparr>
              else if cl_Crc32c host = gpr_crc32c (pt_result t) then t\<lparr>pt_phase := TryEnd, pt_ok := True\<rparr>
              else t\<lparr>pt_phase := TryAbort\<rparr>, mgr, w'))
     | TryAbort \<Rightarrow>
         (t\<lparr>pt_phase := TryEnd, pt_ok := False\<rparr>, mgr,
          MetaRpc_AbortSession api meta (pa_session_id (pt_try t)) (pa_timeout (pt_try t)) w)
     | TryEnd \<Rightarrow>
         (let (m, mgr', w') = memory_move api (enter_memory MemDrop (pt_mem t), mgr, w)
          in (end_try (pt_ok t) (t\<lparr>pt_mem := m\<rparr>), mgr', w'))
     | Pause \<Rightarrow>
         (let (m, w1) = w_jitter api w
          in (t\<lparr>pt_phase := TryClock, pt_number := pt_number t + 1\<rparr>, mgr,
              w_sleep api (jittered (capped_backoff default_policy (pt_number t)) m) w1)))"

text \<open>
  A stretch of a client's method; \<open>None\<close> if it follows a null pointer.
\<close>

definition put_step ::
  "'s client_api \<Rightarrow> Client \<Rightarrow> put_thread \<times> GdsMemoryManager option \<times> 's world \<Rightarrow>
   (put_thread \<times> GdsMemoryManager option \<times> 's world) option" where
  "put_step api c = (\<lambda>(t, static, w).
     if pt_phase t = PutOutside then Some (t, static, w)
     else
       (case client_parts c static of
          None \<Rightarrow> None
        | Some (meta, chunk, mgr) \<Rightarrow>
            (let (t', mgr', w') = put_move api (cl_options c) meta chunk (t, mgr, w)
             in Some (t', Some mgr', w'))))"

section \<open>What is left to do\<close>

text \<open>
  What remains of \<open>AcquireToken\<close>, of the attempt and of the whole method from where the thread
  is, as the sequential definitions have it.
\<close>

definition acquire_rest :: "'s client_api \<Rightarrow> mem_thread \<Rightarrow> 's mem_state \<Rightarrow> bool \<times> Token \<times> 's mem_state" where
  "acquire_rest api m = (\<lambda>(mgr, w).
     let ensure = (\<lambda>ptr sz off. let (ok, st) = RegisterBufferUnderLock api ptr (sz + off) (mgr, w)
           in if ok then finish_acquire api ptr sz off (mt_token m) st else (False, mt_token m, st))
     in case mt_phase m of
          LookupLock ptr sz off \<Rightarrow>
            if map_of (gm_registered mgr) ptr = None then ensure ptr sz off
            else finish_acquire api ptr sz off (mt_token m) (mgr, w)
        | EnsureLock ptr sz off \<Rightarrow> ensure ptr sz off
        | FetchToken ptr sz off \<Rightarrow> finish_acquire api ptr sz off (mt_token m) (mgr, w)
        | StoreToken tok \<Rightarrow> (True, tok, mgr, snd (Token_Reset api (mt_token m) w))
        | _ \<Rightarrow> (mt_ok m, mt_token m, mgr, w))"

text \<open>What is done with the token, and the end of its scope.\<close>

definition with_token ::
  "'s client_api \<Rightarrow> ClientOptions \<Rightarrow> RpcBase \<Rightarrow> RpcBase \<Rightarrow> put_thread \<Rightarrow>
   bool \<times> Token \<times> 's mem_state \<Rightarrow> bool \<times> TransferOutcome \<times> 's mem_state" where
  "with_token api opts meta chunk t = (\<lambda>(got, tok, mgr, w).
     if \<not> got then (False, pt_out t, mgr, Token_end api tok
       (MetaRpc_AbortSession api meta (pa_session_id (pt_try t)) (pa_timeout (pt_try t)) w))
     else
       (let (ok, out, w') = PutOnce_transfer api opts meta chunk (pt_try t) (pt_grant t) tok (pt_buffer t) (pt_out t, w)
        in (ok, out, mgr, Token_end api tok w')))"

definition try_rest ::
  "'s client_api \<Rightarrow> ClientOptions \<Rightarrow> RpcBase \<Rightarrow> RpcBase \<Rightarrow> put_thread \<Rightarrow> 's mem_state \<Rightarrow>
   bool \<times> TransferOutcome \<times> 's mem_state" where
  "try_rest api opts meta chunk t = (\<lambda>(mgr, w).
     let tok = mt_token (pt_mem t); buf = pt_buffer t;
         aborted = (\<lambda>w. (False, pt_out t, mgr, Token_end api tok
           (MetaRpc_AbortSession api meta (pa_session_id (pt_try t)) (pa_timeout (pt_try t)) w)))
     in case pt_phase t of
          TryClock \<Rightarrow> put_attempt api opts meta chunk (pt_request t) buf (pt_deadline t) (pt_out t, mgr, w)
        | TryIds \<Rightarrow> PutOnce api opts meta chunk (pt_request t) buf (pt_out t, mgr, w)
        | TryOpen \<Rightarrow>
            (let (opened, grant, w') = MetaRpc_OpenSession api meta (pt_try t) \<lparr>sg_ticket = []\<rparr> w
             in if \<not> opened then (False, pt_out t, mgr, w')
                else with_token api opts meta chunk (t\<lparr>pt_grant := grant\<rparr>)
                  (AcquireToken api (cbv_data buf) (cbv_size buf) 0 tok (mgr, w')))
        | TryToken \<Rightarrow> with_token api opts meta chunk t (acquire_rest api (pt_mem t) (mgr, w))
        | TryPut \<Rightarrow> with_token api opts meta chunk t (True, tok, mgr, w)
        | TryCopy \<Rightarrow>
            (let ((err, host), w') = w_memcpy api (cbv_data buf) (cbv_size buf) w
             in if err \<noteq> cudaSuccess \<or> cl_Crc32c host \<noteq> gpr_crc32c (pt_result t) then aborted w'
                else (True, pt_out t, mgr, Token_end api tok w'))
        | TryAbort \<Rightarrow> aborted w
        | _ \<Rightarrow> (pt_ok t, pt_out t, mgr, Token_end api tok w))"

definition put_rest ::
  "'s client_api \<Rightarrow> ClientOptions \<Rightarrow> RpcBase \<Rightarrow> RpcBase \<Rightarrow> put_thread \<times> 's mem_state \<Rightarrow>
   bool \<times> TransferOutcome \<times> 's mem_state" where
  "put_rest api opts meta chunk = (\<lambda>(t, mgr, w).
     let fn = put_attempt api opts meta chunk (pt_request t) (pt_buffer t);
         loop = retry_loop default_policy (put_jitter api) (put_sleep api) (fn (pt_deadline t)) (pt_number t)
     in case pt_phase t of
          PutOutside \<Rightarrow> (pt_ok t, pt_out t, mgr, w)
        | FixDeadline \<Rightarrow>
            (let (now, w') = w_now api w
             in RetryIfRetryable default_policy (put_jitter api) (put_sleep api)
                  (fn (now + request_timeout opts * 1000000)) (pt_out t, mgr, w'))
        | Pause \<Rightarrow> loop False (pt_out t, mgr, w)
        | _ \<Rightarrow> (let (ok, st) = try_rest api opts meta chunk t (mgr, w) in loop ok st))"

definition mem_left :: "mem_thread \<Rightarrow> nat" where
  "mem_left m = (case mt_phase m of
     LookupLock p n off \<Rightarrow> 5 | EnsureLock p n off \<Rightarrow> 4 | FetchToken p n off \<Rightarrow> 3
   | MemOutside \<Rightarrow> 1 | _ \<Rightarrow> 2)"

definition put_left :: "put_thread \<Rightarrow> nat" where
  "put_left t =
     (let later = 13 * nat (max_attempts default_policy - pt_number t)
      in case pt_phase t of
           PutOutside \<Rightarrow> 0 | FixDeadline \<Rightarrow> 39 | TryClock \<Rightarrow> later + 12 | TryIds \<Rightarrow> later + 11
         | TryOpen \<Rightarrow> later + 10 | TryToken \<Rightarrow> later + 4 + mem_left (pt_mem t) | TryPut \<Rightarrow> later + 4
         | TryCopy \<Rightarrow> later + 3 | TryAbort \<Rightarrow> later + 2 | TryEnd \<Rightarrow> later + 1 | Pause \<Rightarrow> later)"

text \<open>A thread holds a token only between \<open>AcquireToken\<close> and the end of the token's scope.\<close>

definition mem_idle :: "mem_thread \<Rightarrow> bool" where
  "mem_idle m \<longleftrightarrow> mt_phase m = MemOutside \<and> mt_token m = null_token"

definition acquiring :: "mem_thread \<Rightarrow> bool" where
  "acquiring m \<longleftrightarrow> (case mt_phase m of RegisterLock p n \<Rightarrow> False | UnregisterLock p \<Rightarrow> False | DropToken \<Rightarrow> False | _ \<Rightarrow> True)"

definition put_wf :: "put_thread \<Rightarrow> bool" where
  "put_wf t \<longleftrightarrow>
     (pt_phase t \<in> {PutOutside, FixDeadline, TryClock, TryIds, TryOpen, Pause} \<longrightarrow> mem_idle (pt_mem t)) \<and>
     (pt_phase t = TryToken \<longrightarrow> acquiring (pt_mem t)) \<and>
     (pt_phase t \<in> {TryPut, TryCopy, TryAbort, TryEnd} \<longrightarrow> mt_phase (pt_mem t) = MemOutside) \<and>
     (pt_phase t \<noteq> PutOutside \<and> pt_phase t \<noteq> FixDeadline \<longrightarrow> 1 \<le> pt_number t) \<and>
     (pt_phase t = Pause \<longrightarrow> pt_number t < max_attempts default_policy)"

section \<open>A thread alone\<close>

lemma three_attempts [simp]: "max_attempts default_policy = 3"
  by (simp add: default_policy_def)

text \<open>Inside \<open>AcquireToken\<close>.\<close>

lemma acquire_move:
  assumes "acquiring m" "mt_phase m \<noteq> MemOutside"
  shows "case memory_move api (m, st) of (m', st') \<Rightarrow>
    acquiring m' \<and> mem_left m' < mem_left m \<and> acquire_rest api m' st' = acquire_rest api m st"
proof -
  obtain mgr w where st: "st = (mgr, w)" by (cases st)
  have keep: "(leave_memory ok m)\<lparr>mt_token := mt_token m\<rparr> = leave_memory ok m" for ok
    by (simp add: leave_memory_def)
  show ?thesis
    using assms
    by (cases "mt_phase m")
      (auto simp: st memory_move_def acquiring_def mem_left_def acquire_rest_def finish_acquire_def leave_memory_def
        Token_Assign_def Token_Reset_def Let_def keep split: prod.splits)
qed

lemma acquire_entered:
  assumes "mem_idle m"
  shows "acquiring (enter_memory (MemAcquire p n off) m)" "mem_left (enter_memory (MemAcquire p n off) m) \<le> 5"
    "acquire_rest api (enter_memory (MemAcquire p n off) m) st = AcquireToken api p n off (mt_token m) st"
  using assms
  by (cases st; auto simp: mem_idle_def acquiring_def enter_memory_def mem_left_def acquire_rest_def AcquireToken_finish Let_def
      split: prod.splits)+

lemma token_dropped:
  assumes "mt_phase m = MemOutside"
  shows "memory_move api (enter_memory MemDrop m, mgr, w) = (m\<lparr>mt_token := null_token\<rparr>, mgr, Token_end api (mt_token m) w)"
proof -
  have "m\<lparr>mt_phase := MemOutside, mt_token := null_token\<rparr> = m\<lparr>mt_token := null_token\<rparr>"
    using assms by (cases m) simp
  then show ?thesis by (simp add: enter_memory_def move_drop)
qed

lemma idle_dropped: "mt_phase m = MemOutside \<Longrightarrow> mem_idle (m\<lparr>mt_token := null_token\<rparr>)"
  by (simp add: mem_idle_def)

lemma put_move_wf:
  assumes "put_wf t" "put_move api opts meta chunk (t, st) = (t', st')"
  shows "put_wf t'"
proof -
  obtain mgr w where st: "st = (mgr, w)" by (cases st)
  show ?thesis
  proof (cases "pt_phase t")
    case TryToken
    obtain m mgr1 w1 where m: "memory_move api (pt_mem t, mgr, w) = (m, mgr1, w1)" by (metis prod.collapse)
    show ?thesis
      using assms TryToken acquire_move [of "pt_mem t" api "(mgr, w)"]
      by (auto simp: put_wf_def put_move_def st m split: if_splits)
  next
    case TryOpen
    then show ?thesis
      using assms acquire_entered(1) by (auto simp: put_wf_def put_move_def st end_try_def Let_def split: if_splits prod.splits)
  next
    case TryEnd
    then have m: "mt_phase (pt_mem t) = MemOutside" using assms(1) by (simp add: put_wf_def)
    show ?thesis
      using assms TryEnd idle_dropped [OF m] m
      by (auto simp: put_wf_def put_move_def st end_try_def Let_def token_dropped [OF m] split: if_splits)
  qed (use assms in \<open>auto simp: put_wf_def put_move_def st end_try_def Let_def split: if_splits prod.splits\<close>)
qed

lemma later_left:
  "1 \<le> n \<Longrightarrow> n < 3 \<Longrightarrow> 13 * nat (3 - (n + 1)) + 12 < 13 * nat (3 - n)" for n :: int
  by linarith

lemma put_move_left:
  assumes "put_wf t" "pt_phase t \<noteq> PutOutside" "put_move api opts meta chunk (t, st) = (t', st')"
  shows "put_left t' < put_left t"
proof -
  obtain mgr w where st: "st = (mgr, w)" by (cases st)
  show ?thesis
  proof (cases "pt_phase t")
    case TryToken
    obtain m mgr1 w1 where m: "memory_move api (pt_mem t, mgr, w) = (m, mgr1, w1)" by (metis prod.collapse)
    show ?thesis
      using assms TryToken acquire_move [of "pt_mem t" api "(mgr, w)"]
      by (auto simp: put_wf_def put_move_def put_left_def mem_left_def [of "pt_mem t"] st m Let_def split: if_splits)
  next
    case TryOpen
    then show ?thesis
      using assms acquire_entered(2) [of "pt_mem t" "cbv_data (pt_buffer t)" "cbv_size (pt_buffer t)" 0]
      by (auto simp: put_wf_def put_move_def put_left_def st end_try_def Let_def split: if_splits prod.splits)
  next
    case TryEnd
    then have m: "mt_phase (pt_mem t) = MemOutside" using assms(1) by (simp add: put_wf_def)
    show ?thesis
      using assms TryEnd by (auto simp: put_move_def put_left_def st end_try_def Let_def token_dropped [OF m])
  next
    case Pause
    then show ?thesis
      using assms later_left [of "pt_number t"] by (auto simp: put_wf_def put_move_def put_left_def st Let_def split: prod.splits)
  qed (use assms in \<open>auto simp: put_wf_def put_move_def put_left_def st end_try_def Let_def split: if_splits prod.splits\<close>)
qed

lemma mem_left_bounds: "1 \<le> mem_left m" "mem_left m \<le> 5"
  by (simp_all add: mem_left_def split: mem_phase.split)

lemma put_left_le:
  assumes "put_wf t"
  shows "put_left t \<le> 39"
proof -
  have "13 * nat (3 - pt_number t) \<le> 26" if "1 \<le> pt_number t" using that by linarith
  then show ?thesis
    using assms mem_left_bounds(2) [of "pt_mem t"] by (cases "pt_phase t") (simp_all add: put_left_def put_wf_def Let_def)
qed

lemma put_left_0: "put_wf t \<Longrightarrow> put_left t = 0 \<longleftrightarrow> pt_phase t = PutOutside"
  using mem_left_bounds(1) [of "pt_mem t"] by (cases "pt_phase t") (simp_all add: put_left_def put_wf_def Let_def)

text \<open>What a stretch leaves to do has the same result; first the end of an attempt.\<close>

lemma end_try_rest:
  "put_rest api opts meta chunk (end_try ok t, mgr, w) =
     retry_loop default_policy (put_jitter api) (put_sleep api)
       (put_attempt api opts meta chunk (pt_request t) (pt_buffer t) (pt_deadline t)) (pt_number t) ok (pt_out t, mgr, w)"
  by (cases ok) (simp_all add: put_rest_def end_try_def Let_def retry_loop.simps [of default_policy _ _ _ "pt_number t" True]
      retry_loop.simps [of default_policy _ _ _ "pt_number t" False])

lemma put_rest_try:
  assumes "pt_phase t \<in> {TryClock, TryIds, TryOpen, TryToken, TryPut, TryCopy, TryAbort, TryEnd}"
  shows "put_rest api opts meta chunk (t, st) =
    (let (ok, st) = try_rest api opts meta chunk t st
     in retry_loop default_policy (put_jitter api) (put_sleep api)
          (put_attempt api opts meta chunk (pt_request t) (pt_buffer t) (pt_deadline t)) (pt_number t) ok st)"
  using assms by (cases st) (auto simp: put_rest_def Let_def)

lemma put_rest_end:
  assumes "pt_phase t \<in> {TryClock, TryIds, TryOpen, TryToken, TryPut, TryCopy, TryAbort, TryEnd}"
    and "try_rest api opts meta chunk t st = (ok, pt_out t, st')"
  shows "put_rest api opts meta chunk (end_try ok t, st') = put_rest api opts meta chunk (t, st)"
  unfolding put_rest_try [OF assms(1)] assms(2) by (cases st') (simp add: end_try_rest)

lemma put_rest_on:
  assumes "pt_phase t \<in> {TryClock, TryIds, TryOpen, TryToken, TryPut, TryCopy, TryAbort, TryEnd}"
    and "pt_phase t' \<in> {TryClock, TryIds, TryOpen, TryToken, TryPut, TryCopy, TryAbort, TryEnd}"
    and "pt_request t' = pt_request t" "pt_buffer t' = pt_buffer t" "pt_deadline t' = pt_deadline t" "pt_number t' = pt_number t"
    and "try_rest api opts meta chunk t' st' = try_rest api opts meta chunk t st"
  shows "put_rest api opts meta chunk (t', st') = put_rest api opts meta chunk (t, st)"
  unfolding put_rest_try [OF assms(1)] put_rest_try [OF assms(2)] assms(3-) ..

lemma put_rest_start:
  assumes "pt_phase t = FixDeadline" "put_move api opts meta chunk (t, st) = (t', st')"
  shows "put_rest api opts meta chunk (t', st') = put_rest api opts meta chunk (t, st)"
proof -
  obtain mgr w where st: "st = (mgr, w)" by (cases st)
  obtain now w1 where "w_now api w = (now, w1)" by force
  then show ?thesis
    using assms by (auto simp: st put_move_def put_rest_def try_rest_def RetryIfRetryable_def Let_def)
qed

lemma put_rest_pause:
  assumes "pt_phase t = Pause" "pt_number t < 3" "put_move api opts meta chunk (t, st) = (t', st')"
  shows "put_rest api opts meta chunk (t', st') = put_rest api opts meta chunk (t, st)"
proof -
  obtain mgr w where st: "st = (mgr, w)" by (cases st)
  obtain m w1 where "w_jitter api w = (m, w1)" by force
  then show ?thesis
    using assms by (auto simp: st put_move_def put_rest_def try_rest_def retry_loop.simps [of default_policy _ _ _ "pt_number t" False]
        retry_pause_def put_jitter_def put_sleep_def Let_def)
qed

lemma put_rest_clock:
  assumes "pt_phase t = TryClock" "put_move api opts meta chunk (t, st) = (t', st')"
  shows "put_rest api opts meta chunk (t', st') = put_rest api opts meta chunk (t, st)"
proof -
  obtain mgr w where st: "st = (mgr, w)" by (cases st)
  obtain now w1 where n: "w_now api w = (now, w1)" by force
  show ?thesis
  proof (cases "pt_deadline t \<le> now")
    case True
    have r: "try_rest api opts meta chunk t st = (False, pt_out t, mgr, w1)"
      using assms(1) n True by (simp add: try_rest_def put_attempt_def st)
    show ?thesis using put_rest_end [OF _ r] assms n True by (auto simp: put_move_def st)
  next
    case False
    then have t': "t' = t\<lparr>pt_phase := TryIds\<rparr>" "st' = (mgr, w1)" using assms n by (simp_all add: put_move_def st)
    show ?thesis
      by (rule put_rest_on) (use assms(1) n False in \<open>simp_all add: t' try_rest_def put_attempt_def st\<close>)
  qed
qed

lemma put_rest_ids:
  assumes "pt_phase t = TryIds" "mem_idle (pt_mem t)" "put_move api opts meta chunk (t, st) = (t', st')"
  shows "put_rest api opts meta chunk (t', st') = put_rest api opts meta chunk (t, st)"
proof -
  obtain mgr w where st: "st = (mgr, w)" by (cases st)
  obtain a w1 where mk: "MakePutAttempt (w_rng api) opts (pt_request t) w = (a, w1)" by force
  have t': "t' = t\<lparr>pt_phase := TryOpen, pt_try := a\<rparr>" "st' = (mgr, w1)" using assms mk by (simp_all add: put_move_def st)
  show ?thesis
    by (rule put_rest_on)
      (use assms(1,2) mk in \<open>simp_all add: t' try_rest_def st PutOnce_def with_token_def mem_idle_def Let_def case_prod_unfold\<close>)
qed

lemma with_token_mem [simp]:
  "with_token api opts meta chunk (t\<lparr>pt_mem := m\<rparr>) = with_token api opts meta chunk t"
  "with_token api opts meta chunk (t\<lparr>pt_phase := ph, pt_grant := g\<rparr>) =
     with_token api opts meta chunk (t\<lparr>pt_grant := g\<rparr>)"
  by (simp_all add: with_token_def fun_eq_iff split: prod.split)

lemma put_rest_open:
  assumes "pt_phase t = TryOpen" "mem_idle (pt_mem t)" "put_move api opts meta chunk (t, st) = (t', st')"
  shows "put_rest api opts meta chunk (t', st') = put_rest api opts meta chunk (t, st)"
proof -
  obtain mgr w where st: "st = (mgr, w)" by (cases st)
  obtain opened g w1 where o: "MetaRpc_OpenSession api meta (pt_try t) \<lparr>sg_ticket = []\<rparr> w = (opened, g, w1)"
    by (metis prod.collapse)
  show ?thesis
  proof (cases opened)
    case False
    have r: "try_rest api opts meta chunk t st = (False, pt_out t, mgr, w1)"
      using assms(1) o False by (simp add: try_rest_def st)
    show ?thesis using put_rest_end [OF _ r] assms o False by (auto simp: put_move_def st)
  next
    case True
    let ?m = "enter_memory (MemAcquire (cbv_data (pt_buffer t)) (cbv_size (pt_buffer t)) 0) (pt_mem t)"
    have t': "t' = t\<lparr>pt_phase := TryToken, pt_grant := g, pt_mem := ?m\<rparr>" "st' = (mgr, w1)"
      using assms o True by (simp_all add: put_move_def st)
    show ?thesis
      by (rule put_rest_on)
        (use assms(1) o True acquire_entered(3) [OF assms(2), where api = api] in \<open>simp_all add: t' try_rest_def st Let_def\<close>)
  qed
qed

lemma put_rest_token:
  assumes "pt_phase t = TryToken" "acquiring (pt_mem t)" "put_move api opts meta chunk (t, st) = (t', st')"
  shows "put_rest api opts meta chunk (t', st') = put_rest api opts meta chunk (t, st)"
proof -
  obtain mgr w where st: "st = (mgr, w)" by (cases st)
  show ?thesis
  proof (cases "mt_phase (pt_mem t) = MemOutside")
    case True
    then have t': "t' = t\<lparr>pt_phase := (if mt_ok (pt_mem t) then TryPut else TryAbort)\<rparr>" "st' = st"
      using assms by (simp_all add: put_move_def st)
    show ?thesis
      by (rule put_rest_on)
        (use assms(1) True in \<open>simp_all add: t' try_rest_def st with_token_def acquire_rest_def Let_def\<close>)
  next
    case False
    obtain m mgr1 w1 where m: "memory_move api (pt_mem t, mgr, w) = (m, mgr1, w1)" by (metis prod.collapse)
    then have t': "t' = t\<lparr>pt_mem := m\<rparr>" "st' = (mgr1, w1)" using assms False by (simp_all add: put_move_def st)
    show ?thesis
      by (rule put_rest_on)
        (use assms(1) acquire_move [OF assms(2) False, of api "(mgr, w)"] m in \<open>simp_all add: t' try_rest_def st\<close>)
  qed
qed

lemma put_rest_put:
  assumes "pt_phase t = TryPut" "put_move api opts meta chunk (t, st) = (t', st')"
  shows "put_rest api opts meta chunk (t', st') = put_rest api opts meta chunk (t, st)"
proof -
  obtain mgr w where st: "st = (mgr, w)" by (cases st)
  obtain ok r w1 where p: "ChunkRpc_Put api chunk (pt_try t) (pt_grant t) (Token_str api (mt_token (pt_mem t)) w)
      (cbv_size (pt_buffer t)) \<lparr>gpr_etag = [], gpr_crc32c = 0\<rparr> w = (ok, r, w1)" by (metis prod.collapse)
  have t': "t' = (if \<not> ok then t\<lparr>pt_phase := TryAbort\<rparr>
      else t\<lparr>pt_phase := (if verify_crc32c opts then TryCopy else TryEnd), pt_ok := True,
             pt_result := r, pt_out := MakeTransferOutcome (pt_try t) r (pt_buffer t)\<rparr>)" "st' = (mgr, w1)"
    using assms p by (auto simp: put_move_def st)
  show ?thesis
    by (rule put_rest_on)
      (use assms(1) p in \<open>simp_all add: t' try_rest_def st with_token_def PutOnce_transfer_def Let_def case_prod_unfold\<close>)
qed

lemma put_rest_copy:
  assumes "pt_phase t = TryCopy" "put_move api opts meta chunk (t, st) = (t', st')"
  shows "put_rest api opts meta chunk (t', st') = put_rest api opts meta chunk (t, st)"
proof -
  obtain mgr w where st: "st = (mgr, w)" by (cases st)
  obtain err host w1 where c: "w_memcpy api (cbv_data (pt_buffer t)) (cbv_size (pt_buffer t)) w = ((err, host), w1)"
    by (metis prod.collapse)
  have t': "t' = (if err \<noteq> cudaSuccess then t\<lparr>pt_phase := TryAbort\<rparr>
      else if cl_Crc32c host = gpr_crc32c (pt_result t) then t\<lparr>pt_phase := TryEnd, pt_ok := True\<rparr>
      else t\<lparr>pt_phase := TryAbort\<rparr>)" "st' = (mgr, w1)"
    using assms c by (auto simp: put_move_def st)
  show ?thesis
    by (rule put_rest_on) (use assms(1) c in \<open>simp_all add: t' try_rest_def st Let_def\<close>)
qed

lemma put_rest_abort:
  assumes "pt_phase t = TryAbort" "put_move api opts meta chunk (t, st) = (t', st')"
  shows "put_rest api opts meta chunk (t', st') = put_rest api opts meta chunk (t, st)"
proof -
  obtain mgr w where st: "st = (mgr, w)" by (cases st)
  have t': "t' = t\<lparr>pt_phase := TryEnd, pt_ok := False\<rparr>"
    "st' = (mgr, MetaRpc_AbortSession api meta (pa_session_id (pt_try t)) (pa_timeout (pt_try t)) w)"
    using assms by (simp_all add: put_move_def st)
  show ?thesis by (rule put_rest_on) (use assms(1) in \<open>simp_all add: t' try_rest_def st Let_def\<close>)
qed

lemma put_rest_drop:
  assumes "pt_phase t = TryEnd" "mt_phase (pt_mem t) = MemOutside" "put_move api opts meta chunk (t, st) = (t', st')"
  shows "put_rest api opts meta chunk (t', st') = put_rest api opts meta chunk (t, st)"
proof -
  obtain mgr w where st: "st = (mgr, w)" by (cases st)
  let ?t1 = "t\<lparr>pt_mem := (pt_mem t)\<lparr>mt_token := null_token\<rparr>\<rparr>" and ?w1 = "Token_end api (mt_token (pt_mem t)) w"
  have t': "t' = end_try (pt_ok t) ?t1" "st' = (mgr, ?w1)"
    using assms by (simp_all add: put_move_def st token_dropped [OF assms(2)])
  have "try_rest api opts meta chunk t st = (pt_ok t, pt_out t, mgr, ?w1)"
    using assms(1) by (simp add: try_rest_def st Let_def)
  then show ?thesis
    using assms(1) by (simp add: t' end_try_rest put_rest_try)
qed

text \<open>Every stretch, and so the thread alone.\<close>

lemma put_move_rest:
  assumes "put_wf t" "put_move api opts meta chunk (t, st) = (t', st')"
  shows "put_rest api opts meta chunk (t', st') = put_rest api opts meta chunk (t, st)"
proof (cases "pt_phase t")
  case PutOutside
  then show ?thesis using assms(2) by (cases st) (simp add: put_move_def)
qed (use assms in \<open>simp_all add: put_wf_def put_rest_start put_rest_clock put_rest_ids put_rest_open put_rest_token
    put_rest_put put_rest_copy put_rest_abort put_rest_drop put_rest_pause\<close>)

interpretation put_stretches: stretched "put_move api opts meta chunk" "put_rest api opts meta chunk"
  "\<lambda>(t, st). if put_wf t then put_left t else if pt_phase t = PutOutside then 0 else 1" "\<lambda>(t, st). put_wf t"
  for api :: "'s client_api" and opts meta chunk
proof (unfold_locales, goal_cases)
  case (1 x)
  then show ?case using put_move_wf by (cases x; cases "put_move api opts meta chunk x") fastforce
next
  case (2 x)
  then show ?case using put_move_rest by (cases x; cases "put_move api opts meta chunk x") fastforce
next
  case (3 x)
  obtain t st where x: "x = (t, st)" by (cases x)
  obtain t' st' where m: "put_move api opts meta chunk (t, st) = (t', st')" by (metis surj_pair)
  have "put_wf t" using 3 by (simp add: x)
  then show ?case using 3 put_move_left [OF _ _ m] put_move_wf [OF _ m] by (simp add: x m put_left_0)
next
  case (4 x)
  then have "pt_phase (fst x) = PutOutside" using put_left_0 by (cases x) (auto split: if_splits)
  then show ?case by (cases x) (auto simp: put_move_def)
qed

text \<open>A thread that has not called anything yet, and its stretches without interruption.\<close>

definition new_put_thread :: put_thread where
  "new_put_thread = \<lparr>pt_phase = PutOutside, pt_request = default_put_request,
     pt_buffer = \<lparr>cbv_data = 0, cbv_size = 0\<rparr>,
     pt_out = \<lparr>to_bytes_transferred = 0, to_request_id = [], to_session_id = [], to_etag = [], to_crc32c = 0\<rparr>,
     pt_ok = False, pt_deadline = 0, pt_number = 0,
     pt_try = \<lparr>pa_timeout = 30000, pa_bucket = [], pa_key = [], pa_length = None, pa_request_id = [], pa_session_id = []\<rparr>,
     pt_grant = \<lparr>sg_ticket = []\<rparr>, pt_result = \<lparr>gpr_etag = [], gpr_crc32c = 0\<rparr>, pt_mem = idle_mem_thread\<rparr>"

fun put_alone ::
  "'s client_api \<Rightarrow> Client \<Rightarrow> nat \<Rightarrow> put_thread \<times> GdsMemoryManager option \<times> 's world \<Rightarrow>
   (put_thread \<times> GdsMemoryManager option \<times> 's world) option" where
  "put_alone api c 0 x = Some x"
| "put_alone api c (Suc n) x = Option.bind (put_step api c x) (put_alone api c n)"

lemma put_step_move:
  assumes "client_parts c (Some mgr) = Some (meta, chunk, mgr)"
  shows "put_step api c (t, Some mgr, w) =
    (case put_move api (cl_options c) meta chunk (t, mgr, w) of (t', mgr', w') \<Rightarrow> Some (t', Some mgr', w'))"
  using assms by (simp add: put_step_def put_move_def)

lemma parts_any_manager:
  "client_parts c (Some mgr) = Some (meta, chunk, mgr) \<Longrightarrow> client_parts c (Some mgr') = Some (meta, chunk, mgr')"
  by (auto simp: client_parts_def split: option.splits if_splits)

lemma put_alone_moves:
  assumes "client_parts c (Some mgr) = Some (meta, chunk, mgr)"
  shows "put_alone api c n (t, Some mgr, w) =
    (case (put_move api (cl_options c) meta chunk ^^ n) (t, mgr, w) of (t', mgr', w') \<Rightarrow> Some (t', Some mgr', w'))"
  using assms
proof (induction n arbitrary: t mgr w)
  case (Suc n)
  obtain t1 mgr1 w1 where m: "put_move api (cl_options c) meta chunk (t, mgr, w) = (t1, mgr1, w1)" by (metis prod.collapse)
  show ?case
    using Suc.IH [OF parts_any_manager [OF Suc.prems]]
    by (simp add: put_step_move [OF Suc.prems] m funpow_swap1)
qed simp

lemma put_alone_outside: "pt_phase t = PutOutside \<Longrightarrow> put_alone api c n (t, static, w) = Some (t, static, w)"
  by (induction n) (simp_all add: put_step_def)

lemma enter_put_wf: "put_wf t \<Longrightarrow> pt_phase t = PutOutside \<Longrightarrow> put_wf (enter_put c rq buf out t)"
  by (simp add: put_wf_def enter_put_def Let_def)

lemma new_put_wf [simp]: "put_wf new_put_thread" "pt_phase new_put_thread = PutOutside"
  "pt_mem new_put_thread = idle_mem_thread"
  by (simp_all add: put_wf_def new_put_thread_def mem_idle_def idle_mem_thread_def)

lemma client_parts_is: "client_parts c static = Some (meta, chunk, mgr) \<Longrightarrow> static = Some mgr"
  by (auto simp: client_parts_def split: option.splits if_splits)

text \<open>The whole method from its entry, as the sequential definition has it.\<close>

lemma PutObject_rest:
  assumes "client_parts c (Some mgr) = Some (meta, chunk, mgr)" "pt_phase t = PutOutside"
  shows "PutObject api c rq buf out (Some mgr, w) =
    (case put_rest api (cl_options c) meta chunk (enter_put c rq buf out t, mgr, w) of
       (ok, out', mgr', w') \<Rightarrow> Some (ok, out', Some mgr', w'))"
proof -
  obtain now w1 where "w_now api w = (now, w1)" by force
  then show ?thesis
    using assms by (simp add: PutObject_def put_rest_def enter_put_def Let_def case_prod_unfold)
qed

lemma put_alone_PutObject:
  assumes "put_wf t" "pt_phase t = PutOutside"
  shows "map_option (\<lambda>(t', static', w'). (pt_phase t', pt_ok t', pt_out t', static', w'))
      (put_alone api c 39 (enter_put c rq buf out t, static, w)) =
    map_option (\<lambda>(ok, out', static', w'). (PutOutside, ok, out', static', w')) (PutObject api c rq buf out (static, w))"
proof (cases "pt_phase (enter_put c rq buf out t) = PutOutside")
  case True
  then have "PutObject api c rq buf out (static, w) = Some (False, out, static, w)"
    by (auto simp: enter_put_def PutObject_def Let_def split: if_splits)
  moreover have "pt_ok (enter_put c rq buf out t) = False" "pt_out (enter_put c rq buf out t) = out"
    by (simp_all add: enter_put_def Let_def)
  ultimately show ?thesis using True by (simp add: put_alone_outside [OF True] del: put_alone.simps)
next
  case False
  have wf: "put_wf (enter_put c rq buf out t)" using enter_put_wf assms .
  show ?thesis
  proof (cases "client_parts c static")
    case None
    have "PutObject api c rq buf out (static, w) = None"
      using False None assms(2) by (auto simp: enter_put_def PutObject_def Let_def split: if_splits prod.split)
    moreover have "put_alone api c 39 (enter_put c rq buf out t, static, w) = None"
      using False None by (simp add: put_step_def eval_nat_numeral)
    ultimately show ?thesis by simp
  next
    case (Some parts)
    obtain meta chunk mgr where "parts = (meta, chunk, mgr)" by (metis prod.collapse)
    then have p: "static = Some mgr" "client_parts c (Some mgr) = Some (meta, chunk, mgr)"
      using Some client_parts_is by blast+
    obtain t' mgr' w' where r: "(put_move api (cl_options c) meta chunk ^^ 39) (enter_put c rq buf out t, mgr, w) = (t', mgr', w')"
      by (metis prod.collapse)
    note al = put_stretches.alone [of "(enter_put c rq buf out t, mgr, w)" 39 api "cl_options c" meta chunk, unfolded r]
    have "put_left (enter_put c rq buf out t) \<le> 39" using put_left_le [OF wf] .
    then have out: "pt_phase t' = PutOutside" and rest: "put_rest api (cl_options c) meta chunk (t', mgr', w') =
        put_rest api (cl_options c) meta chunk (enter_put c rq buf out t, mgr, w)"
      using al wf put_left_0 by (auto split: if_splits)
    then have "put_rest api (cl_options c) meta chunk (enter_put c rq buf out t, mgr, w) = (pt_ok t', pt_out t', mgr', w')"
      by (simp add: put_rest_def Let_def)
    then show ?thesis
      using out by (simp add: p(1) put_alone_moves [OF p(2)] r PutObject_rest [OF p(2) assms(2)] del: put_alone.simps)
  qed
qed

end
