(* ===== verification/Bench_Run.thy ===== *)
theory Bench_Run
  imports Client_Device Put_Threads Bench_Args Complex_Main
begin

text \<open>
  The benchmark's workers (\<open>examples/gds/gds_bench_example.cpp\<close>, \<open>Worker\<close> and \<open>main\<close>) as a
  system of threads: each has its device buffer and statistics, all share the client, the
  atomic counter and the barrier. A schedule says which worker moves next; one step is one
  stretch of a worker's code with one access to what is shared. A PUT is a thread of
  \<open>Put_Threads\<close> inside the worker, so the PUTs of different workers overlap.
\<close>

section \<open>State\<close>

record WorkerStats =
  ws_latencies :: "int list" \<comment> \<open>in the clock's unit; the conversion to milliseconds is monotone\<close>
  ws_ok :: u64
  ws_fail :: u64
  ws_bytes :: u64
  ws_end :: int
  ws_ready :: bool

definition new_stats :: WorkerStats where
  "new_stats = \<lparr>ws_latencies = [], ws_ok = 0, ws_fail = 0, ws_bytes = 0, ws_end = 0, ws_ready = False\<rparr>"

text \<open>
  Where a worker is: in its set-up (before the allocation, the copy, the registration, or the
  release after a failure of those), before warm-up \<open>i\<close> or inside its PUT, waiting at the barrier,
  before claiming an index, before or inside the PUT of the object it claimed, after the loop
  (before the end time, unregistering and freeing), and returned.
\<close>

datatype worker_phase =
    Begin | Filling | Registering | GivingUp
  | Warmup u64 | WarmupRun u64 | Waiting | Claim | Putting u64 | PutRun u64
  | Finish | Unregistering | Freeing | Ended

text \<open>
  \<open>wk_t0\<close> and \<open>wk_put\<close> belong to a call of \<open>do_put\<close>. The list of claimed indices is a history for
  the statements; the code does not keep it.
\<close>

record worker =
  wk_phase :: worker_phase
  wk_dev :: u64
  wk_stats :: WorkerStats
  wk_claims :: "u64 list"
  wk_t0 :: int
  wk_put :: put_thread

definition new_worker :: worker where
  "new_worker = \<lparr>wk_phase = Begin, wk_dev = 0, wk_stats = new_stats, wk_claims = [], wk_t0 = 0,
     wk_put = new_put_thread\<rparr>"

text \<open>
  What the workers share. \<open>sh_start\<close> is the start time that the barrier's completion function
  stores; it is set exactly when the barrier has let the workers through.
\<close>

record 's shared =
  sh_static :: "GdsMemoryManager option"
  sh_world :: "'s world"
  sh_next :: u64
  sh_arrived :: nat
  sh_start :: "int option"

section \<open>One worker\<close>

definition bench_request :: "Args \<Rightarrow> string \<Rightarrow> PutObjectRequest" where
  "bench_request a key = set_expected_size (ba_size a)
     (set_key key (set_bucket (ba_bucket a) default_put_request))"

definition unset_result :: TransferOutcome where
  "unset_result = \<lparr>to_bytes_transferred = 0, to_request_id = [], to_session_id = [], to_etag = [],
     to_crc32c = 0\<rparr>"

text \<open>
  The lambda \<open>do_put\<close>: up to the call of \<open>PutObject\<close>, one stretch of the call (\<open>None\<close> is a null
  dereference inside the client), and what follows it.
\<close>

definition do_put_begin ::
  "'s client_api \<Rightarrow> Args \<Rightarrow> Client \<Rightarrow> string \<Rightarrow> worker \<times> 's shared \<Rightarrow> worker \<times> 's shared" where
  "do_put_begin api a client key = (\<lambda>(wk, sh).
     (let (t0, w) = w_now api (sh_world sh)
      in (wk\<lparr>wk_t0 := t0,
             wk_put := enter_put client (bench_request a key) \<lparr>cbv_data = wk_dev wk, cbv_size = ba_size a\<rparr>
               unset_result (wk_put wk)\<rparr>,
          sh\<lparr>sh_world := w\<rparr>)))"

definition do_put_move ::
  "'s client_api \<Rightarrow> Client \<Rightarrow> worker \<times> 's shared \<Rightarrow> (worker \<times> 's shared) option" where
  "do_put_move api client = (\<lambda>(wk, sh).
     map_option (\<lambda>(t, static, w). (wk\<lparr>wk_put := t\<rparr>, sh\<lparr>sh_static := static, sh_world := w\<rparr>))
       (put_step api client (wk_put wk, sh_static sh, sh_world sh)))"

definition do_put_end ::
  "'s client_api \<Rightarrow> Args \<Rightarrow> worker \<times> 's shared \<Rightarrow> worker \<times> 's shared" where
  "do_put_end api a = (\<lambda>(wk, sh).
     (let (t1, w) = w_now api (sh_world sh);
          stats = wk_stats wk;
          stats' = (if pt_ok (wk_put wk)
            then stats\<lparr>ws_latencies := ws_latencies stats @ [t1 - wk_t0 wk],
                       ws_ok := ws_ok stats + 1, ws_bytes := ws_bytes stats + ba_size a\<rparr>
            else stats\<lparr>ws_fail := ws_fail stats + 1\<rparr>)
      in (wk\<lparr>wk_stats := stats'\<rparr>, sh\<lparr>sh_world := w\<rparr>)))"

text \<open>A stretch of a call of \<open>do_put\<close> that has begun, with the phase after it.\<close>

definition do_put_step ::
  "'s client_api \<Rightarrow> Args \<Rightarrow> Client \<Rightarrow> worker_phase \<Rightarrow> worker \<times> 's shared \<Rightarrow> (worker \<times> 's shared) option" where
  "do_put_step api a client after = (\<lambda>(wk, sh).
     if pt_phase (wk_put wk) = PutOutside
     then (let (wk', sh') = do_put_end api a (wk, sh) in Some (wk'\<lparr>wk_phase := after\<rparr>, sh'))
     else do_put_move api client (wk, sh))"

definition warmup_key :: "Args \<Rightarrow> nat \<Rightarrow> u64 \<Rightarrow> string" where
  "warmup_key a wid i = ba_key_prefix a @ ''-warmup-'' @ to_string wid @ ''-'' @ to_string (unat i)"

definition object_key_of :: "Args \<Rightarrow> u64 \<Rightarrow> string" where
  "object_key_of a idx = ba_key_prefix a @ ''-'' @ to_string (unat idx)"

text \<open>
  The set-up: allocate, fill and register the device buffer, with the three early returns, of
  which the last two free the buffer.
\<close>

definition worker_setup ::
  "'s client_api \<Rightarrow> Args \<Rightarrow> Client \<Rightarrow> u8 list \<Rightarrow> worker \<times> 's shared \<Rightarrow> (worker \<times> 's shared) option" where
  "worker_setup api a client pattern = (\<lambda>(wk, sh).
     case wk_phase wk of
       Begin \<Rightarrow>
         (let ((e, dev), w) = w_malloc api (ba_size a) (sh_world sh)
          in Some (if e \<noteq> cudaSuccess then wk\<lparr>wk_phase := Ended\<rparr> else wk\<lparr>wk_phase := Filling, wk_dev := dev\<rparr>,
                   sh\<lparr>sh_world := w\<rparr>))
     | Filling \<Rightarrow>
         (let (e, w) = w_upload api (wk_dev wk) pattern (sh_world sh)
          in Some (wk\<lparr>wk_phase := (if e \<noteq> cudaSuccess then GivingUp else Registering)\<rparr>, sh\<lparr>sh_world := w\<rparr>))
     | Registering \<Rightarrow>
         map_option (\<lambda>(ok, static, w).
             (if \<not> ok then wk\<lparr>wk_phase := GivingUp\<rparr>
              else wk\<lparr>wk_phase := Warmup 0, wk_stats := (wk_stats wk)\<lparr>ws_ready := True\<rparr>\<rparr>,
              sh\<lparr>sh_static := static, sh_world := w\<rparr>))
           (RegisterDeviceBuffer api client (wk_dev wk) (ba_size a) (sh_static sh, sh_world sh))
     | _ \<Rightarrow> Some (wk\<lparr>wk_phase := Ended\<rparr>, sh\<lparr>sh_world := w_dev_free api (wk_dev wk) (sh_world sh)\<rparr>))"

text \<open>After the loop: the end time, then unregister and free the buffer.\<close>

definition worker_teardown ::
  "'s client_api \<Rightarrow> Client \<Rightarrow> worker \<times> 's shared \<Rightarrow> (worker \<times> 's shared) option" where
  "worker_teardown api client = (\<lambda>(wk, sh).
     case wk_phase wk of
       Finish \<Rightarrow>
         (let (t, w) = w_now api (sh_world sh)
          in Some (wk\<lparr>wk_phase := Unregistering, wk_stats := (wk_stats wk)\<lparr>ws_end := t\<rparr>\<rparr>, sh\<lparr>sh_world := w\<rparr>))
     | Unregistering \<Rightarrow>
         map_option (\<lambda>(ok, static, w). (wk\<lparr>wk_phase := Freeing\<rparr>, sh\<lparr>sh_static := static, sh_world := w\<rparr>))
           (UnregisterDeviceBuffer api client (wk_dev wk) (sh_static sh, sh_world sh))
     | _ \<Rightarrow> Some (wk\<lparr>wk_phase := Ended\<rparr>, sh\<lparr>sh_world := w_dev_free api (wk_dev wk) (sh_world sh)\<rparr>))"

text \<open>Arriving at the barrier; the last of the \<open>n\<close> to arrive runs the completion function.\<close>

definition barrier_arrive :: "'s client_api \<Rightarrow> nat \<Rightarrow> 's shared \<Rightarrow> 's shared" where
  "barrier_arrive api n sh =
     (let sh1 = sh\<lparr>sh_arrived := Suc (sh_arrived sh)\<rparr>
      in if sh_arrived sh1 = n
         then (let (t, w) = w_now api (sh_world sh1) in sh1\<lparr>sh_start := Some t, sh_world := w\<rparr>)
         else sh1)"

text \<open>One step of worker \<open>wid\<close>; at the barrier it stays where it is until it is let through.\<close>

definition worker_step ::
  "'s client_api \<Rightarrow> Args \<Rightarrow> Client \<Rightarrow> u8 list \<Rightarrow> nat \<Rightarrow> nat \<Rightarrow> worker \<times> 's shared \<Rightarrow>
   (worker \<times> 's shared) option" where
  "worker_step api a client pattern n wid = (\<lambda>(wk, sh).
     case wk_phase wk of
       Warmup i \<Rightarrow>
         Some (if i < ba_warmup a
               then (let (wk', sh') = do_put_begin api a client (warmup_key a wid i) (wk, sh)
                     in (wk'\<lparr>wk_phase := WarmupRun i\<rparr>, sh'))
               else (wk\<lparr>wk_phase := Waiting\<rparr>, barrier_arrive api n sh))
     | WarmupRun i \<Rightarrow> do_put_step api a client (Warmup (i + 1)) (wk, sh)
     | Waiting \<Rightarrow> Some (if sh_start sh = None then wk else wk\<lparr>wk_phase := Claim\<rparr>, sh)
     | Claim \<Rightarrow>
         (let idx = sh_next sh; sh' = sh\<lparr>sh_next := idx + 1\<rparr>
          in Some (if idx < ba_count a
               then wk\<lparr>wk_phase := Putting idx, wk_claims := wk_claims wk @ [idx]\<rparr>
               else wk\<lparr>wk_phase := Finish\<rparr>, sh'))
     | Putting idx \<Rightarrow>
         (let (wk', sh') = do_put_begin api a client (object_key_of a idx) (wk, sh)
          in Some (wk'\<lparr>wk_phase := PutRun idx\<rparr>, sh'))
     | PutRun idx \<Rightarrow> do_put_step api a client Claim (wk, sh)
     | Ended \<Rightarrow> Some (wk, sh)
     | ph \<Rightarrow>
         if ph \<in> {Finish, Unregistering, Freeing} then worker_teardown api client (wk, sh)
         else worker_setup api a client pattern (wk, sh))"

section \<open>All workers\<close>

type_synonym 's bench = "worker list \<times> 's shared"

definition bench_step ::
  "'s client_api \<Rightarrow> Args \<Rightarrow> Client \<Rightarrow> u8 list \<Rightarrow> nat \<Rightarrow> 's bench \<Rightarrow> 's bench option" where
  "bench_step api a client pattern wid = (\<lambda>(wks, sh).
     if wid < length wks
     then map_option (\<lambda>(wk, sh'). (wks[wid := wk], sh'))
       (worker_step api a client pattern (length wks) wid (wks ! wid, sh))
     else Some (wks, sh))"

fun bench_sched ::
  "'s client_api \<Rightarrow> Args \<Rightarrow> Client \<Rightarrow> u8 list \<Rightarrow> nat list \<Rightarrow> 's bench \<Rightarrow> 's bench option" where
  "bench_sched api a client pattern [] st = Some st"
| "bench_sched api a client pattern (wid # sched) st =
     Option.bind (bench_step api a client pattern wid st) (bench_sched api a client pattern sched)"

definition bench_start ::
  "Args \<Rightarrow> GdsMemoryManager option \<Rightarrow> 's world \<Rightarrow> 's bench" where
  "bench_start a static w =
     (replicate (unat (ba_concurrency a)) new_worker,
      \<lparr>sh_static = static, sh_world = w, sh_next = 0, sh_arrived = 0, sh_start = None\<rparr>)"

section \<open>The summary and the program\<close>

record bench_total =
  bt_ok :: u64
  bt_fail :: u64
  bt_bytes :: u64
  bt_latencies :: "int list"
  bt_end_max :: int
  bt_any_ready :: bool
  bt_start :: int \<comment> \<open>\<open>t_start\<close>, read after the loop\<close>

text \<open>The loop over the workers, with their numbers, and the sort after it.\<close>

fun sum_stats :: "nat \<Rightarrow> worker list \<Rightarrow> bench_total \<Rightarrow> bench_total" where
  "sum_stats w [] t = t"
| "sum_stats w (wk # wks) t =
     (let s = wk_stats wk
      in if \<not> ws_ready s then sum_stats (Suc w) wks t
         else sum_stats (Suc w) wks
           \<lparr>bt_ok = bt_ok t + ws_ok s, bt_fail = bt_fail t + ws_fail s,
            bt_bytes = bt_bytes t + ws_bytes s,
            bt_latencies = bt_latencies t @ ws_latencies s,
            bt_end_max = (if w = 0 then ws_end s else max (bt_end_max t) (ws_end s)),
            bt_any_ready = True, bt_start = bt_start t\<rparr>)"

definition bench_summary :: "worker list \<Rightarrow> bench_total" where
  "bench_summary wks =
     (let t = sum_stats 0 wks \<lparr>bt_ok = 0, bt_fail = 0, bt_bytes = 0, bt_latencies = [], bt_end_max = 0,
            bt_any_ready = False, bt_start = 0\<rparr>
      in t\<lparr>bt_latencies := sort (bt_latencies t)\<rparr>)"

text \<open>
  The start time that is read after the loop; without a completion of the barrier it is the
  epoch, as initialised.
\<close>

definition with_start :: "int option \<Rightarrow> bench_total \<Rightarrow> bench_total" where
  "with_start start t = t\<lparr>bt_start := (case start of None \<Rightarrow> 0 | Some s \<Rightarrow> s)\<rparr>"

text \<open>
  The figures printed, from times in nanoseconds and as exact fractions: the wall time, the
  average latency, the transfers and the mebibytes in a second. The program computes them in
  \<open>double\<close>, with its roundings.
\<close>

definition bench_wall :: "bench_total \<Rightarrow> int" where
  "bench_wall t = bt_end_max t - bt_start t"

definition bench_average :: "bench_total \<Rightarrow> rat" where
  "bench_average t = (if bt_latencies t = [] then 0
     else of_int (sum_list (bt_latencies t)) / of_nat (length (bt_latencies t)))"

definition bench_ops_per_sec :: "bench_total \<Rightarrow> rat" where
  "bench_ops_per_sec t =
     (if 0 < bench_wall t then of_nat (unat (bt_ok t)) / (of_int (bench_wall t) / 1000000000) else 0)"

definition bench_throughput :: "bench_total \<Rightarrow> rat" where
  "bench_throughput t =
     (if 0 < bench_wall t then of_nat (unat (bt_bytes t)) / (of_int (bench_wall t) / 1000000000) / (1024 * 1024) else 0)"

text \<open>
  \<open>main\<close> under a schedule of its workers: the exit code with the numbers it prints, or
  \<open>BenchRunning\<close> while a thread has not returned, or \<open>BenchFault\<close>.
\<close>

datatype bench_result = BenchExit int "bench_total option" | BenchRunning | BenchFault

definition bench_options :: "Args \<Rightarrow> ClientOptions" where
  "bench_options a = default_options\<lparr>endpoint := ba_proxy a, gds_data_endpoint := ba_backend a,
     verify_crc32c := ba_verify_crc32c a, latency_trace := ba_trace a\<rparr>"

definition bench_pattern :: "Args \<Rightarrow> u8 list" where
  "bench_pattern a = map (\<lambda>i. word_of_nat (i mod 251)) [0..<unat (ba_size a)]"

definition bench_main ::
  "'s client_api \<Rightarrow> string list \<Rightarrow> nat list \<Rightarrow> 's \<Rightarrow> bench_result" where
  "bench_main api argv sched s =
     (case ParseArgs argv default_args of
        ArgsExit \<Rightarrow> BenchExit 0 None
      | ArgsReturn ok a \<Rightarrow>
          if \<not> ok then BenchExit 1 None
          else
            (let (init, c, static, w) = Client_Initialize api (new_Client (bench_options a))
                   (None, \<lparr>env = s, events = []\<rparr>)
             in if \<not> init then BenchExit 1 None
                else
                  (case bench_sched api a c (bench_pattern a) sched (bench_start a static w) of
                     None \<Rightarrow> BenchFault
                   | Some (wks, sh) \<Rightarrow>
                       if \<not> list_all (\<lambda>wk. wk_phase wk = Ended) wks then BenchRunning
                       else
                         (let t = bench_summary wks
                          in if \<not> bt_any_ready t then BenchExit 1 None
                             else BenchExit (if bt_fail t = 0 then 0 else 2) (Some (with_start (sh_start sh) t))))))"

end
