(* ===== verification/Put_Thread_Books.thy ===== *)
theory Put_Thread_Books
  imports Put_Threads Client_Contract
begin

text \<open>
  What the stretches of a PUT do to the memory manager and to the world: each is a step of the
  thread in the manager, or a call that leaves the manager's books alone. So every invariant of
  the manager's threads is one of threads in \<open>PutObject\<close>, and every property of the world that all
  calls keep is kept by every stretch.
\<close>

section \<open>Effects on the memory manager\<close>

text \<open>
  One step of a thread as the manager sees it, with the methods it may call: a call to something
  else, the entry into a method, and a stretch inside.
\<close>

inductive mem_effect ::
  "'s client_api \<Rightarrow> (mem_method \<Rightarrow> bool) \<Rightarrow> mem_thread \<times> 's mem_state \<Rightarrow> mem_thread \<times> 's mem_state \<Rightarrow> bool"
  for api allowed where
  elsewhere: "events w' = events w @ es \<Longrightarrow> list_all neutral_event es \<Longrightarrow>
    mem_effect api allowed (m, mgr, w) (m, mgr, w')"
| entered: "mt_phase m = MemOutside \<Longrightarrow> allowed q \<Longrightarrow> mem_effect api allowed (m, st) (enter_memory q m, st)"
| moved: "memory_move api (m, st) = (m', st') \<Longrightarrow> mem_effect api allowed (m, st) (m', st')"

lemma mem_effectE:
  assumes "mem_effect api allowed (m, st) (m', st')"
  obtains (elsewhere) mgr w w' es where "st = (mgr, w)" "st' = (mgr, w')" "m' = m" "events w' = events w @ es"
      "list_all neutral_event es"
    | (entered) q where "st' = st" "m' = enter_memory q m" "mt_phase m = MemOutside" "allowed q"
    | (moved) "memory_move api (m, st) = (m', st')"
  using assms by (rule mem_effect.cases) auto

lemma memory_inv_effect:
  assumes "memory_inv (ts, st)" "i < length ts" "mem_effect api allowed (ts ! i, st) (m, st')"
  shows "memory_inv (ts[i := m], st')"
  using assms(3)
proof (cases rule: mem_effectE)
  case (elsewhere mgr w1 w2 es)
  then show ?thesis
    using assms(1,2) mm_holds_neutral [of _ mgr w1 w2 es] by (simp add: memory_inv_def)
next
  case (entered q)
  then show ?thesis using memory_event_inv [OF assms(1), of api "MemCall i q"] assms(2) by simp
next
  case moved
  then show ?thesis using memory_event_inv [OF assms(1), of api "MemRun i"] assms(2) by simp
qed

lemma memory_inv_effects:
  assumes "memory_inv (ts, st)" "i < length ts" "(mem_effect api allowed)\<^sup>*\<^sup>* (ts ! i, st) (m, st')"
  shows "memory_inv (ts[i := m], st')"
  using assms(3)
proof (induction rule: rtranclp_induct2)
  case (step m1 st1 m2 st2)
  then show ?case using memory_inv_effect [of "ts[i := m1]" st1 i api allowed m2 st2] assms(2) by simp
qed (use assms(1) in simp)

text \<open>As long as a thread may not unregister a buffer, the buffer stays registered.\<close>

lemma registered_inv_effect:
  assumes "registered_inv ptr (ts, st)" "i < length ts" "mem_effect api allowed (ts ! i, st) (m, st')"
    and "\<not> allowed (MemUnregister ptr)"
  shows "registered_inv ptr (ts[i := m], st')"
  using assms(3)
proof (cases rule: mem_effectE)
  case (elsewhere mgr w1 w2 es)
  then show ?thesis using assms(1) by (simp add: registered_inv_def)
next
  case (entered q)
  then have "\<not> unregisters ptr (MemCall i q)" using assms(4) by (auto simp: unregisters_def)
  from registered_event_inv [OF assms(1) this, of api] show ?thesis using entered assms(2) by simp
next
  case moved
  have "\<not> unregisters ptr (MemRun i)" by (simp add: unregisters_def)
  from registered_event_inv [OF assms(1) this, of api] show ?thesis using moved assms(2) by simp
qed

lemma registered_inv_effects:
  assumes "registered_inv ptr (ts, st)" "i < length ts" "(mem_effect api allowed)\<^sup>*\<^sup>* (ts ! i, st) (m, st')"
    and "\<not> allowed (MemUnregister ptr)"
  shows "registered_inv ptr (ts[i := m], st')"
  using assms(3)
proof (induction rule: rtranclp_induct2)
  case (step m1 st1 m2 st2)
  then show ?case
    using registered_inv_effect [of ptr "ts[i := m1]" st1 i api allowed m2 st2] assms(2,4) by simp
qed (use assms(1) in simp)

section \<open>The stretches of a PUT\<close>

definition put_may :: "mem_method \<Rightarrow> bool" where
  "put_may q \<longleftrightarrow> (case q of MemAcquire p n off \<Rightarrow> True | MemDrop \<Rightarrow> True | _ \<Rightarrow> False)"

lemma put_may_simps [simp]:
  "put_may (MemAcquire p n off)" "put_may MemDrop" "\<not> put_may (MemUnregister p)" "\<not> put_may (MemRegister p n)"
  by (simp_all add: put_may_def)

lemma made_events: "MakePutAttempt (w_rng api) opts rq w = (a, w') \<Longrightarrow> events w' = events w"
  by (auto simp: MakePutAttempt_ids client_simps)

lemma rpc_neutral:
  "MetaRpc_OpenSession api meta a g w = (ok, g', w1) \<Longrightarrow> \<exists>es. events w1 = events w @ es \<and> list_all neutral_event es"
  "\<exists>es. events (MetaRpc_AbortSession api meta i t w) = events w @ es \<and> list_all neutral_event es"
  "ChunkRpc_Put api chunk a g tok n r w = (ok, r', w2) \<Longrightarrow> \<exists>es. events w2 = events w @ es \<and> list_all neutral_event es"
proof (goal_cases)
  case 1
  show ?case
  proof (cases "rpc_ok meta")
    case True
    from OpenSession_events [OF 1 this] show ?thesis by (metis list.pred_inject neutral_event.simps(1))
  next
    case False
    then show ?thesis using 1 by (intro exI [of _ "[]"]) (simp add: MetaRpc_OpenSession_def)
  qed
next
  case 2
  show ?case
  proof (cases "rpc_ok meta")
    case True
    from AbortSession_events [OF this] show ?thesis by (metis list.pred_inject neutral_event.simps(2))
  next
    case False
    then show ?thesis by (intro exI [of _ "[]"]) (simp add: MetaRpc_AbortSession_def)
  qed
next
  case 3
  show ?case
  proof (cases "rpc_ok chunk")
    case True
    from Put_events [OF 3 this] show ?thesis by (metis list.pred_inject neutral_event.simps(3))
  next
    case False
    then show ?thesis using 3 by (intro exI [of _ "[]"]) (simp add: ChunkRpc_Put_def)
  qed
qed

text \<open>The stretches that call something other than the manager.\<close>

definition quiet_world :: "'s world \<Rightarrow> 's world \<Rightarrow> bool" where
  "quiet_world w w' \<longleftrightarrow> (\<exists>es. events w' = events w @ es \<and> list_all neutral_event es)"

lemma quiet_same: "events w' = events w \<Longrightarrow> quiet_world w w'"
  by (simp add: quiet_world_def)

lemma call_stretch:
  assumes "put_move api opts meta chunk (t, mgr, w) = (t', mgr', w')" "pt_phase t \<notin> {TryOpen, TryToken, TryEnd}"
  shows "mgr' = mgr \<and> pt_mem t' = pt_mem t \<and> quiet_world w w'"
proof (cases "pt_phase t")
  case Pause
  obtain m w1 where j: "w_jitter api w = (m, w1)" by force
  have "quiet_world w (w_sleep api ms w1)" for ms
    using events_quiet(2) [of api w] j by (auto simp: quiet_world_def client_simps)
  then show ?thesis using assms(1) Pause j by (auto simp: put_move_def)
next
  case TryPut
  obtain ok r w1 where p: "ChunkRpc_Put api chunk (pt_try t) (pt_grant t) (Token_str api (mt_token (pt_mem t)) w)
      (cbv_size (pt_buffer t)) \<lparr>gpr_etag = [], gpr_crc32c = 0\<rparr> w = (ok, r, w1)" by (metis prod.collapse)
  then show ?thesis using assms(1) TryPut rpc_neutral(3) [OF p] by (auto simp: put_move_def quiet_world_def split: if_splits)
next
  case TryAbort
  then show ?thesis using assms(1) rpc_neutral(2) by (auto simp: put_move_def quiet_world_def)
next
  case TryIds
  obtain a w1 where mk: "MakePutAttempt (w_rng api) opts (pt_request t) w = (a, w1)" by force
  then show ?thesis using assms(1) TryIds made_events [OF mk] by (auto simp: put_move_def intro: quiet_same)
next
  case TryCopy
  then show ?thesis
    using assms(1) events_quiet(4) [of api "cbv_data (pt_buffer t)" "cbv_size (pt_buffer t)" w]
    by (auto simp: put_move_def split: prod.splits if_splits intro!: quiet_same)
qed (use assms events_quiet(3) [of api w] in
    \<open>auto simp: put_move_def end_try_def split: prod.splits if_splits intro!: quiet_same\<close>)

lemma quiet_effects: "quiet_world w w' \<Longrightarrow> (mem_effect api allowed)\<^sup>*\<^sup>* (m, mgr, w) (m, mgr, w')"
  unfolding quiet_world_def using elsewhere by blast

lemma put_move_effects:
  assumes "put_wf t" "put_move api opts meta chunk (t, mgr, w) = (t', mgr', w')"
  shows "(mem_effect api put_may)\<^sup>*\<^sup>* (pt_mem t, mgr, w) (pt_mem t', mgr', w')"
proof (cases "pt_phase t")
  case TryOpen
  obtain opened g w1 where o: "MetaRpc_OpenSession api meta (pt_try t) \<lparr>sg_ticket = []\<rparr> w = (opened, g, w1)"
    by (metis prod.collapse)
  have out: "mt_phase (pt_mem t) = MemOutside" using assms(1) TryOpen by (simp add: put_wf_def mem_idle_def)
  have "(mem_effect api put_may)\<^sup>*\<^sup>* (pt_mem t, mgr, w) (pt_mem t, mgr, w1)"
    using rpc_neutral(1) [OF o] by (simp add: quiet_effects quiet_world_def)
  moreover have "mem_effect api put_may (pt_mem t, mgr, w1) (enter_memory (MemAcquire p n off) (pt_mem t), mgr, w1)" for p n off
    by (rule entered [OF out]) simp
  ultimately show ?thesis
    using assms(2) TryOpen o by (auto simp: put_move_def end_try_def split: if_splits intro: rtranclp.rtrancl_into_rtrancl)
next
  case TryToken
  then show ?thesis
    using assms(2) by (cases "mt_phase (pt_mem t) = MemOutside")
      (auto simp: put_move_def move_idle split: prod.splits intro!: r_into_rtranclp [of "mem_effect api put_may"] moved)
next
  case TryEnd
  obtain m mgr1 w1 where m: "memory_move api (enter_memory MemDrop (pt_mem t), mgr, w) = (m, mgr1, w1)" by (metis prod.collapse)
  have "mt_phase (pt_mem t) = MemOutside" using assms(1) TryEnd by (simp add: put_wf_def)
  then have "mem_effect api put_may (pt_mem t, mgr, w) (enter_memory MemDrop (pt_mem t), mgr, w)" by (simp add: entered)
  moreover have "mem_effect api put_may (enter_memory MemDrop (pt_mem t), mgr, w) (m, mgr1, w1)" using m by (rule moved)
  ultimately show ?thesis
    using assms(2) TryEnd m by (auto simp: put_move_def end_try_def)
qed (use call_stretch [OF assms(2)] quiet_effects in auto)

section \<open>Every call keeps it, so every stretch does\<close>

context client_env
begin

lemma memory_move_I:
  assumes "I (env (snd st))" "memory_move api (m, st) = (m', st')"
  shows "I (env (snd st'))"
proof -
  obtain mgr w where st: "st = (mgr, w)" by (cases st)
  have w: "I (env w)" using assms(1) st by simp
  note I = Register_I [OF w] wrappers_I(11,12) [OF w] Token_end_I [OF w, of "mt_token m"] w
  show ?thesis
  proof (cases "mt_phase m")
    case (RegisterLock p n)
    then show ?thesis using assms(2) I(1) [of p n mgr] by (auto simp: st memory_move_def split: prod.splits)
  next
    case (EnsureLock p n off)
    then show ?thesis using assms(2) I(1) [of p "n + off" mgr] by (auto simp: st memory_move_def split: prod.splits)
  next
    case (UnregisterLock p)
    then show ?thesis using assms(2) I(2) [of p] w by (auto simp: st memory_move_def Let_def split: prod.splits if_splits)
  next
    case (FetchToken p n off)
    then show ?thesis using assms(2) I(3) [of p n off] by (auto simp: st memory_move_def split: prod.splits)
  next
    case (StoreToken tok)
    then show ?thesis
      using assms(2) I(4) by (auto simp: st memory_move_def Token_Assign_def Token_end_def Token_Reset_def split: prod.splits)
  next
    case DropToken
    then show ?thesis
      using assms(2) I(4) by (auto simp: st memory_move_def Token_end_def Token_Reset_def split: prod.splits)
  qed (use assms(2) w in \<open>auto simp: st memory_move_def Let_def\<close>)
qed

lemma put_move_I:
  assumes "I (env w)" "put_move api opts meta chunk (t, mgr, w) = (t', mgr', w')"
  shows "I (env w')"
proof (cases "pt_phase t")
  case TryToken
  obtain m mgr1 w1 where m: "memory_move api (pt_mem t, mgr, w) = (m, mgr1, w1)" by (metis prod.collapse)
  show ?thesis using memory_move_I [OF _ m] assms TryToken m by (auto simp: put_move_def split: if_splits)
next
  case TryEnd
  obtain m mgr1 w1 where m: "memory_move api (enter_memory MemDrop (pt_mem t), mgr, w) = (m, mgr1, w1)" by (metis prod.collapse)
  show ?thesis using memory_move_I [OF _ m] assms TryEnd m by (auto simp: put_move_def)
next
  case Pause
  then show ?thesis using assms wrappers_I(5,7) by (auto simp: put_move_def split: prod.splits) (metis snd_conv)
next
  case TryOpen
  then show ?thesis
    using assms(2) OpenSession_I [OF assms(1), of meta "pt_try t" "\<lparr>sg_ticket = []\<rparr>"]
    by (auto simp: put_move_def split: prod.splits)
next
  case TryPut
  then show ?thesis
    using assms(2) Put_I [OF assms(1), of chunk "pt_try t" "pt_grant t"]
    by (auto simp: put_move_def Let_def split: prod.splits) (metis snd_conv)
next
  case TryIds
  then show ?thesis
    using assms(2) MakePutAttempt_I [OF assms(1), of opts "pt_request t"] by (auto simp: put_move_def split: prod.splits)
next
  case TryAbort
  then show ?thesis using assms AbortSession_I by (auto simp: put_move_def)
next
  case TryCopy
  then show ?thesis
    using assms(2) wrappers_I(8) [OF assms(1), of "cbv_data (pt_buffer t)" "cbv_size (pt_buffer t)"]
    by (auto simp: put_move_def split: prod.splits)
qed (use assms wrappers_I(6) [OF assms(1)] in \<open>auto simp: put_move_def split: prod.splits\<close>)

end

end
