(* ===== verification/Bench_Control.thy ===== *)
theory Bench_Control
  imports Bench_Run Put_Thread_Books "HOL-Library.Multiset"
begin

text \<open>
  The control of the benchmark apart from the transfers: a specification of the workers as a
  transition system over the counter and the barrier, in which a transfer is only a success or
  a failure. Every step of a worker is a step of this system; its invariant says which indices
  were claimed, who has passed the barrier and what the statistics count.
\<close>

section \<open>The specification\<close>

text \<open>The counter, the number of workers that arrived, and whether the barrier opened.\<close>

type_synonym control = "u64 \<times> nat \<times> bool"

inductive counted :: "u64 \<Rightarrow> WorkerStats \<Rightarrow> WorkerStats \<Rightarrow> bool" for sz where
  put_ok: "counted sz s (s\<lparr>ws_latencies := ws_latencies s @ [d], ws_ok := ws_ok s + 1,
     ws_bytes := ws_bytes s + sz\<rparr>)"
| put_failed: "counted sz s (s\<lparr>ws_fail := ws_fail s + 1\<rparr>)"

inductive bench_move :: "Args \<Rightarrow> nat \<Rightarrow> worker \<times> control \<Rightarrow> worker \<times> control \<Rightarrow> bool" for a n where
  setup_failed: "wk_phase wk \<in> {Begin, GivingUp} \<Longrightarrow> bench_move a n (wk, s) (wk\<lparr>wk_phase := Ended\<rparr>, s)"
| allocated: "wk_phase wk = Begin \<Longrightarrow> bench_move a n (wk, s) (wk\<lparr>wk_phase := Filling, wk_dev := p\<rparr>, s)"
| filled: "wk_phase wk = Filling \<Longrightarrow> bench_move a n (wk, s) (wk\<lparr>wk_phase := Registering\<rparr>, s)"
| gave_up: "wk_phase wk \<in> {Filling, Registering} \<Longrightarrow> bench_move a n (wk, s) (wk\<lparr>wk_phase := GivingUp\<rparr>, s)"
| setup_done: "wk_phase wk = Registering \<Longrightarrow>
    bench_move a n (wk, s) (wk\<lparr>wk_phase := Warmup 0, wk_stats := (wk_stats wk)\<lparr>ws_ready := True\<rparr>\<rparr>, s)"
| warming: "wk_phase wk = Warmup i \<Longrightarrow> i < ba_warmup a \<Longrightarrow> put_left t \<le> 39 \<Longrightarrow>
    bench_move a n (wk, s) (wk\<lparr>wk_t0 := t0, wk_put := t, wk_phase := WarmupRun i\<rparr>, s)"
| warmed: "wk_phase wk = WarmupRun i \<Longrightarrow> counted (ba_size a) (wk_stats wk) st \<Longrightarrow>
    bench_move a n (wk, s) (wk\<lparr>wk_stats := st, wk_phase := Warmup (i + 1)\<rparr>, s)"
| arrived: "wk_phase wk = Warmup i \<Longrightarrow> \<not> i < ba_warmup a \<Longrightarrow>
    bench_move a n (wk, nx, arr, rel)
      (wk\<lparr>wk_phase := Waiting\<rparr>, nx, Suc arr, rel \<or> Suc arr = n)"
| held: "wk_phase wk = Waiting \<Longrightarrow> bench_move a n (wk, nx, arr, False) (wk, nx, arr, False)"
| let_through: "wk_phase wk = Waiting \<Longrightarrow>
    bench_move a n (wk, nx, arr, True) (wk\<lparr>wk_phase := Claim\<rparr>, nx, arr, True)"
| claimed: "wk_phase wk = Claim \<Longrightarrow> nx < ba_count a \<Longrightarrow>
    bench_move a n (wk, nx, s)
      (wk\<lparr>wk_phase := Putting nx, wk_claims := wk_claims wk @ [nx]\<rparr>, nx + 1, s)"
| drained: "wk_phase wk = Claim \<Longrightarrow> \<not> nx < ba_count a \<Longrightarrow>
    bench_move a n (wk, nx, s) (wk\<lparr>wk_phase := Finish\<rparr>, nx + 1, s)"
| putting: "wk_phase wk = Putting i \<Longrightarrow> put_left t \<le> 39 \<Longrightarrow>
    bench_move a n (wk, s) (wk\<lparr>wk_t0 := t0, wk_put := t, wk_phase := PutRun i\<rparr>, s)"
| put: "wk_phase wk = PutRun i \<Longrightarrow> counted (ba_size a) (wk_stats wk) st \<Longrightarrow>
    bench_move a n (wk, s) (wk\<lparr>wk_stats := st, wk_phase := Claim\<rparr>, s)"
| working: "wk_phase wk \<in> {WarmupRun i, PutRun i} \<Longrightarrow> put_left t < put_left (wk_put wk) \<Longrightarrow>
    bench_move a n (wk, s) (wk\<lparr>wk_put := t\<rparr>, s)"
| finished: "wk_phase wk = Finish \<Longrightarrow>
    bench_move a n (wk, s) (wk\<lparr>wk_phase := Unregistering, wk_stats := (wk_stats wk)\<lparr>ws_end := t\<rparr>\<rparr>, s)"
| unregistered: "wk_phase wk = Unregistering \<Longrightarrow> bench_move a n (wk, s) (wk\<lparr>wk_phase := Freeing\<rparr>, s)"
| freed: "wk_phase wk = Freeing \<Longrightarrow> bench_move a n (wk, s) (wk\<lparr>wk_phase := Ended\<rparr>, s)"
| returned: "wk_phase wk = Ended \<Longrightarrow> bench_move a n (wk, s) (wk, s)"

section \<open>The workers implement it\<close>

definition control_of :: "'s shared \<Rightarrow> control" where
  "control_of sh = (sh_next sh, sh_arrived sh, sh_start sh \<noteq> None)"

text \<open>
  What holds of the client, the manager and the workers' threads in it at every moment: the client
  is up, and the manager's books are those of \<open>Memory_Threads\<close>.
\<close>

definition worker_mem :: "worker \<Rightarrow> mem_thread" where
  "worker_mem wk = pt_mem (wk_put wk)"

definition worker_wf :: "worker \<Rightarrow> bool" where
  "worker_wf wk \<longleftrightarrow> put_wf (wk_put wk) \<and>
     ((\<forall>i. wk_phase wk \<noteq> WarmupRun i \<and> wk_phase wk \<noteq> PutRun i) \<longrightarrow> pt_phase (wk_put wk) = PutOutside)"

definition shared_inv :: "Client \<Rightarrow> worker list \<Rightarrow> 's shared \<Rightarrow> bool" where
  "shared_inv c wks sh \<longleftrightarrow> cl_initialized c \<and> list_all worker_wf wks \<and>
     (\<exists>meta chunk mgr. client_parts c (sh_static sh) = Some (meta, chunk, mgr) \<and>
        memory_inv (map worker_mem wks, mgr, sh_world sh))"

lemma shared_inv_effects:
  assumes "shared_inv c wks sh" "i < length wks" "worker_wf wk'"
    and "client_parts c (sh_static sh) = Some (meta, chunk, mgr)" "sh_static sh' = Some mgr'"
    and "(mem_effect api allowed)\<^sup>*\<^sup>* (worker_mem (wks ! i), mgr, sh_world sh) (worker_mem wk', mgr', sh_world sh')"
  shows "shared_inv c (wks[i := wk']) sh'"
proof -
  have "client_parts c (Some mgr') = Some (meta, chunk, mgr')"
    using assms(4) client_parts_is parts_any_manager by metis
  moreover have "memory_inv (map worker_mem wks, mgr, sh_world sh)" using assms(1,4) by (simp add: shared_inv_def)
  then have "memory_inv ((map worker_mem wks)[i := worker_mem wk'], mgr', sh_world sh')"
    using memory_inv_effects [of "map worker_mem wks"] assms(2,6) by simp
  ultimately show ?thesis using assms(1,3,5) by (simp add: shared_inv_def map_update list_all_swap)
qed

lemma shared_inv_call:
  assumes "shared_inv c wks sh" "i < length wks" "worker_wf wk'" "worker_mem wk' = worker_mem (wks ! i)"
    and "sh_static sh' = sh_static sh" "quiet_world (sh_world sh) (sh_world sh')"
  shows "shared_inv c (wks[i := wk']) sh'"
proof -
  obtain meta chunk mgr where p: "client_parts c (sh_static sh) = Some (meta, chunk, mgr)"
    using assms(1) by (auto simp: shared_inv_def)
  have "sh_static sh' = Some mgr" using p client_parts_is assms(5) by metis
  then show ?thesis
    by (rule shared_inv_effects [OF assms(1-3) p]) (unfold assms(4), rule quiet_effects [OF assms(6)])
qed

lemma quiet_calls:
  "w_now api w = (t, w1) \<Longrightarrow> quiet_world w w1"
  "w_malloc api n w = (r, w2) \<Longrightarrow> quiet_world w w2"
  "w_upload api p bytes w = (e, w3) \<Longrightarrow> quiet_world w w3"
  "quiet_world w (w_dev_free api p w)"
  using events_quiet(3) [of api w] events_malloc [of api n w] events_quiet(6) [of api p bytes w] events_dev_free [of api p w]
  by (auto simp: quiet_world_def)

lemma arrive_quiet: "quiet_world (sh_world sh) (sh_world (barrier_arrive api n sh)) \<and> sh_static (barrier_arrive api n sh) = sh_static sh"
  using quiet_calls(1) [of api "sh_world sh"] quiet_same [of "sh_world sh" "sh_world sh"]
  by (simp add: barrier_arrive_def Let_def split: prod.split)

lemma RegisterBuffer_inv:
  assumes "memory_inv (ts, mgr, w)" "RegisterBuffer api p n (mgr, w) = (ok, mgr', w')"
  shows "memory_inv (ts, mgr', w')"
  using assms RegisterBuffer_holds by (auto simp: memory_inv_def)

lemma UnregisterBuffer_mem_inv:
  assumes "memory_inv (ts, mgr, w)" "UnregisterBuffer api p (mgr, w) = (ok, mgr', w')"
  shows "memory_inv (ts, mgr', w')"
  using assms Unregister_holds by (auto simp: memory_inv_def)

text \<open>Registering and unregistering the buffer of a worker.\<close>

lemma register_control:
  assumes "shared_inv c wks sh" "i < length wks" and keep: "\<And>ok. worker_wf (upd ok) \<and> worker_mem (upd ok) = worker_mem (wks ! i)"
  obtains ok static w where "RegisterDeviceBuffer api c p n (sh_static sh, sh_world sh) = Some (ok, static, w)"
    "shared_inv c (wks[i := upd ok]) (sh\<lparr>sh_static := static, sh_world := w\<rparr>)"
proof -
  obtain meta chunk mgr where s: "cl_initialized c" "client_parts c (sh_static sh) = Some (meta, chunk, mgr)"
      "memory_inv (map worker_mem wks, mgr, sh_world sh)" "list_all worker_wf wks"
    using assms(1) by (auto simp: shared_inv_def)
  obtain ok mgr' w where r: "RegisterBuffer api p n (mgr, sh_world sh) = (ok, mgr', w)" by (metis prod.collapse)
  have "client_parts c (Some mgr') = Some (meta, chunk, mgr')" using s(2) client_parts_is parts_any_manager by metis
  moreover have "map worker_mem (wks[i := upd ok]) = map worker_mem wks"
    using keep assms(2) by (simp add: map_update list_update_same_conv)
  ultimately show ?thesis
    using that [of ok "Some mgr'" w] s keep r RegisterBuffer_inv [OF s(3) r]
    by (simp add: RegisterDeviceBuffer_def shared_inv_def list_all_swap)
qed

lemma unregister_control:
  assumes "shared_inv c wks sh" "i < length wks" and keep: "worker_wf wk'" "worker_mem wk' = worker_mem (wks ! i)"
  obtains ok static w where "UnregisterDeviceBuffer api c p (sh_static sh, sh_world sh) = Some (ok, static, w)"
    "shared_inv c (wks[i := wk']) (sh\<lparr>sh_static := static, sh_world := w\<rparr>)"
proof -
  obtain meta chunk mgr where s: "cl_initialized c" "client_parts c (sh_static sh) = Some (meta, chunk, mgr)"
      "memory_inv (map worker_mem wks, mgr, sh_world sh)" "list_all worker_wf wks"
    using assms(1) by (auto simp: shared_inv_def)
  obtain ok mgr' w where r: "UnregisterBuffer api p (mgr, sh_world sh) = (ok, mgr', w)" by (metis prod.collapse)
  have "client_parts c (Some mgr') = Some (meta, chunk, mgr')" using s(2) client_parts_is parts_any_manager by metis
  moreover have "map worker_mem (wks[i := wk']) = map worker_mem wks"
    using keep assms(2) by (simp add: map_update list_update_same_conv)
  ultimately show ?thesis
    using that [of ok "Some mgr'" w] s keep r UnregisterBuffer_mem_inv [OF s(3) r]
    by (simp add: UnregisterDeviceBuffer_def shared_inv_def list_all_swap)
qed

text \<open>What one step of worker \<open>i\<close> has to do: keep what is shared, and be a move of the control.\<close>

definition step_control :: "Args \<Rightarrow> Client \<Rightarrow> nat \<Rightarrow> nat \<Rightarrow> worker list \<Rightarrow> 's shared \<Rightarrow> (worker \<times> 's shared) option \<Rightarrow> bool" where
  "step_control a c n i wks sh res \<longleftrightarrow>
     (case res of None \<Rightarrow> False
      | Some (wk', sh') \<Rightarrow> shared_inv c (wks[i := wk']) sh' \<and> bench_move a n (wks ! i, control_of sh) (wk', control_of sh'))"

lemma setup_control:
  assumes "shared_inv c wks sh" "i < length wks" and ph: "wk_phase (wks ! i) \<in> {Begin, Filling, Registering, GivingUp}"
  shows "step_control a c n i wks sh (worker_setup api a c pattern (wks ! i, sh))"
proof -
  let ?wk = "wks ! i"
  have wf: "worker_wf ?wk" using assms(1,2) by (simp add: shared_inv_def list_all_length)
  then have out: "put_wf (wk_put ?wk)" "pt_phase (wk_put ?wk) = PutOutside" using ph by (auto simp: worker_wf_def)
  note call = shared_inv_call [OF assms(1,2)]
  note defs = worker_setup_def step_control_def control_of_def worker_wf_def worker_mem_def
  consider "wk_phase ?wk = Begin" | "wk_phase ?wk = Filling" | "wk_phase ?wk = Registering" | "wk_phase ?wk = GivingUp"
    using ph by blast
  then show ?thesis
  proof cases
    case 1
    obtain e dev w where m: "w_malloc api (ba_size a) (sh_world sh) = ((e, dev), w)" by (metis prod.collapse)
    show ?thesis
      using 1 m out quiet_calls(2) [OF m] setup_failed [of ?wk a n] allocated [OF 1, of a n]
      by (auto simp: defs intro!: call)
  next
    case 2
    obtain e w where u: "w_upload api (wk_dev ?wk) pattern (sh_world sh) = (e, w)" by force
    show ?thesis
      using 2 u out quiet_calls(3) [OF u] gave_up [of ?wk a n] filled [OF 2, of a n]
      by (auto simp: defs intro!: call)
  next
    case 3
    define upd where "upd ok = (if \<not> ok then ?wk\<lparr>wk_phase := GivingUp\<rparr>
        else ?wk\<lparr>wk_phase := Warmup 0, wk_stats := (wk_stats ?wk)\<lparr>ws_ready := True\<rparr>\<rparr>)" for ok
    have "worker_wf (upd ok) \<and> worker_mem (upd ok) = worker_mem ?wk" for ok
      using out by (simp add: upd_def worker_wf_def worker_mem_def)
    then obtain ok static w where r: "RegisterDeviceBuffer api c (wk_dev ?wk) (ba_size a) (sh_static sh, sh_world sh) = Some (ok, static, w)"
        "shared_inv c (wks[i := upd ok]) (sh\<lparr>sh_static := static, sh_world := w\<rparr>)"
      using register_control [OF assms(1,2)] by metis
    have "bench_move a n (?wk, control_of sh) (upd ok, control_of sh)"
      using gave_up [of ?wk a n] setup_done [OF 3, of a n] 3 by (simp add: upd_def)
    then show ?thesis using 3 r by (simp add: worker_setup_def step_control_def control_of_def upd_def [symmetric] split: if_splits)
  next
    case 4
    then show ?thesis using out quiet_calls(4) setup_failed [of ?wk a n] by (auto simp: defs intro!: call)
  qed
qed

lemma teardown_control:
  assumes "shared_inv c wks sh" "i < length wks" and ph: "wk_phase (wks ! i) \<in> {Finish, Unregistering, Freeing}"
  shows "step_control a c n i wks sh (worker_teardown api c (wks ! i, sh))"
proof -
  let ?wk = "wks ! i"
  have wf: "worker_wf ?wk" using assms(1,2) by (simp add: shared_inv_def list_all_length)
  then have out: "put_wf (wk_put ?wk)" "pt_phase (wk_put ?wk) = PutOutside" using ph by (auto simp: worker_wf_def)
  note call = shared_inv_call [OF assms(1,2)]
  note defs = worker_teardown_def step_control_def control_of_def worker_wf_def worker_mem_def
  consider "wk_phase ?wk = Finish" | "wk_phase ?wk = Unregistering" | "wk_phase ?wk = Freeing" using ph by blast
  then show ?thesis
  proof cases
    case 1
    obtain t w where n: "w_now api (sh_world sh) = (t, w)" by force
    show ?thesis using 1 n out quiet_calls(1) [OF n] finished [OF 1, of a n] by (auto simp: defs intro!: call)
  next
    case 2
    have "worker_wf (?wk\<lparr>wk_phase := Freeing\<rparr>)" "worker_mem (?wk\<lparr>wk_phase := Freeing\<rparr>) = worker_mem ?wk"
      using out by (simp_all add: worker_wf_def worker_mem_def)
    then obtain ok static w where "UnregisterDeviceBuffer api c (wk_dev ?wk) (sh_static sh, sh_world sh) = Some (ok, static, w)"
        "shared_inv c (wks[i := ?wk\<lparr>wk_phase := Freeing\<rparr>]) (sh\<lparr>sh_static := static, sh_world := w\<rparr>)"
      using unregister_control [OF assms(1,2)] by metis
    then show ?thesis using 2 unregistered [OF 2] by (simp add: worker_teardown_def step_control_def control_of_def)
  next
    case 3
    then show ?thesis using out quiet_calls(4) freed [OF 3] by (auto simp: defs intro!: call)
  qed
qed

text \<open>Beginning a PUT, and a stretch of one.\<close>

lemma begin_control:
  assumes "shared_inv c wks sh" "i < length wks" "pt_phase (wk_put (wks ! i)) = PutOutside"
    and "do_put_begin api a c key (wks ! i, sh) = (wk, sh')" "ph \<in> {WarmupRun k, PutRun k}"
  obtains t0 t where "wk = (wks ! i)\<lparr>wk_t0 := t0, wk_put := t\<rparr>" "put_left t \<le> 39" "control_of sh' = control_of sh"
    "shared_inv c (wks[i := wk\<lparr>wk_phase := ph\<rparr>]) sh'"
proof -
  obtain t0 w where n: "w_now api (sh_world sh) = (t0, w)" by force
  let ?t = "enter_put c (bench_request a key) \<lparr>cbv_data = wk_dev (wks ! i), cbv_size = ba_size a\<rparr> unset_result (wk_put (wks ! i))"
  have wf: "put_wf (wk_put (wks ! i))" using assms(1,2) by (simp add: shared_inv_def list_all_length worker_wf_def)
  have t: "put_wf ?t" "pt_mem ?t = pt_mem (wk_put (wks ! i))"
    using enter_put_wf [OF wf assms(3)] by (simp_all add: enter_put_def Let_def)
  have r: "wk = (wks ! i)\<lparr>wk_t0 := t0, wk_put := ?t\<rparr>" "sh' = sh\<lparr>sh_world := w\<rparr>"
    using assms(4) n by (simp_all add: do_put_begin_def)
  have "shared_inv c (wks[i := wk\<lparr>wk_phase := ph\<rparr>]) sh'"
    by (rule shared_inv_call [OF assms(1,2)])
      (use t r assms(5) quiet_calls(1) [OF n] in \<open>auto simp: worker_wf_def worker_mem_def\<close>)
  then show ?thesis using that r put_left_le [OF t(1)] by (simp add: control_of_def)
qed

lemma stretch_control:
  assumes "shared_inv c wks sh" "i < length wks" "pt_phase (wk_put (wks ! i)) \<noteq> PutOutside"
    and "wk_phase (wks ! i) \<in> {WarmupRun k, PutRun k}"
  shows "step_control a c n i wks sh (do_put_move api c (wks ! i, sh))"
proof -
  let ?wk = "wks ! i"
  have wf: "put_wf (wk_put ?wk)" using assms(1,2) by (simp add: shared_inv_def list_all_length worker_wf_def)
  obtain meta chunk mgr where p: "client_parts c (sh_static sh) = Some (meta, chunk, mgr)"
    using assms(1) by (auto simp: shared_inv_def)
  obtain t mgr' w where m: "put_move api (cl_options c) meta chunk (wk_put ?wk, mgr, sh_world sh) = (t, mgr', w)"
    by (metis prod.collapse)
  have t: "put_wf t" "put_left t < put_left (wk_put ?wk)"
    using put_move_wf [OF wf m] put_move_left [OF wf assms(3) m] by blast+
  have "shared_inv c (wks[i := ?wk\<lparr>wk_put := t\<rparr>]) (sh\<lparr>sh_static := Some mgr', sh_world := w\<rparr>)"
    by (rule shared_inv_effects [OF assms(1,2) _ p])
      (use t(1) assms(4) put_move_effects [OF wf m] in \<open>auto simp: worker_wf_def worker_mem_def\<close>)
  moreover have "bench_move a n (?wk, control_of sh) (?wk\<lparr>wk_put := t\<rparr>, control_of sh)"
    by (rule working [OF assms(4) t(2)])
  ultimately show ?thesis
    using m p assms(3) by (simp add: do_put_move_def put_step_def step_control_def control_of_def)
qed

lemma do_put_control:
  assumes "shared_inv c wks sh" "i < length wks" "wk_phase (wks ! i) \<in> {WarmupRun k, PutRun k}"
    and after: "\<forall>j. after \<noteq> WarmupRun j \<and> after \<noteq> PutRun j"
    and moves: "\<And>st s. counted (ba_size a) (wk_stats (wks ! i)) st \<Longrightarrow>
      bench_move a n (wks ! i, s) ((wks ! i)\<lparr>wk_stats := st, wk_phase := after\<rparr>, s)"
  shows "step_control a c n i wks sh (do_put_step api a c after (wks ! i, sh))"
proof (cases "pt_phase (wk_put (wks ! i)) = PutOutside")
  case False
  then show ?thesis using stretch_control [OF assms(1,2) False assms(3)] by (simp add: do_put_step_def)
next
  case True
  let ?wk = "wks ! i"
  have wf: "put_wf (wk_put ?wk)" using assms(1,2) by (simp add: shared_inv_def list_all_length worker_wf_def)
  obtain t1 w where n: "w_now api (sh_world sh) = (t1, w)" by force
  define st where "st = (if pt_ok (wk_put ?wk)
      then (wk_stats ?wk)\<lparr>ws_latencies := ws_latencies (wk_stats ?wk) @ [t1 - wk_t0 ?wk],
             ws_ok := ws_ok (wk_stats ?wk) + 1, ws_bytes := ws_bytes (wk_stats ?wk) + ba_size a\<rparr>
      else (wk_stats ?wk)\<lparr>ws_fail := ws_fail (wk_stats ?wk) + 1\<rparr>)"
  have st: "counted (ba_size a) (wk_stats ?wk) st"
    "do_put_end api a (?wk, sh) = (?wk\<lparr>wk_stats := st\<rparr>, sh\<lparr>sh_world := w\<rparr>)"
    using n by (simp_all add: st_def put_ok put_failed do_put_end_def Let_def)
  have "shared_inv c (wks[i := ?wk\<lparr>wk_stats := st, wk_phase := after\<rparr>]) (sh\<lparr>sh_world := w\<rparr>)"
    by (rule shared_inv_call [OF assms(1,2)])
      (use wf True after quiet_calls(1) [OF n] in \<open>auto simp: worker_wf_def worker_mem_def\<close>)
  then show ?thesis
    using True st moves [OF st(1)] by (simp add: do_put_step_def step_control_def control_of_def)
qed

lemma warmup_control:
  assumes "shared_inv c wks sh" "wid < length wks" and ph: "wk_phase (wks ! wid) = Warmup i"
  shows "step_control a c n wid wks sh (worker_step api a c pattern n wid (wks ! wid, sh))"
proof -
  let ?wk = "wks ! wid"
  have wf: "worker_wf ?wk" using assms(1,2) by (simp add: shared_inv_def list_all_length)
  then have out: "pt_phase (wk_put ?wk) = PutOutside" using ph by (simp add: worker_wf_def)
  show ?thesis
  proof (cases "i < ba_warmup a")
    case True
    obtain wk sh' where b: "do_put_begin api a c (warmup_key a wid i) (?wk, sh) = (wk, sh')" by force
    obtain t0 t where t: "wk = ?wk\<lparr>wk_t0 := t0, wk_put := t\<rparr>" "put_left t \<le> 39" "control_of sh' = control_of sh"
        "shared_inv c (wks[wid := wk\<lparr>wk_phase := WarmupRun i\<rparr>]) sh'"
      using begin_control [OF assms(1,2) out b, of "WarmupRun i" i] by blast
    then show ?thesis using True ph b warming [OF ph True t(2)] by (simp add: worker_step_def step_control_def)
  next
    case False
    obtain nx arr rel where ctl: "control_of sh = (nx, arr, rel)" by (metis prod.collapse)
    have "shared_inv c (wks[wid := ?wk\<lparr>wk_phase := Waiting\<rparr>]) (barrier_arrive api n sh)"
      by (rule shared_inv_call [OF assms(1,2)])
        (use wf out arrive_quiet [of sh api n] in \<open>auto simp: worker_wf_def worker_mem_def\<close>)
    moreover have "control_of (barrier_arrive api n sh) = (nx, Suc arr, rel \<or> Suc arr = n)"
      using ctl by (auto simp: barrier_arrive_def control_of_def Let_def split: prod.split)
    ultimately show ?thesis using False ph ctl arrived [OF ph False] by (simp add: worker_step_def step_control_def)
  qed
qed

lemma worker_step_control:
  assumes "shared_inv c wks sh" "i < length wks"
  obtains wk' sh' where "worker_step api a c pattern n i (wks ! i, sh) = Some (wk', sh')"
    "shared_inv c (wks[i := wk']) sh'" "bench_move a n (wks ! i, control_of sh) (wk', control_of sh')"
proof -
  let ?wk = "wks ! i"
  have wf: "worker_wf ?wk" using assms by (simp add: shared_inv_def list_all_length)
  have local: "shared_inv c (wks[i := ?wk\<lparr>wk_phase := ph, wk_claims := cl\<rparr>]) sh'"
    if "\<forall>j. ph \<noteq> WarmupRun j \<and> ph \<noteq> PutRun j" "pt_phase (wk_put ?wk) = PutOutside"
      "sh_static sh' = sh_static sh" "sh_world sh' = sh_world sh" for ph cl sh'
    by (rule shared_inv_call [OF assms]) (use that wf quiet_same [of "sh_world sh"] in \<open>auto simp: worker_wf_def worker_mem_def\<close>)
  have "step_control a c n i wks sh (worker_step api a c pattern n i (?wk, sh))"
  proof (cases "wk_phase ?wk")
    case (Warmup j)
    show ?thesis by (rule warmup_control [OF assms Warmup])
  next
    case (WarmupRun j)
    have "step_control a c n i wks sh (do_put_step api a c (Warmup (j + 1)) (?wk, sh))"
      by (rule do_put_control [OF assms]) (use WarmupRun warmed [OF WarmupRun] in auto)
    then show ?thesis using WarmupRun by (simp add: worker_step_def)
  next
    case (PutRun j)
    have "step_control a c n i wks sh (do_put_step api a c Claim (?wk, sh))"
      by (rule do_put_control [OF assms]) (use PutRun put [OF PutRun] in auto)
    then show ?thesis using PutRun by (simp add: worker_step_def)
  next
    case (Putting j)
    have out: "pt_phase (wk_put ?wk) = PutOutside" using wf Putting by (simp add: worker_wf_def)
    obtain wk sh' where b: "do_put_begin api a c (object_key_of a j) (?wk, sh) = (wk, sh')" by force
    obtain t0 t where t: "wk = ?wk\<lparr>wk_t0 := t0, wk_put := t\<rparr>" "put_left t \<le> 39" "control_of sh' = control_of sh"
        "shared_inv c (wks[i := wk\<lparr>wk_phase := PutRun j\<rparr>]) sh'"
      using begin_control [OF assms out b, of "PutRun j" j] by blast
    then show ?thesis using Putting b putting [OF Putting t(2)] by (simp add: worker_step_def step_control_def)
  next
    case Waiting
    then have out: "pt_phase (wk_put ?wk) = PutOutside" using wf by (simp add: worker_wf_def)
    show ?thesis
      using Waiting out assms local [of Claim sh "wk_claims ?wk"] held [OF Waiting, of a n] let_through [OF Waiting, of a n]
      by (cases "sh_start sh") (simp_all add: worker_step_def step_control_def control_of_def)
  next
    case Claim
    then have out: "pt_phase (wk_put ?wk) = PutOutside" using wf by (simp add: worker_wf_def)
    show ?thesis
      using Claim out local [of "Putting (sh_next sh)" "sh\<lparr>sh_next := sh_next sh + 1\<rparr>"]
        local [of Finish "sh\<lparr>sh_next := sh_next sh + 1\<rparr>" "wk_claims ?wk"]
        claimed [OF Claim, of "sh_next sh" a n] drained [OF Claim, of "sh_next sh" a n]
      by (simp add: worker_step_def step_control_def control_of_def Let_def)
  next
    case Ended
    then show ?thesis using assms returned [OF Ended] by (simp add: worker_step_def step_control_def)
  qed (use setup_control [OF assms] teardown_control [OF assms] in \<open>simp_all add: worker_step_def\<close>)
  then show ?thesis using that by (auto simp: step_control_def split: option.splits)
qed

inductive control_step :: "Args \<Rightarrow> worker list \<times> control \<Rightarrow> worker list \<times> control \<Rightarrow> bool" for a where
  "wid < length wks \<Longrightarrow> bench_move a (length wks) (wks ! wid, s) (wk, s') \<Longrightarrow>
   control_step a (wks, s) (wks[wid := wk], s')"

text \<open>No schedule faults, and every run of the workers is a run of the specification.\<close>

lemma bench_step_control:
  assumes "shared_inv c wks sh"
  obtains wks' sh' where "bench_step api a c pattern wid (wks, sh) = Some (wks', sh')" "shared_inv c wks' sh'"
    "(control_step a)\<^sup>*\<^sup>* (wks, control_of sh) (wks', control_of sh')"
proof (cases "wid < length wks")
  case True
  obtain wk' sh' where w: "worker_step api a c pattern (length wks) wid (wks ! wid, sh) = Some (wk', sh')"
      "shared_inv c (wks[wid := wk']) sh'" "bench_move a (length wks) (wks ! wid, control_of sh) (wk', control_of sh')"
    using worker_step_control [OF assms True] .
  show ?thesis
    by (rule that [of "wks[wid := wk']" sh'])
      (use True w control_step.intros [OF True w(3)] in \<open>auto simp: bench_step_def\<close>)
next
  case False
  then show ?thesis using that [of wks sh] assms by (simp add: bench_step_def)
qed

lemma bench_sched_control:
  assumes "shared_inv c wks sh"
  obtains wks' sh' where "bench_sched api a c pattern sched (wks, sh) = Some (wks', sh')"
    "shared_inv c wks' sh'" "(control_step a)\<^sup>*\<^sup>* (wks, control_of sh) (wks', control_of sh')"
  using assms
proof (induction sched arbitrary: wks sh thesis)
  case Nil
  then show ?case by simp
next
  case (Cons wid sched)
  obtain wks1 sh1 where s1: "bench_step api a c pattern wid (wks, sh) = Some (wks1, sh1)"
      "shared_inv c wks1 sh1" "(control_step a)\<^sup>*\<^sup>* (wks, control_of sh) (wks1, control_of sh1)"
    using bench_step_control [OF Cons.prems(2)] .
  obtain wks2 sh2 where "bench_sched api a c pattern sched (wks1, sh1) = Some (wks2, sh2)"
      "shared_inv c wks2 sh2" "(control_step a)\<^sup>*\<^sup>* (wks1, control_of sh1) (wks2, control_of sh2)"
    using Cons.IH [OF _ s1(2)] by blast
  then show ?case using Cons.prems(1) s1 by (auto intro: rtranclp_trans)
qed

section \<open>The invariant\<close>

definition done_with_work :: "worker \<Rightarrow> bool" where
  "done_with_work wk \<longleftrightarrow> (wk_phase wk = Finish \<or> wk_phase wk = Unregistering \<or> wk_phase wk = Freeing \<or>
     wk_phase wk = Ended \<and> ws_ready (wk_stats wk))"

definition past_barrier :: "worker \<Rightarrow> bool" where
  "past_barrier wk \<longleftrightarrow> (wk_phase wk = Claim \<or> (\<exists>i. wk_phase wk = Putting i \<or> wk_phase wk = PutRun i) \<or> done_with_work wk)"

definition at_barrier :: "worker \<Rightarrow> bool" where
  "at_barrier wk \<longleftrightarrow> (wk_phase wk = Waiting \<or> past_barrier wk)"

lemmas phase_defs = done_with_work_def past_barrier_def at_barrier_def

text \<open>What a worker has counted: its warm-up transfers, and one for every index it claimed.\<close>

definition attempts_of :: "Args \<Rightarrow> worker \<Rightarrow> u64" where
  "attempts_of a wk = (case wk_phase wk of
       Warmup i \<Rightarrow> i | WarmupRun i \<Rightarrow> i
     | Putting i \<Rightarrow> ba_warmup a + word_of_nat (length (wk_claims wk)) - 1
     | PutRun i \<Rightarrow> ba_warmup a + word_of_nat (length (wk_claims wk)) - 1
     | _ \<Rightarrow> ba_warmup a + word_of_nat (length (wk_claims wk)))"

definition setting_up :: "worker_phase \<Rightarrow> bool" where
  "setting_up ph \<longleftrightarrow> ph \<in> {Begin, Filling, Registering, GivingUp}"

definition worker_inv :: "Args \<Rightarrow> worker \<Rightarrow> bool" where
  "worker_inv a wk \<longleftrightarrow>
     (if ws_ready (wk_stats wk) then
        \<not> setting_up (wk_phase wk) \<and> ws_ok (wk_stats wk) + ws_fail (wk_stats wk) = attempts_of a wk \<and>
        ws_bytes (wk_stats wk) = ws_ok (wk_stats wk) * ba_size a \<and>
        word_of_nat (length (ws_latencies (wk_stats wk))) = ws_ok (wk_stats wk) \<and>
        (\<forall>i. wk_phase wk = Warmup i \<longrightarrow> i \<le> ba_warmup a) \<and> (\<forall>i. wk_phase wk = WarmupRun i \<longrightarrow> i < ba_warmup a)
      else wk_stats wk = new_stats \<and> (setting_up (wk_phase wk) \<or> wk_phase wk = Ended)) \<and>
     (past_barrier wk \<or> wk_claims wk = [])"

lemma worker_inv_new: "worker_inv a new_worker"
  by (simp add: worker_inv_def new_worker_def new_stats_def phase_defs setting_up_def)

lemma counted_step:
  assumes "counted sz s s'"
  shows "ws_ok s' + ws_fail s' = ws_ok s + ws_fail s + 1 \<and> ws_ready s' = ws_ready s \<and>
    (ws_bytes s = ws_ok s * sz \<longrightarrow> ws_bytes s' = ws_ok s' * sz) \<and>
    (word_of_nat (length (ws_latencies s)) = ws_ok s \<longrightarrow> word_of_nat (length (ws_latencies s')) = ws_ok s')"
  using assms by (cases rule: counted.cases) (auto simp: algebra_simps)

lemma worker_inv_move:
  assumes "bench_move a n (wk, s) (wk', s')" and "worker_inv a wk"
  shows "worker_inv a wk'"
  using assms
proof (cases rule: bench_move.cases)
  case (warmed i st)
  have "ws_ready (wk_stats wk)" "i < ba_warmup a"
    using warmed(3) assms(2) by (auto simp: worker_inv_def setting_up_def split: if_splits)
  moreover from this(2) have "i + 1 \<le> ba_warmup a" by (simp add: inc_le)
  ultimately show ?thesis
    using warmed assms(2) counted_step [OF warmed(4)]
    by (auto simp: worker_inv_def attempts_of_def phase_defs setting_up_def)
next
  case (put i st)
  have "ws_ready (wk_stats wk)" using put(3) assms(2) by (auto simp: worker_inv_def setting_up_def split: if_splits)
  then show ?thesis
    using put assms(2) counted_step [OF put(4)]
    by (auto simp: worker_inv_def attempts_of_def phase_defs setting_up_def)
qed (auto simp: worker_inv_def attempts_of_def new_stats_def phase_defs setting_up_def split: if_splits)


definition claims_of :: "worker list \<Rightarrow> u64 multiset" where
  "claims_of wks = (\<Sum>wk\<leftarrow>wks. mset (wk_claims wk))"

definition indices_below :: "nat \<Rightarrow> u64 multiset" where
  "indices_below k = mset (map word_of_nat [0..<k])"

definition number :: "(worker \<Rightarrow> bool) \<Rightarrow> worker list \<Rightarrow> nat" where
  "number P wks = (\<Sum>wk\<leftarrow>wks. if P wk then 1 else 0)"

definition control_inv :: "Args \<Rightarrow> worker list \<times> control \<Rightarrow> bool" where
  "control_inv a = (\<lambda>(wks, nx, arr, rel).
     list_all (worker_inv a) wks \<and> arr = number at_barrier wks \<and> (rel \<longleftrightarrow> arr = length wks) \<and>
     list_all (\<lambda>wk. past_barrier wk \<longrightarrow> rel) wks \<and>
     claims_of wks = indices_below (min (unat nx) (unat (ba_count a))) \<and>
     unat nx \<le> unat (ba_count a) + number done_with_work wks \<and>
     list_all (\<lambda>wk. done_with_work wk \<longrightarrow> ba_count a \<le> nx) wks)"

lemma number_swap:
  assumes "i < length wks"
  shows "number P (wks[i := wk]) + (if P (wks ! i) then 1 else 0) = number P wks + (if P wk then 1 else 0)"
  unfolding number_def by (rule sum_list_swap [OF assms])

lemma claims_swap:
  assumes "i < length wks"
  shows "claims_of (wks[i := wk]) + mset (wk_claims (wks ! i)) = claims_of wks + mset (wk_claims wk)"
  unfolding claims_of_def by (rule sum_list_swap [OF assms])

lemma indices_below_Suc: "indices_below (Suc k) = add_mset (word_of_nat k) (indices_below k)"
  by (simp add: indices_below_def)

lemma number_le: "number P wks \<le> length wks"
  unfolding number_def by (rule count_list_le)

text \<open>Replacing one worker: what the counter and the barrier have to do for it.\<close>

lemma control_inv_swap:
  assumes inv: "control_inv a (wks, nx, arr, rel)" and i: "i < length wks" and w: "worker_inv a wk"
    and "past_barrier wk \<longrightarrow> rel'" "rel \<longrightarrow> rel'" "rel' \<longleftrightarrow> arr' = length wks"
    and "arr' + of_bool (at_barrier (wks ! i)) = arr + of_bool (at_barrier wk)"
    and "indices_below (min (unat nx') (unat (ba_count a))) + mset (wk_claims (wks ! i)) =
      indices_below (min (unat nx) (unat (ba_count a))) + mset (wk_claims wk)"
    and "unat nx' \<le> unat (ba_count a) + number done_with_work (wks[i := wk])"
    and "done_with_work wk \<longrightarrow> ba_count a \<le> nx'" "nx \<le> nx'"
  shows "control_inv a (wks[i := wk], nx', arr', rel')"
proof -
  have "list_all (\<lambda>wk. past_barrier wk \<longrightarrow> rel') wks"
    "list_all (\<lambda>wk. done_with_work wk \<longrightarrow> ba_count a \<le> nx') wks"
    using inv assms(5,11) by (auto simp: control_inv_def list_all_iff intro: order_trans)
  then have "list_all (\<lambda>wk. past_barrier wk \<longrightarrow> rel') (wks[i := wk])"
    "list_all (\<lambda>wk. done_with_work wk \<longrightarrow> ba_count a \<le> nx') (wks[i := wk])"
    "list_all (worker_inv a) (wks[i := wk])"
    using assms(4,10) w inv by (auto simp: control_inv_def intro!: list_all_swap)
  moreover have "arr' = number at_barrier (wks[i := wk])"
    using inv assms(7) number_swap [OF i, of at_barrier wk]
    by (auto simp: control_inv_def of_bool_def split: if_splits)
  moreover have "claims_of (wks[i := wk]) = indices_below (min (unat nx') (unat (ba_count a)))"
    using inv assms(8) claims_swap [OF i, of wk] unfolding control_inv_def prod.case by (metis add_right_cancel)
  ultimately show ?thesis using assms(6,9) by (simp add: control_inv_def)
qed

lemma control_inv_local:
  assumes inv: "control_inv a (wks, nx, arr, rel)" and i: "i < length wks" and w: "worker_inv a wk"
    and same: "at_barrier wk = at_barrier (wks ! i)" "past_barrier wk \<longrightarrow> rel"
      "done_with_work wk = done_with_work (wks ! i)" "wk_claims wk = wk_claims (wks ! i)"
  shows "control_inv a (wks[i := wk], nx, arr, rel)"
proof (rule control_inv_swap [OF inv i w])
  show "done_with_work wk \<longrightarrow> ba_count a \<le> nx" "rel \<longleftrightarrow> arr = length wks"
    "unat nx \<le> unat (ba_count a) + number done_with_work (wks[i := wk])"
    using inv number_swap [OF i, of done_with_work wk] same(3) i
    unfolding control_inv_def list_all_length prod.case by auto
qed (use same in simp_all)

text \<open>The moves by what they do to the counter and the barrier.\<close>

lemma bench_move_kinds:
  assumes "bench_move a n (wk, nx, arr, rel) (wk', nx', arr', rel')" "worker_inv a wk"
  obtains (own) "nx' = nx" "arr' = arr" "rel' = rel" "at_barrier wk' = at_barrier wk" "past_barrier wk' \<longrightarrow> past_barrier wk \<or> rel"
      "done_with_work wk' = done_with_work wk" "wk_claims wk' = wk_claims wk"
    | (arrives) i where "wk_phase wk = Warmup i" "wk' = wk\<lparr>wk_phase := Waiting\<rparr>" "nx' = nx" "arr' = Suc arr" "rel' = (rel \<or> Suc arr = n)"
    | (claims) "wk_phase wk = Claim" "nx < ba_count a" "wk' = wk\<lparr>wk_phase := Putting nx, wk_claims := wk_claims wk @ [nx]\<rparr>"
      "nx' = nx + 1" "arr' = arr" "rel' = rel"
    | (drains) "wk_phase wk = Claim" "\<not> nx < ba_count a" "wk' = wk\<lparr>wk_phase := Finish\<rparr>" "nx' = nx + 1" "arr' = arr" "rel' = rel"
  using assms(1)
proof (cases rule: bench_move.cases)
  case setup_failed
  then have "\<not> ws_ready (wk_stats wk)" using assms(2) by (auto simp: worker_inv_def setting_up_def split: if_splits)
  then show ?thesis using setup_failed by (intro own) (auto simp: phase_defs)
next
  case freed
  then have "ws_ready (wk_stats wk)" using assms(2) by (auto simp: worker_inv_def setting_up_def split: if_splits)
  then show ?thesis using freed by (intro own) (auto simp: phase_defs)
next
  case (arrived i)
  then show ?thesis by (intro arrives) auto
next
  case claimed
  then show ?thesis by (intro claims) auto
next
  case drained
  then show ?thesis by (intro drains) auto
next
  case gave_up
  then show ?thesis by (intro own) (auto simp: phase_defs)
next
  case working
  then show ?thesis by (intro own) (auto simp: phase_defs)
next
  case allocated
  then show ?thesis by (intro own) (simp_all add: phase_defs)
next
  case filled
  then show ?thesis by (intro own) (simp_all add: phase_defs)
next
  case setup_done
  then show ?thesis by (intro own) (simp_all add: phase_defs)
next
  case warming
  then show ?thesis by (intro own) (simp_all add: phase_defs)
next
  case warmed
  then show ?thesis by (intro own) (simp_all add: phase_defs)
next
  case held
  then show ?thesis by (intro own) (simp_all add: phase_defs)
next
  case let_through
  then show ?thesis by (intro own) (simp_all add: phase_defs)
next
  case putting
  then show ?thesis by (intro own) (simp_all add: phase_defs)
next
  case put
  then show ?thesis by (intro own) (simp_all add: phase_defs)
next
  case finished
  then show ?thesis by (intro own) (simp_all add: phase_defs)
next
  case unregistered
  then show ?thesis by (intro own) (simp_all add: phase_defs)
next
  case returned
  then show ?thesis by (intro own) (simp_all add: phase_defs)
qed

lemma control_inv_step:
  assumes "control_step a (wks, s) (wks', s')" and inv: "control_inv a (wks, s)"
    and small: "unat (ba_count a) + length wks < 2 ^ 64"
  shows "control_inv a (wks', s')"
  using assms(1)
proof cases
  case (1 i wk)
  obtain nx arr rel where s: "s = (nx, arr, rel)" by (metis prod.collapse)
  obtain nx' arr' rel' where s': "s' = (nx', arr', rel')" by (metis prod.collapse)
  note inv' = inv [unfolded s]
  have old: "worker_inv a (wks ! i)" "past_barrier (wks ! i) \<longrightarrow> rel"
    using inv' 1(2) unfolding control_inv_def list_all_length prod.case by blast+
  have new: "worker_inv a wk" using worker_inv_move [OF 1(3) old(1)] .
  note swap = control_inv_swap [OF inv' 1(2) new] and tally = number_swap [OF 1(2), of done_with_work wk]
  have ctl: "rel \<longleftrightarrow> arr = length wks" "arr = number at_barrier wks"
    "unat nx \<le> unat (ba_count a) + number done_with_work wks"
    using inv' by (simp_all add: control_inv_def)
  have "control_inv a (wks[i := wk], nx', arr', rel')"
    using 1(3) [unfolded s s'] old(1)
  proof (cases rule: bench_move_kinds)
    case own
    then show ?thesis using control_inv_local [OF inv' 1(2) new] old(2) by auto
  next
    case (arrives j)
    have "\<not> at_barrier (wks ! i)" using arrives by (auto simp: phase_defs)
    then have "\<not> rel" "Suc arr \<le> length wks"
      using ctl count_list_less [of "wks ! i" wks at_barrier] 1(2) number_le [of at_barrier wks]
      by (auto simp: number_def)
    then show ?thesis using arrives ctl tally by (intro swap) (auto simp: phase_defs)
  next
    case claims
    then have lt: "unat nx < unat (ba_count a)" by (simp add: word_less_nat_alt)
    have nxt: "unat (nx + 1) = Suc (unat nx)" using lt unat_u64_less [of "ba_count a"]
      by (simp add: unat_word_ariths)
    show ?thesis
      using claims ctl tally lt old(2) nxt
      by (intro swap) (auto simp: phase_defs indices_below_Suc word_le_nat_alt min_def)
  next
    case drains
    then have le: "unat (ba_count a) \<le> unat nx" by (simp add: word_less_nat_alt not_less)
    have "number done_with_work wks < length wks"
      using count_list_less [of "wks ! i" wks done_with_work] 1(2) drains by (auto simp: number_def phase_defs)
    then have nxt: "unat (nx + 1) = Suc (unat nx)" using ctl(3) small by (simp add: unat_word_ariths)
    show ?thesis
      using drains ctl tally le old(2) nxt
      by (intro swap) (auto simp: phase_defs word_le_nat_alt min_def)
  qed
  then show ?thesis using s' 1(1) by simp
qed

end
