(* ===== verification/Bench_Lemmas.thy ===== *)
theory Bench_Lemmas
  imports Bench_Control
begin

text \<open>
  From the benchmark's control to its runs: the invariant of every schedule, what the summary
  adds up to, what a failed set-up does to the others, and how much work is left.
\<close>

section \<open>Runs from the start\<close>

lemma control_step_length: "control_step a (wks, s) (wks', s') \<Longrightarrow> length wks' = length wks"
  by (auto elim: control_step.cases)

lemma control_run_inv:
  assumes "(control_step a)\<^sup>*\<^sup>* (wks, s) (wks', s')" and "control_inv a (wks, s)"
    and "unat (ba_count a) + length wks < 2 ^ 64"
  shows "control_inv a (wks', s') \<and> length wks' = length wks"
  using assms(1)
proof (induction rule: rtranclp_induct2)
  case refl
  then show ?case using assms(2) by simp
next
  case (step wks1 s1 wks2 s2)
  then show ?case using control_inv_step [OF step(2)] control_step_length [OF step(2)] assms(3) by simp
qed

lemma control_inv_start:
  assumes "0 < n"
  shows "control_inv a (replicate n new_worker, 0, 0, False)"
proof -
  have new: "wk_phase new_worker = Begin" "wk_claims new_worker = []" by (simp_all add: new_worker_def)
  show ?thesis
    using assms worker_inv_new [of a]
    by (simp add: control_inv_def number_def claims_of_def indices_below_def phase_defs new
        map_replicate_const list_all_length sum_list_replicate_zero)
qed

text \<open>The parameters of a run that the program accepts and that cannot wrap its counter.\<close>

definition bench_sane :: "Args \<Rightarrow> bool" where
  "bench_sane a \<longleftrightarrow> ba_concurrency a \<noteq> 0 \<and> unat (ba_count a) + unat (ba_concurrency a) < 2 ^ 64"

lemma shared_inv_start:
  assumes "client_inv (c, static, w)" "cl_initialized c"
  shows "shared_inv c (replicate n new_worker) \<lparr>sh_static = static, sh_world = w, sh_next = 0, sh_arrived = 0, sh_start = None\<rparr>"
proof -
  obtain meta chunk mgr where "client_parts c static = Some (meta, chunk, mgr)" "mm_holds [] (mgr, w)"
    using client_ready [OF assms] by metis
  moreover have "worker_wf new_worker" "worker_mem new_worker = idle_mem_thread"
    by (simp_all add: worker_wf_def worker_mem_def new_worker_def)
  ultimately show ?thesis
    using assms(2) by (simp add: shared_inv_def memory_inv_def list_all_length map_replicate_const
        thread_tokens_def mem_thread_wf_def idle_mem_thread_def owned_token_def null_token_def)
qed

lemma bench_run:
  assumes "client_inv (c, static, w)" "cl_initialized c" and "bench_sane a"
  obtains wks sh where "bench_sched api a c pattern sched (bench_start a static w) = Some (wks, sh)"
    "shared_inv c wks sh" "control_inv a (wks, control_of sh)" "length wks = unat (ba_concurrency a)"
proof -
  let ?wks = "replicate (unat (ba_concurrency a)) new_worker"
  let ?sh = "\<lparr>sh_static = static, sh_world = w, sh_next = 0, sh_arrived = 0, sh_start = None\<rparr>"
  obtain wks sh where r: "bench_sched api a c pattern sched (?wks, ?sh) = Some (wks, sh)" "shared_inv c wks sh"
      "(control_step a)\<^sup>*\<^sup>* (?wks, control_of ?sh) (wks, control_of sh)"
    using bench_sched_control [OF shared_inv_start [OF assms(1,2)]] .
  have "0 < unat (ba_concurrency a)" using assms(3) by (simp add: bench_sane_def unat_gt_0)
  then have "control_inv a (?wks, control_of ?sh)"
    using control_inv_start by (simp add: control_of_def)
  from control_run_inv [OF r(3) this] show ?thesis
    using that r assms(3) by (simp add: bench_start_def bench_sane_def)
qed

lemma bench_sched_append:
  "bench_sched api a c pattern (xs @ ys) st =
     Option.bind (bench_sched api a c pattern xs st) (bench_sched api a c pattern ys)"
proof (induction xs arbitrary: st)
  case (Cons x xs)
  then show ?case by (cases "bench_step api a c pattern x st") simp_all
qed simp

section \<open>When everyone has returned\<close>

definition failed_worker :: "worker \<Rightarrow> bool" where
  "failed_worker wk \<longleftrightarrow> wk_phase wk = Ended \<and> \<not> ws_ready (wk_stats wk)"

lemma barrier_shut:
  assumes "control_inv a (wks, nx, arr, rel)" and "wk \<in> set wks" "failed_worker wk"
    and "wk' \<in> set wks" "past_barrier wk'"
  shows False
proof -
  have "rel" using assms(1,4,5) by (auto simp: control_inv_def list_all_iff)
  then have "number at_barrier wks = length wks" using assms(1) by (simp add: control_inv_def)
  then have "list_all at_barrier wks" by (simp add: number_def count_list_all)
  then show False using assms(2,3) by (auto simp: list_all_iff failed_worker_def phase_defs)
qed

lemma all_ended_ready:
  assumes "control_inv a (wks, nx, arr, rel)" and "list_all (\<lambda>wk. wk_phase wk = Ended) wks"
    and "wk \<in> set wks" "ws_ready (wk_stats wk)"
  shows "list_all (\<lambda>wk. ws_ready (wk_stats wk)) wks" and "claims_of wks = indices_below (unat (ba_count a))"
proof -
  have d: "done_with_work wk" using assms(2-4) by (simp add: done_with_work_def list_all_iff)
  have "ws_ready (wk_stats wk')" if "wk' \<in> set wks" for wk'
    using barrier_shut [OF assms(1) that _ assms(3)] d assms(2) that
    by (auto simp: failed_worker_def past_barrier_def list_all_iff)
  then show "list_all (\<lambda>wk. ws_ready (wk_stats wk)) wks" by (simp add: list_all_iff)
  have "ba_count a \<le> nx" using assms(1,3) d by (auto simp: control_inv_def list_all_iff)
  then show "claims_of wks = indices_below (unat (ba_count a))"
    using assms(1) by (simp add: control_inv_def word_le_nat_alt min_def)
qed

section \<open>The summary\<close>

lemma sum_stats_ready:
  assumes "list_all (\<lambda>wk. ws_ready (wk_stats wk)) wks"
  shows "bt_ok (sum_stats k wks t) = bt_ok t + (\<Sum>wk\<leftarrow>wks. ws_ok (wk_stats wk))"
    "bt_fail (sum_stats k wks t) = bt_fail t + (\<Sum>wk\<leftarrow>wks. ws_fail (wk_stats wk))"
    "bt_bytes (sum_stats k wks t) = bt_bytes t + (\<Sum>wk\<leftarrow>wks. ws_bytes (wk_stats wk))"
    "bt_latencies (sum_stats k wks t) = bt_latencies t @ concat (map (\<lambda>wk. ws_latencies (wk_stats wk)) wks)"
  using assms by (induction wks arbitrary: k t) (auto simp: Let_def add.assoc)

lemma sum_stats_any:
  "bt_any_ready (sum_stats k wks t) \<longleftrightarrow> bt_any_ready t \<or> (\<exists>wk\<in>set wks. ws_ready (wk_stats wk))"
  by (induction wks arbitrary: k t) (auto simp: Let_def)

lemma attempts_sum:
  assumes "list_all (\<lambda>wk. worker_inv a wk \<and> wk_phase wk = Ended \<and> ws_ready (wk_stats wk)) wks"
  shows "(\<Sum>wk\<leftarrow>wks. ws_ok (wk_stats wk)) + (\<Sum>wk\<leftarrow>wks. ws_fail (wk_stats wk)) =
      word_of_nat (length wks) * ba_warmup a + word_of_nat (size (claims_of wks)) \<and>
    (\<Sum>wk\<leftarrow>wks. ws_bytes (wk_stats wk)) = (\<Sum>wk\<leftarrow>wks. ws_ok (wk_stats wk)) * ba_size a \<and>
    word_of_nat (length (concat (map (\<lambda>wk. ws_latencies (wk_stats wk)) wks))) =
      (\<Sum>wk\<leftarrow>wks. ws_ok (wk_stats wk))"
  using assms
proof (induction wks)
  case (Cons wk wks)
  have one: "ws_ok (wk_stats wk) + ws_fail (wk_stats wk) = ba_warmup a + word_of_nat (length (wk_claims wk))"
    "ws_bytes (wk_stats wk) = ws_ok (wk_stats wk) * ba_size a"
    "word_of_nat (length (ws_latencies (wk_stats wk))) = ws_ok (wk_stats wk)"
    using Cons.prems by (simp_all add: worker_inv_def attempts_of_def)
  have all: "list_all (\<lambda>wk. worker_inv a wk \<and> wk_phase wk = Ended \<and> ws_ready (wk_stats wk)) wks"
    using Cons.prems by simp
  note IH = Cons.IH [OF all]
  have "(ws_ok (wk_stats wk) + ws_fail (wk_stats wk)) +
      ((\<Sum>wk\<leftarrow>wks. ws_ok (wk_stats wk)) + (\<Sum>wk\<leftarrow>wks. ws_fail (wk_stats wk))) =
      (ba_warmup a + word_of_nat (length (wk_claims wk))) +
      (word_of_nat (length wks) * ba_warmup a + word_of_nat (size (claims_of wks)))"
    using one(1) IH by simp
  then show ?case using IH one(2,3) by (simp add: claims_of_def algebra_simps)
qed (simp add: claims_of_def)


section \<open>A failed set-up, and one that succeeded, stay\<close>

lemma move_keeps:
  assumes "bench_move a n (wk, s) (wk', s')"
  shows "failed_worker wk \<Longrightarrow> failed_worker wk'"
    and "ws_ready (wk_stats wk) \<Longrightarrow> ws_ready (wk_stats wk')"
proof -
  have "failed_worker wk \<longrightarrow> wk' = wk"
    using assms by (cases rule: bench_move.cases) (auto simp: failed_worker_def)
  then show "failed_worker wk \<Longrightarrow> failed_worker wk'" by blast
  have "ws_ready (wk_stats wk) \<longrightarrow> ws_ready (wk_stats wk')"
    using assms by (cases rule: bench_move.cases) (simp_all add: counted_step)
  then show "ws_ready (wk_stats wk) \<Longrightarrow> ws_ready (wk_stats wk')" by blast
qed

lemma step_keeps:
  assumes "control_step a (wks, s) (wks', s')" and "i < length wks"
  shows "(failed_worker (wks ! i) \<longrightarrow> failed_worker (wks' ! i)) \<and>
    (ws_ready (wk_stats (wks ! i)) \<longrightarrow> ws_ready (wk_stats (wks' ! i)))"
  using assms(1)
proof cases
  case (1 wid wk)
  then show ?thesis using move_keeps [OF 1(3)] assms(2) by (cases "i = wid") simp_all
qed

lemma run_keeps:
  assumes "(control_step a)\<^sup>*\<^sup>* (wks, s) (wks', s')" and "i < length wks"
  shows "(failed_worker (wks ! i) \<longrightarrow> failed_worker (wks' ! i)) \<and>
    (ws_ready (wk_stats (wks ! i)) \<longrightarrow> ws_ready (wk_stats (wks' ! i))) \<and> length wks' = length wks"
  using assms(1)
proof (induction rule: rtranclp_induct2)
  case (step wks1 s1 wks2 s2)
  then show ?case using step_keeps [OF step(2), of i] control_step_length [OF step(2)] assms(2) by auto
qed simp

section \<open>The work that is left\<close>

text \<open>A PUT takes at most 41 steps: its beginning, the stretches of \<open>PutObject\<close> and its end.\<close>

definition steps_left :: "Args \<Rightarrow> worker \<Rightarrow> nat" where
  "steps_left a wk = (case wk_phase wk of
       Begin \<Rightarrow> 41 * unat (ba_warmup a) + 9 | Filling \<Rightarrow> 41 * unat (ba_warmup a) + 8
     | Registering \<Rightarrow> 41 * unat (ba_warmup a) + 7 | GivingUp \<Rightarrow> 1
     | Warmup i \<Rightarrow> 41 * (unat (ba_warmup a) - unat i) + 6
     | WarmupRun i \<Rightarrow> 41 * (unat (ba_warmup a) - Suc (unat i)) + 7 + put_left (wk_put wk)
     | Waiting \<Rightarrow> 5 | Putting i \<Rightarrow> 45 | PutRun i \<Rightarrow> 5 + put_left (wk_put wk) | Claim \<Rightarrow> 4
     | Finish \<Rightarrow> 3 | Unregistering \<Rightarrow> 2 | Freeing \<Rightarrow> 1 | Ended \<Rightarrow> 0)"

definition work_left :: "Args \<Rightarrow> worker list \<times> control \<Rightarrow> nat" where
  "work_left a = (\<lambda>(wks, nx, _).
     (\<Sum>wk\<leftarrow>wks. steps_left a wk) + 42 * (unat (ba_count a) - unat nx))"

text \<open>A move uses up work, unless the worker is held at the barrier or has returned.\<close>

lemma move_work:
  assumes "bench_move a n (wk, nx, s) (wk', nx', s')" and "wk_phase wk = Claim \<longrightarrow> unat (nx + 1) = Suc (unat nx)"
    and "worker_inv a wk"
  shows "(wk', nx', s') = (wk, nx, s) \<and> (wk_phase wk = Ended \<or> wk_phase wk = Waiting \<and> \<not> snd s) \<or>
    steps_left a wk' + 42 * (unat (ba_count a) - unat nx') <
    steps_left a wk + 42 * (unat (ba_count a) - unat nx)"
  using assms(1)
proof (cases rule: bench_move.cases)
  case (warming i t)
  then have "unat i < unat (ba_warmup a)" by (simp add: word_less_nat_alt)
  then show ?thesis using warming by (simp add: steps_left_def)
next
  case (warmed i st)
  have "i < ba_warmup a" using warmed(4) assms(3) by (auto simp: worker_inv_def setting_up_def split: if_splits)
  then have "unat (i + 1) = Suc (unat i)" using unat_u64_less [of "ba_warmup a"]
    by (simp add: unat_word_ariths word_less_nat_alt)
  then show ?thesis using warmed by (simp add: steps_left_def)
next
  case (claimed)
  then show ?thesis using assms(2) by (simp add: steps_left_def word_less_nat_alt)
next
  case (drained)
  then show ?thesis using assms(2) by (simp add: steps_left_def word_less_nat_alt)
next
  case setup_failed
  then show ?thesis by (auto simp: steps_left_def)
next
  case gave_up
  then show ?thesis by (auto simp: steps_left_def)
next
  case working
  then show ?thesis by (auto simp: steps_left_def)
qed (simp_all add: steps_left_def)

lemma claim_no_wrap:
  assumes "control_inv a (wks, nx, t)" and "unat (ba_count a) + length wks < 2 ^ 64"
    and "wid < length wks" "wk_phase (wks ! wid) = Claim"
  shows "unat (nx + 1) = Suc (unat nx)"
proof -
  have "number done_with_work wks < length wks"
    using count_list_less [of "wks ! wid" wks done_with_work] assms(3,4)
    by (simp add: number_def done_with_work_def)
  moreover have "unat nx \<le> unat (ba_count a) + number done_with_work wks"
    using assms(1) by (cases t) (simp add: control_inv_def)
  ultimately show ?thesis using assms(2) by (simp add: unat_word_ariths)
qed

lemma step_work:
  assumes "control_inv a (wks, s)" and "unat (ba_count a) + length wks < 2 ^ 64"
    and "wid < length wks" "bench_move a n (wks ! wid, s) (wk, s')"
  shows "(wks[wid := wk], s') = (wks, s) \<and>
      (wk_phase (wks ! wid) = Ended \<or> wk_phase (wks ! wid) = Waiting \<and> \<not> snd (snd s)) \<or>
    work_left a (wks[wid := wk], s') < work_left a (wks, s)"
proof -
  obtain nx t where s: "s = (nx, t)" by (metis surj_pair)
  obtain nx' t' where s': "s' = (nx', t')" by (metis surj_pair)
  have "wk_phase (wks ! wid) = Claim \<longrightarrow> unat (nx + 1) = Suc (unat nx)"
    using claim_no_wrap assms(1-3) s by blast
  moreover have "worker_inv a (wks ! wid)" using assms(1,3) s by (cases t) (simp add: control_inv_def list_all_length)
  ultimately show ?thesis
    using move_work [OF assms(4) [unfolded s s']] sum_list_swap [OF assms(3), of "steps_left a" wk] assms(3) s s'
    by (auto simp: work_left_def)
qed

text \<open>While nobody's set-up has failed and not everyone has returned, someone can move.\<close>

lemma someone_moves:
  assumes inv: "control_inv a (wks, nx, arr, rel)" and "0 < length wks"
    and "list_all (\<lambda>wk. \<not> failed_worker wk) wks"
    and stuck: "list_all (\<lambda>wk. wk_phase wk = Ended \<or> wk_phase wk = Waiting \<and> \<not> rel) wks"
  shows "list_all (\<lambda>wk. wk_phase wk = Ended) wks"
proof (cases rel)
  case True
  then show ?thesis using stuck by (auto simp: list_all_iff)
next
  case False
  have "at_barrier wk" if "wk \<in> set wks" for wk
    using that stuck assms(3) by (auto simp: list_all_iff failed_worker_def phase_defs)
  then have "number at_barrier wks = length wks" by (simp add: number_def count_list_all list_all_iff)
  then show ?thesis using inv False unfolding control_inv_def prod.case by blast
qed

text \<open>One round over the workers uses up work unless all of them are stuck.\<close>

lemma round_work:
  assumes "shared_inv c wks sh" "control_inv a (wks, control_of sh)"
    and "unat (ba_count a) + length wks < 2 ^ 64" and "list_all (\<lambda>i. i < length wks) sched"
  obtains wks' sh' where "bench_sched api a c pattern sched (wks, sh) = Some (wks', sh')"
    "shared_inv c wks' sh'" "control_inv a (wks', control_of sh')"
    "(control_step a)\<^sup>*\<^sup>* (wks, control_of sh) (wks', control_of sh')"
    "work_left a (wks', control_of sh') < work_left a (wks, control_of sh) \<or>
     wks' = wks \<and> control_of sh' = control_of sh \<and> list_all (\<lambda>i. wk_phase (wks ! i) = Ended \<or>
       wk_phase (wks ! i) = Waiting \<and> sh_start sh = None) sched"
  using assms
proof (induction sched arbitrary: wks sh thesis)
  case Nil
  then show ?case by simp
next
  case (Cons i sched)
  have i: "i < length wks" using Cons.prems(5) by simp
  obtain wk sh1 where w: "worker_step api a c pattern (length wks) i (wks ! i, sh) = Some (wk, sh1)"
      "shared_inv c (wks[i := wk]) sh1" "bench_move a (length wks) (wks ! i, control_of sh) (wk, control_of sh1)"
    using worker_step_control [OF Cons.prems(2) i] .
  let ?wks1 = "wks[i := wk]"
  have step: "control_step a (wks, control_of sh) (?wks1, control_of sh1)"
    by (rule control_step.intros [OF i w(3)])
  have inv1: "control_inv a (?wks1, control_of sh1)"
    using control_inv_step [OF step Cons.prems(3,4)] .
  obtain wks' sh' where r: "bench_sched api a c pattern sched (?wks1, sh1) = Some (wks', sh')"
      "shared_inv c wks' sh'" "control_inv a (wks', control_of sh')"
      "(control_step a)\<^sup>*\<^sup>* (?wks1, control_of sh1) (wks', control_of sh')"
      "work_left a (wks', control_of sh') < work_left a (?wks1, control_of sh1) \<or>
       wks' = ?wks1 \<and> control_of sh' = control_of sh1 \<and>
         list_all (\<lambda>i. wk_phase (?wks1 ! i) = Ended \<or> wk_phase (?wks1 ! i) = Waiting \<and> sh_start sh1 = None) sched"
    using Cons.IH [OF _ w(2) inv1] Cons.prems(4,5) by auto
  have run: "bench_sched api a c pattern (i # sched) (wks, sh) = Some (wks', sh')"
    using i w(1) r(1) by (simp add: bench_step_def)
  have same: "sh_start x = None \<longleftrightarrow> \<not> snd (snd (control_of x))" for x :: "'a shared"
    by (simp add: control_of_def)
  have fewer: "(?wks1, control_of sh1) = (wks, control_of sh) \<and> (wk_phase (wks ! i) = Ended \<or>
        wk_phase (wks ! i) = Waiting \<and> sh_start sh = None) \<or>
      work_left a (?wks1, control_of sh1) < work_left a (wks, control_of sh)"
    using step_work [OF Cons.prems(3,4) i w(3)] same by auto
  have trace: "(control_step a)\<^sup>*\<^sup>* (wks, control_of sh) (wks', control_of sh')"
    using step r(4) by (rule converse_rtranclp_into_rtranclp)
  show ?case
    using Cons.prems(1) [OF run r(2,3) trace] r(5) fewer same by auto
qed


definition all_set_up :: "worker list \<Rightarrow> bool" where
  "all_set_up wks \<longleftrightarrow> list_all (\<lambda>wk. ws_ready (wk_stats wk)) wks"

text \<open>When everyone has returned, nothing is left.\<close>

lemma ended_no_work:
  assumes "control_inv a (wks, control_of sh)" "0 < length wks" "all_set_up wks"
    and "list_all (\<lambda>wk. wk_phase wk = Ended) wks"
  shows "work_left a (wks, control_of sh) = 0"
proof -
  have d: "list_all done_with_work wks"
    using assms(3,4) by (auto simp: list_all_iff all_set_up_def done_with_work_def)
  moreover obtain wk where "wk \<in> set wks" using assms(2) by (cases wks) auto
  ultimately have "ba_count a \<le> sh_next sh"
    using assms(1) by (auto simp: control_inv_def control_of_def list_all_iff)
  then show ?thesis
    using assms(4) by (auto simp: work_left_def control_of_def steps_left_def list_all_iff word_le_nat_alt)
qed

text \<open>
  Once everyone is set up, a schedule of rounds in which everyone has a turn ends them all, when
  it has at least as many rounds as there is work.
\<close>

definition fair_rounds :: "nat \<Rightarrow> nat list list \<Rightarrow> bool" where
  "fair_rounds n rounds \<longleftrightarrow> list_all (\<lambda>r. set r = {..<n}) rounds"

lemma rounds_finish:
  assumes "shared_inv c wks sh" "control_inv a (wks, control_of sh)" "0 < length wks"
    and "unat (ba_count a) + length wks < 2 ^ 64" and "all_set_up wks"
    and "fair_rounds (length wks) rounds" and "work_left a (wks, control_of sh) \<le> length rounds"
  obtains wks' sh' where "bench_sched api a c pattern (concat rounds) (wks, sh) = Some (wks', sh')"
    "list_all (\<lambda>wk. wk_phase wk = Ended) wks'" "all_set_up wks'" "wks' \<noteq> []"
  using assms
proof (induction rounds arbitrary: wks sh thesis)
  case Nil
  have "(\<Sum>wk\<leftarrow>wks. steps_left a wk) = 0" using Nil.prems(8) by (cases "control_of sh") (auto simp: work_left_def)
  then have "list_all (\<lambda>wk. steps_left a wk = 0) wks" by (auto simp: list_all_iff)
  then have "list_all (\<lambda>wk. wk_phase wk = Ended) wks"
    by (rule list.pred_mono_strong) (simp add: steps_left_def split: worker_phase.splits)
  then show ?case using Nil.prems by simp
next
  case (Cons r rounds)
  have fair: "set r = {..<length wks}" "fair_rounds (length wks) rounds"
    using Cons.prems(7) by (simp_all add: fair_rounds_def)
  then have "list_all (\<lambda>i. i < length wks) r" by (simp add: list_all_iff)
  then obtain wks1 sh1 where r: "bench_sched api a c pattern r (wks, sh) = Some (wks1, sh1)"
      "shared_inv c wks1 sh1" "control_inv a (wks1, control_of sh1)"
      "(control_step a)\<^sup>*\<^sup>* (wks, control_of sh) (wks1, control_of sh1)"
      "work_left a (wks1, control_of sh1) < work_left a (wks, control_of sh) \<or>
       wks1 = wks \<and> control_of sh1 = control_of sh \<and> list_all (\<lambda>i. wk_phase (wks ! i) = Ended \<or>
         wk_phase (wks ! i) = Waiting \<and> sh_start sh = None) r"
    using round_work [OF Cons.prems(2,3,5)] by blast
  have len: "length wks1 = length wks" using run_keeps [OF r(4), of 0] Cons.prems(4) by simp
  have ready: "all_set_up wks1"
    using run_keeps [OF r(4)] Cons.prems(6) len by (auto simp: all_set_up_def list_all_length)
  have "work_left a (wks1, control_of sh1) \<le> length rounds"
  proof (rule ccontr)
    assume more: "\<not> ?thesis"
    then have stuck: "control_of sh1 = control_of sh" "wks1 = wks"
        "list_all (\<lambda>i. wk_phase (wks ! i) = Ended \<or> wk_phase (wks ! i) = Waiting \<and> sh_start sh = None) r"
      using r(5) Cons.prems(8) by auto
    have "list_all (\<lambda>wk. wk_phase wk = Ended \<or> wk_phase wk = Waiting \<and> sh_start sh = None) wks"
      using stuck(3) fair(1) by (simp add: list_all_iff all_set_conv_all_nth)
    note stuck = stuck(1,2) this
    have "list_all (\<lambda>wk. \<not> failed_worker wk) wks"
      using Cons.prems(6) by (auto simp: all_set_up_def list_all_iff failed_worker_def)
    then have "list_all (\<lambda>wk. wk_phase wk = Ended) wks"
      using someone_moves [OF Cons.prems(3) [unfolded control_of_def] Cons.prems(4)] stuck(3) by simp
    then show False using ended_no_work [OF Cons.prems(3,4,6)] more stuck by simp
  qed
  then obtain wks' sh' where
    "bench_sched api a c pattern (concat rounds) (wks1, sh1) = Some (wks', sh')"
    "list_all (\<lambda>wk. wk_phase wk = Ended) wks'" "all_set_up wks'" "wks' \<noteq> []"
    using Cons.IH [OF _ r(2,3) _ _ ready] Cons.prems(4,5) len fair(2) by auto
  then show ?case using Cons.prems(1) r(1) by (simp add: bench_sched_append)
qed

lemma work_left_bound:
  assumes "shared_inv c wks sh"
  shows "work_left a (wks, s) \<le> length wks * (41 * unat (ba_warmup a) + 46) + 42 * unat (ba_count a)"
proof -
  have "steps_left a wk \<le> 41 * unat (ba_warmup a) + 46" if "wk \<in> set wks" for wk
  proof -
    have "put_left (wk_put wk) \<le> 39" using assms that put_left_le by (auto simp: shared_inv_def list_all_iff worker_wf_def)
    then show ?thesis by (cases "wk_phase wk") (simp_all add: steps_left_def)
  qed
  then have "(\<Sum>wk\<leftarrow>wks. steps_left a wk) \<le> length wks * (41 * unat (ba_warmup a) + 46)"
    using sum_list_mono [of wks "steps_left a" "\<lambda>_. 41 * unat (ba_warmup a) + 46"]
    by (simp add: sum_list_triv)
  then show ?thesis by (cases s) (simp add: work_left_def add_mono diff_le_self)
qed

end
