(* ===== verification/Bench_Times.thy ===== *)
theory Bench_Times
  imports Bench_Lemmas Client_Contract
begin

text \<open>
  The benchmark's times on a clock that does not go back: a locale for such a machine, which
  provides the contract of \<open>Client_Contract\<close>, and what the workers' latencies and end times are
  between under every schedule.
\<close>

section \<open>A monotone clock\<close>

text \<open>
  \<open>tick\<close> is the time a state of the machine stands for. No call turns it back, and a reading of
  the clock lies between the time before and after it.
\<close>

locale clock_env =
  fixes api :: "'s client_api" and tick :: "'s \<Rightarrow> int"
  assumes open_tick: "tick s \<le> tick (snd (ca_open api ep t q s))"
    and abort_tick: "tick s \<le> tick (snd (ca_abort api ep t aq s))"
    and put_tick: "tick s \<le> tick (snd (ca_put api ep t cq s))"
    and rng_tick: "tick s \<le> tick (snd (ca_rng api s))"
    and jitter_tick: "tick s \<le> tick (snd (ca_jitter api s))"
    and sleep_tick: "tick s \<le> tick (ca_sleep api ms s)"
    and memcpy_tick: "tick s \<le> tick (snd (ca_memcpy api p n s))"
    and new_client_tick: "tick s \<le> tick (snd (ca_new_client api s))"
    and get_descriptor_tick: "tick s \<le> tick (snd (ca_get_descriptor api p n s))"
    and put_descriptor_tick: "tick s \<le> tick (snd (ca_put_descriptor api p s))"
    and get_token_tick: "tick s \<le> tick (snd (ca_get_token api p n off s))"
    and put_token_tick: "tick s \<le> tick (ca_put_token api tok s)"
    and malloc_tick: "tick s \<le> tick (snd (ca_malloc api n s))"
    and upload_tick: "tick s \<le> tick (snd (ca_upload api p bytes s))"
    and dev_free_tick: "tick s \<le> tick (ca_dev_free api p s)"
    and now_after: "tick s \<le> fst (ca_now api s)"
    and now_before: "fst (ca_now api s) \<le> tick (snd (ca_now api s))"

text \<open>Being past a given time is a property that every call keeps.\<close>

sublocale clock_env \<subseteq> passed: client_env api "\<lambda>s. x \<le> tick s" for x :: int
proof (unfold_locales, goal_cases)
  case (6 s)
  then show ?case using now_after [of s] now_before [of s] by linarith
qed (fact order_trans [OF _ open_tick] order_trans [OF _ abort_tick] order_trans [OF _ put_tick]
    order_trans [OF _ rng_tick] order_trans [OF _ jitter_tick] order_trans [OF _ sleep_tick]
    order_trans [OF _ memcpy_tick] order_trans [OF _ new_client_tick] order_trans [OF _ get_descriptor_tick]
    order_trans [OF _ put_descriptor_tick] order_trans [OF _ get_token_tick] order_trans [OF _ put_token_tick])+

section \<open>The times of one worker\<close>

text \<open>
  The moment up to which a worker's finished PUTs reach: the beginning of the PUT it is in, and its
  end time once that is set.
\<close>

definition busy_until :: "int \<Rightarrow> worker \<Rightarrow> int" where
  "busy_until now wk = (case wk_phase wk of
       PutRun i \<Rightarrow> wk_t0 wk | Unregistering \<Rightarrow> ws_end (wk_stats wk) | Freeing \<Rightarrow> ws_end (wk_stats wk)
     | Ended \<Rightarrow> ws_end (wk_stats wk) | _ \<Rightarrow> now)"

definition worker_times :: "Args \<Rightarrow> int option \<Rightarrow> int \<Rightarrow> worker \<Rightarrow> bool" where
  "worker_times a start now wk \<longleftrightarrow> list_all (\<lambda>d. 0 \<le> d) (ws_latencies (wk_stats wk)) \<and>
     (\<forall>i. wk_phase wk = WarmupRun i \<longrightarrow> ba_warmup a \<noteq> 0 \<and> wk_t0 wk \<le> now) \<and>
     (if past_barrier wk then
        (case start of
           None \<Rightarrow> False
         | Some t0 \<Rightarrow> t0 \<le> busy_until now wk \<and> busy_until now wk \<le> now \<and>
             (ba_warmup a = 0 \<longrightarrow> t0 + sum_list (ws_latencies (wk_stats wk)) \<le> busy_until now wk))
      else ba_warmup a = 0 \<longrightarrow> ws_latencies (wk_stats wk) = [])"

lemma busy_mono: "now \<le> now' \<Longrightarrow> busy_until now wk \<le> busy_until now' wk \<and> (busy_until now wk \<le> now \<longrightarrow> busy_until now' wk \<le> now')"
  by (simp add: busy_until_def split: worker_phase.split)

lemma worker_times_later:
  assumes "worker_times a start now wk" "now \<le> now'" "start \<noteq> None \<longrightarrow> start' = start"
  shows "worker_times a start' now' wk"
proof -
  have "start' = start" if "past_barrier wk" using assms(1,3) that by (auto simp: worker_times_def split: option.splits)
  then show ?thesis
    using assms(1) order_trans [OF _ assms(2)] busy_mono [OF assms(2), of wk]
    by (force simp: worker_times_def split: option.splits if_splits)
qed

lemma worker_times_new: "worker_times a start now new_worker"
  by (simp add: worker_times_def new_worker_def new_stats_def phase_defs)

context clock_env
begin

lemma now_between:
  assumes "w_now api w = (t, w')"
  shows "tick (env w) \<le> t \<and> t \<le> tick (env w')"
  using now_after [of "env w"] now_before [of "env w"] assms
  by (auto simp: w_now_def split: prod.splits)

lemma device_tick:
  "w_malloc api n w = (r, w') \<Longrightarrow> tick (env w) \<le> tick (env w')"
  "w_upload api p bytes w = (e, w') \<Longrightarrow> tick (env w) \<le> tick (env w')"
  "tick (env w) \<le> tick (env (w_dev_free api p w))"
  using malloc_tick [of "env w" n] upload_tick [of "env w" p bytes] dev_free_tick [of "env w" p]
  by (auto simp: world_wrappers Let_def split: prod.splits)

text \<open>
  What one step of a worker has to keep: its own times, and for the others that time moves on and
  the start time stays once it is set.
\<close>

definition times_ok :: "Args \<Rightarrow> worker \<times> 's shared \<Rightarrow> worker \<times> 's shared \<Rightarrow> bool" where
  "times_ok a = (\<lambda>(wk, sh) (wk', sh').
     worker_times a (sh_start sh') (tick (env (sh_world sh'))) wk' \<and>
     tick (env (sh_world sh)) \<le> tick (env (sh_world sh')) \<and> (sh_start sh \<noteq> None \<longrightarrow> sh_start sh' = sh_start sh) \<and>
     (case sh_start sh' of None \<Rightarrow> True | Some t0 \<Rightarrow> t0 \<le> tick (env (sh_world sh'))))"

definition started_before :: "'s shared \<Rightarrow> bool" where
  "started_before sh = (case sh_start sh of None \<Rightarrow> True | Some t0 \<Rightarrow> t0 \<le> tick (env (sh_world sh)))"

text \<open>The set-up, a PUT in three parts, the barrier, and the end.\<close>

lemma setup_times:
  assumes "worker_setup api a c pattern (wk, sh) = Some (wk', sh')" "setting_up (wk_phase wk)" "\<not> ws_ready (wk_stats wk)"
    and "worker_times a (sh_start sh) (tick (env (sh_world sh))) wk" "started_before sh"
  shows "times_ok a (wk, sh) (wk', sh')"
proof -
  have same: "sh_start sh' = sh_start sh" "tick (env (sh_world sh)) \<le> tick (env (sh_world sh'))"
    "ws_latencies (wk_stats wk') = ws_latencies (wk_stats wk)" "wk_phase wk' = Ended \<longrightarrow> \<not> ws_ready (wk_stats wk')"
    "wk_phase wk' \<in> {Filling, Registering, GivingUp, Warmup 0, Ended}"
    using assms(1-3) device_tick passed.RegisterDeviceBuffer_I [OF order_refl]
    by (auto simp: worker_setup_def setting_up_def split: prod.splits if_splits)
  then have "\<not> past_barrier wk" "\<not> past_barrier wk'" using assms(2,3) by (auto simp: phase_defs setting_up_def)
  then show ?thesis
    using same assms(4,5) by (auto simp: worker_times_def times_ok_def started_before_def split: option.splits)
qed

lemma begin_times:
  assumes "do_put_begin api a c key (wk, sh) = (wk1, sh')"
    and "worker_times a (sh_start sh) (tick (env (sh_world sh))) wk" "started_before sh"
    and "wk_phase wk = Warmup i \<and> i < ba_warmup a \<and> ph = WarmupRun i \<or> wk_phase wk = Putting i \<and> ph = PutRun i"
  shows "times_ok a (wk, sh) (wk1\<lparr>wk_phase := ph\<rparr>, sh')"
proof -
  obtain t0 w where n: "w_now api (sh_world sh) = (t0, w)" by force
  have "ba_warmup a \<noteq> 0" if "i < ba_warmup a" using that by auto
  then show ?thesis
    using assms n now_between [OF n]
    by (auto simp: do_put_begin_def worker_times_def busy_until_def phase_defs times_ok_def started_before_def split: option.splits)
qed

lemma stretch_times:
  assumes "do_put_move api c (wk, sh) = Some (wk', sh')"
    and "worker_times a (sh_start sh) (tick (env (sh_world sh))) wk" "started_before sh"
    and "wk_phase wk \<in> {WarmupRun i, PutRun i}"
  shows "times_ok a (wk, sh) (wk', sh')"
proof -
  obtain t static w where r: "put_step api c (wk_put wk, sh_static sh, sh_world sh) = Some (t, static, w)"
      "wk' = wk\<lparr>wk_put := t\<rparr>" "sh' = sh\<lparr>sh_static := static, sh_world := w\<rparr>"
    using assms(1) by (auto simp: do_put_move_def)
  have "tick (env (sh_world sh)) \<le> tick (env w)"
    using r(1) passed.put_move_I [OF order_refl] by (auto simp: put_step_def split: if_splits option.splits prod.splits)
  then show ?thesis
    using r(2,3) assms(2-) by (auto simp: worker_times_def busy_until_def phase_defs times_ok_def started_before_def split: option.splits)
qed

lemma end_times:
  assumes "do_put_end api a (wk, sh) = (wk1, sh')"
    and "worker_times a (sh_start sh) (tick (env (sh_world sh))) wk" "started_before sh"
    and "wk_phase wk = WarmupRun i \<and> ph = Warmup (i + 1) \<or> wk_phase wk = PutRun i \<and> ph = Claim"
  shows "times_ok a (wk, sh) (wk1\<lparr>wk_phase := ph\<rparr>, sh')"
proof -
  obtain t1 w where n: "w_now api (sh_world sh) = (t1, w)" by force
  define ds where "ds = (if pt_ok (wk_put wk) then [t1 - wk_t0 wk] else [])"
  have r: "sh' = sh\<lparr>sh_world := w\<rparr>" "ws_latencies (wk_stats wk1) = ws_latencies (wk_stats wk) @ ds"
    using assms(1) n by (auto simp: do_put_end_def ds_def Let_def)
  have t: "tick (env (sh_world sh)) \<le> t1" "t1 \<le> tick (env w)" using now_between [OF n] by auto
  have "wk_t0 wk \<le> tick (env (sh_world sh))"
    using assms(2,4) by (auto simp: worker_times_def busy_until_def phase_defs split: option.splits)
  then have d: "list_all (\<lambda>d. 0 \<le> d) ds" "sum_list ds \<le> t1 - wk_t0 wk" using t by (auto simp: ds_def)
  show ?thesis
    using assms(2-4) t d r by (auto simp: worker_times_def busy_until_def phase_defs times_ok_def started_before_def split: option.splits)
qed

lemma do_put_times:
  assumes "do_put_step api a c ph (wk, sh) = Some (wk', sh')"
    and "worker_times a (sh_start sh) (tick (env (sh_world sh))) wk" "started_before sh"
    and "wk_phase wk = WarmupRun i \<and> ph = Warmup (i + 1) \<or> wk_phase wk = PutRun i \<and> ph = Claim"
  shows "times_ok a (wk, sh) (wk', sh')"
proof (cases "pt_phase (wk_put wk) = PutOutside")
  case True
  then show ?thesis
    using assms(1) end_times [OF _ assms(2-4)] by (auto simp: do_put_step_def split: prod.splits)
next
  case False
  then show ?thesis using assms(1,4) stretch_times [OF _ assms(2,3), of c wk' sh' i] by (auto simp: do_put_step_def)
qed

lemma arrive_times:
  assumes "worker_times a (sh_start sh) (tick (env (sh_world sh))) wk" "started_before sh" "\<not> past_barrier wk"
    and "sh_start sh \<noteq> None \<Longrightarrow> Suc (sh_arrived sh) \<noteq> n"
  shows "times_ok a (wk, sh) (wk\<lparr>wk_phase := Waiting\<rparr>, barrier_arrive api n sh)"
proof -
  obtain t w where n: "w_now api (sh_world sh) = (t, w)" by force
  have "\<not> past_barrier (wk\<lparr>wk_phase := Waiting\<rparr>)" by (simp add: phase_defs)
  then show ?thesis
    using assms n now_between [OF n]
    by (auto simp: worker_times_def barrier_arrive_def times_ok_def started_before_def Let_def split: option.splits if_splits)
qed

lemma teardown_times:
  assumes "worker_teardown api c (wk, sh) = Some (wk', sh')" "wk_phase wk \<in> {Finish, Unregistering, Freeing}"
    and "ws_ready (wk_stats wk)" "worker_times a (sh_start sh) (tick (env (sh_world sh))) wk" "started_before sh"
  shows "times_ok a (wk, sh) (wk', sh')"
proof -
  consider "wk_phase wk = Finish" | "wk_phase wk = Unregistering" | "wk_phase wk = Freeing" using assms(2) by blast
  then show ?thesis
  proof cases
    case 1
    obtain t w where n: "w_now api (sh_world sh) = (t, w)" by force
    show ?thesis
      using assms 1 n now_between [OF n]
      by (auto simp: worker_teardown_def worker_times_def busy_until_def times_ok_def phase_defs started_before_def split: option.splits)
  next
    case 2
    obtain ok static w where u: "UnregisterDeviceBuffer api c (wk_dev wk) (sh_static sh, sh_world sh) = Some (ok, static, w)"
      using assms(1) 2 by (auto simp: worker_teardown_def)
    then show ?thesis
      using assms 2 passed.UnregisterDeviceBuffer_I [OF order_refl u]
      by (auto simp: worker_teardown_def worker_times_def busy_until_def times_ok_def phase_defs started_before_def split: option.splits)
  next
    case 3
    then show ?thesis
      using assms device_tick(3) [of "sh_world sh" "wk_dev wk"]
      by (auto simp: worker_teardown_def worker_times_def busy_until_def times_ok_def phase_defs started_before_def split: option.splits)
  qed
qed

text \<open>One step of a worker; the barrier is completed only once.\<close>

lemma worker_step_times:
  assumes "worker_step api a c pattern n wid (wk, sh) = Some (wk', sh')"
    and "worker_times a (sh_start sh) (tick (env (sh_world sh))) wk" "worker_inv a wk" "started_before sh"
    and "\<And>i. wk_phase wk = Warmup i \<Longrightarrow> sh_start sh \<noteq> None \<Longrightarrow> Suc (sh_arrived sh) \<noteq> n"
  shows "times_ok a (wk, sh) (wk', sh')"
proof -
  have set: "\<not> ws_ready (wk_stats wk)" if "setting_up (wk_phase wk)" using assms(3) that by (auto simp: worker_inv_def)
  have down: "ws_ready (wk_stats wk)" if "wk_phase wk \<in> {Finish, Unregistering, Freeing}"
    using assms(3) that by (auto simp: worker_inv_def setting_up_def split: if_splits)
  show ?thesis
  proof (cases "wk_phase wk")
    case (Warmup i)
    have "\<not> past_barrier wk" using Warmup by (simp add: phase_defs)
    then show ?thesis
      using assms(1,2,4) assms(5) [OF Warmup] Warmup begin_times [OF _ assms(2,4), of c "warmup_key a wid i" _ _ i "WarmupRun i"]
        arrive_times [OF assms(2,4)] by (auto simp: worker_step_def split: if_splits prod.splits)
  next
    case (WarmupRun i)
    then show ?thesis using assms(1) do_put_times [OF _ assms(2,4)] by (auto simp: worker_step_def)
  next
    case (Putting i)
    then show ?thesis
      using assms(1) begin_times [OF _ assms(2,4), of c "object_key_of a i" _ _ i "PutRun i"]
      by (auto simp: worker_step_def split: prod.splits)
  next
    case (PutRun i)
    then show ?thesis using assms(1) do_put_times [OF _ assms(2,4)] by (auto simp: worker_step_def)
  next
    case Waiting
    then show ?thesis
      using assms(1,2,4) by (cases "sh_start sh")
        (auto simp: worker_step_def worker_times_def busy_until_def phase_defs times_ok_def started_before_def)
  next
    case Claim
    then show ?thesis
      using assms(1,2,4) by (auto simp: worker_step_def Let_def worker_times_def busy_until_def phase_defs times_ok_def
          started_before_def split: option.splits if_splits)
  next
    case Ended
    then show ?thesis using assms(1,2,4) by (simp add: worker_step_def times_ok_def started_before_def)
  qed (use assms(1) setup_times [OF _ _ set assms(2,4)] teardown_times [OF _ _ down assms(2,4)] in
      \<open>simp_all add: worker_step_def setting_up_def\<close>)
qed

text \<open>Every schedule, together with the control of the workers.\<close>

lemma sched_times:
  assumes "bench_sched api a c pattern sched (wks, sh) = Some (wks', sh')" "shared_inv c wks sh"
    and "control_inv a (wks, control_of sh)" "unat (ba_count a) + length wks < 2 ^ 64"
    and "list_all (worker_times a (sh_start sh) (tick (env (sh_world sh)))) wks" "started_before sh"
  shows "list_all (worker_times a (sh_start sh') (tick (env (sh_world sh')))) wks'"
  using assms
proof (induction sched arbitrary: wks sh)
  case (Cons wid sched)
  obtain wks1 sh1 where s1: "bench_step api a c pattern wid (wks, sh) = Some (wks1, sh1)"
      "bench_sched api a c pattern sched (wks1, sh1) = Some (wks', sh')"
    using Cons.prems(1) by (auto simp: bind_eq_Some_conv)
  show ?case
  proof (cases "wid < length wks")
    case False
    then show ?thesis using Cons s1 by (simp add: bench_step_def)
  next
    case True
    obtain wk where w: "worker_step api a c pattern (length wks) wid (wks ! wid, sh) = Some (wk, sh1)"
        "wks1 = wks[wid := wk]" using s1(1) True by (auto simp: bench_step_def)
    have w2: "shared_inv c wks1 sh1" "bench_move a (length wks) (wks ! wid, control_of sh) (wk, control_of sh1)"
      using worker_step_control [OF Cons.prems(2) True] w by (metis option.inject prod.inject)+
    have inv1: "control_inv a (wks1, control_of sh1)"
      using control_inv_step [OF control_step.intros [OF True w2(2)] Cons.prems(3,4)] w(2) by simp
    have "sh_start sh \<noteq> None \<Longrightarrow> Suc (sh_arrived sh) \<noteq> length wks"
      using Cons.prems(3) by (simp add: control_inv_def control_of_def)
    moreover have "worker_inv a (wks ! wid)" using Cons.prems(3) True by (simp add: control_inv_def control_of_def list_all_length)
    moreover have "worker_times a (sh_start sh) (tick (env (sh_world sh))) (wks ! wid)"
      using Cons.prems(5) True by (simp add: list_all_length)
    ultimately have ok: "times_ok a (wks ! wid, sh) (wk, sh1)" using worker_step_times [OF w(1)] Cons.prems(6) by blast
    have "list_all (worker_times a (sh_start sh1) (tick (env (sh_world sh1)))) wks"
      using Cons.prems(5) ok worker_times_later by (fastforce simp: list_all_iff times_ok_def)
    then have "list_all (worker_times a (sh_start sh1) (tick (env (sh_world sh1)))) wks1"
      using ok w(2) by (simp add: times_ok_def list_all_swap)
    then show ?thesis
      using Cons.IH [OF s1(2) w2(1) inv1] Cons.prems(4) ok w(2) by (simp add: times_ok_def started_before_def)
  qed
qed simp

lemma run_times:
  assumes "bench_sched api a c pattern sched (bench_start a static w) = Some (wks, sh)"
    and "client_inv (c, static, w)" "cl_initialized c" "bench_sane a"
  shows "list_all (worker_times a (sh_start sh) (tick (env (sh_world sh)))) wks"
proof -
  let ?wks = "replicate (unat (ba_concurrency a)) new_worker"
  let ?sh = "\<lparr>sh_static = static, sh_world = w, sh_next = 0, sh_arrived = 0, sh_start = None\<rparr>"
  have "0 < unat (ba_concurrency a)" using assms(4) by (simp add: bench_sane_def unat_gt_0)
  then have "control_inv a (?wks, control_of ?sh)" using control_inv_start by (simp add: control_of_def)
  moreover have "shared_inv c ?wks ?sh" by (rule shared_inv_start [OF assms(2,3)])
  moreover have "list_all (worker_times a (sh_start ?sh) (tick (env (sh_world ?sh)))) ?wks"
    by (simp add: list_all_iff worker_times_new)
  ultimately show ?thesis
    using sched_times [of a c pattern sched ?wks ?sh wks sh] assms(1,4)
    by (simp add: bench_start_def bench_sane_def started_before_def)
qed

end

section \<open>The summary's times\<close>

lemma sum_stats_end:
  assumes "list_all (\<lambda>wk. ws_ready (wk_stats wk)) wks" "wk \<in> set wks"
  shows "ws_end (wk_stats wk) \<le> bt_end_max (sum_stats k wks t)"
proof -
  have grow: "bt_end_max t \<le> bt_end_max (sum_stats (Suc k) wks t)" for k t and wks :: "worker list"
  proof (induction wks arbitrary: k t)
    case (Cons x xs)
    have "bt_end_max t \<le> bt_end_max (sum_stats (Suc k) [x] t)" by (simp add: Let_def)
    also have "\<dots> \<le> bt_end_max (sum_stats (Suc (Suc k)) xs (sum_stats (Suc k) [x] t))" by (rule Cons.IH)
    also have "\<dots> = bt_end_max (sum_stats (Suc k) (x # xs) t)" by (simp add: Let_def)
    finally show ?case .
  qed simp
  show ?thesis
    using assms
  proof (induction wks arbitrary: k t)
    case (Cons x xs)
    then show ?case
    proof (cases "wk = x")
      case True
      have "ws_end (wk_stats x) \<le> bt_end_max (sum_stats k [x] t)" using Cons.prems(1) by (simp add: Let_def)
      also have "\<dots> \<le> bt_end_max (sum_stats (Suc k) xs (sum_stats k [x] t))" by (rule grow)
      also have "\<dots> = bt_end_max (sum_stats k (x # xs) t)" by (simp add: Let_def)
      finally show ?thesis using True by simp
    qed (auto simp: Let_def)
  qed simp
qed

lemma sum_of_latencies:
  assumes "list_all (\<lambda>wk. t0 + sum_list (ws_latencies (wk_stats wk)) \<le> e) wks"
  shows "sum_list (concat (map (\<lambda>wk. ws_latencies (wk_stats wk)) wks)) \<le> int (length wks) * (e - t0)"
  using assms by (induction wks) (auto simp: algebra_simps)

end
