(* ===== verification/Bench_Properties.thy ===== *)
theory Bench_Properties
  imports Bench_Times Example_Client
begin

text \<open>
  The properties of the benchmark program: its workers under every schedule, its totals, its
  end, and its command line.
\<close>

section \<open>Runs of the program\<close>

text \<open>The parameters a command line gives, when the client comes up with them.\<close>

definition bench_begins ::
  "'s client_api \<Rightarrow> string list \<Rightarrow> 's \<Rightarrow> Args \<Rightarrow> Client \<Rightarrow> 's bench \<Rightarrow> bool" where
  "bench_begins api argv s a c st \<longleftrightarrow>
     ParseArgs argv default_args = ArgsReturn True a \<and> bench_sane a \<and>
     (\<exists>static w. Client_Initialize api (new_Client (bench_options a)) (None, \<lparr>env = s, events = []\<rparr>) =
        (True, c, static, w) \<and> st = bench_start a static w)"

lemma initialized_inv:
  "Client_Initialize api (new_Client opts) (None, \<lparr>env = s, events = []\<rparr>) = (ok, c, static, w) \<Longrightarrow>
   client_inv (c, static, w) \<and> (ok \<longrightarrow> cl_initialized c)"
  using Initialize_inv [of "new_Client opts" None "\<lparr>env = s, events = []\<rparr>" api ok c static w]
  by (simp add: client_inv_new)

lemma with_start_simps [simp]:
  "bt_ok (with_start s t) = bt_ok t" "bt_fail (with_start s t) = bt_fail t" "bt_bytes (with_start s t) = bt_bytes t"
  "bt_latencies (with_start s t) = bt_latencies t" "bt_end_max (with_start s t) = bt_end_max t"
  by (simp_all add: with_start_def)

lemma bench_main_begins:
  assumes "bench_begins api argv s a c st"
    and "bench_sched api a c (bench_pattern a) sched st = Some (wks, sh)"
  shows "bench_main api argv sched s =
    (if \<not> list_all (\<lambda>wk. wk_phase wk = Ended) wks then BenchRunning
     else if \<not> bt_any_ready (bench_summary wks) then BenchExit 1 None
     else BenchExit (if bt_fail (bench_summary wks) = 0 then 0 else 2) (Some (with_start (sh_start sh) (bench_summary wks))))"
  using assms by (auto simp: bench_main_def bench_begins_def Let_def)

lemma bench_begins_run:
  assumes "bench_begins api argv s a c st"
  obtains wks sh where "bench_sched api a c (bench_pattern a) sched st = Some (wks, sh)"
    "shared_inv c wks sh" "control_inv a (wks, control_of sh)" "length wks = unat (ba_concurrency a)"
    "0 < length wks" "unat (ba_count a) + length wks < 2 ^ 64"
proof -
  obtain static w where i: "bench_sane a" "client_inv (c, static, w)" "cl_initialized c" "st = bench_start a static w"
    using assms initialized_inv [of api "bench_options a" s True c]
    unfolding bench_begins_def by metis
  obtain wks sh where "bench_sched api a c (bench_pattern a) sched st = Some (wks, sh)"
      "shared_inv c wks sh" "control_inv a (wks, control_of sh)" "length wks = unat (ba_concurrency a)"
    using bench_run [OF i(2,3,1), of api "bench_pattern a" sched] i(4) by metis
  then show ?thesis using that i(1) by (simp add: bench_sane_def unat_gt_0)
qed

lemma all_ready:
  assumes "control_inv a (wks, control_of sh)" "list_all (\<lambda>wk. wk_phase wk = Ended) wks"
    and "list_ex (\<lambda>wk. ws_ready (wk_stats wk)) wks"
  shows "list_all (\<lambda>wk. worker_inv a wk \<and> wk_phase wk = Ended \<and> ws_ready (wk_stats wk)) wks"
    and "claims_of wks = indices_below (unat (ba_count a))"
proof -
  obtain wk where wk: "wk \<in> set wks" "ws_ready (wk_stats wk)" using assms(3) by (auto simp: list_ex_iff)
  have inv: "control_inv a (wks, sh_next sh, sh_arrived sh, sh_start sh \<noteq> None)"
    using assms(1) by (simp add: control_of_def)
  show "claims_of wks = indices_below (unat (ba_count a))"
    by (rule all_ended_ready(2) [OF inv assms(2) wk])
  show "list_all (\<lambda>wk. worker_inv a wk \<and> wk_phase wk = Ended \<and> ws_ready (wk_stats wk)) wks"
    using all_ended_ready(1) [OF inv assms(2) wk] inv assms(2)
    by (simp add: control_inv_def list_all_iff)
qed

lemma summary_any: "bt_any_ready (bench_summary wks) \<longleftrightarrow> list_ex (\<lambda>wk. ws_ready (wk_stats wk)) wks"
  by (simp add: bench_summary_def Let_def sum_stats_any list_ex_iff)

lemma summary_total:
  assumes "list_all (\<lambda>wk. worker_inv a wk \<and> wk_phase wk = Ended \<and> ws_ready (wk_stats wk)) wks"
    and "length wks = unat (ba_concurrency a)" "claims_of wks = indices_below (unat (ba_count a))"
    and "t = bench_summary wks"
  shows "bt_ok t + bt_fail t = ba_count a + ba_concurrency a * ba_warmup a"
    "bt_bytes t = bt_ok t * ba_size a" "word_of_nat (length (bt_latencies t)) = bt_ok t"
    "sorted (bt_latencies t)"
proof -
  have r: "list_all (\<lambda>wk. ws_ready (wk_stats wk)) wks" using assms(1) by (simp add: list_all_iff)
  have "size (claims_of wks) = unat (ba_count a)" by (simp add: assms(3) indices_below_def)
  then show "bt_ok t + bt_fail t = ba_count a + ba_concurrency a * ba_warmup a"
    "bt_bytes t = bt_ok t * ba_size a" "word_of_nat (length (bt_latencies t)) = bt_ok t"
    "sorted (bt_latencies t)"
    using attempts_sum [OF assms(1)] assms(2)
    by (simp_all add: assms(4) bench_summary_def Let_def sum_stats_ready [OF r])
qed

lemma rounds_end:
  assumes "bench_begins api argv s a c st"
    and "bench_sched api a c (bench_pattern a) sched st = Some (wks, sh)" and "all_set_up wks"
    and "fair_rounds (length wks) rounds"
    and "unat (ba_concurrency a) * (41 * unat (ba_warmup a) + 46) + 42 * unat (ba_count a) \<le> length rounds"
  obtains wks' sh' where
    "bench_sched api a c (bench_pattern a) (sched @ concat rounds) st = Some (wks', sh')"
    "list_all (\<lambda>wk. wk_phase wk = Ended) wks'" "list_ex (\<lambda>wk. ws_ready (wk_stats wk)) wks'"
proof -
  obtain wks0 sh0 where r0: "bench_sched api a c (bench_pattern a) sched st = Some (wks0, sh0)"
      "shared_inv c wks0 sh0" "control_inv a (wks0, control_of sh0)" "length wks0 = unat (ba_concurrency a)"
      "0 < length wks0" "unat (ba_count a) + length wks0 < 2 ^ 64"
    using bench_begins_run [OF assms(1)] by metis
  then have eq: "wks0 = wks" "sh0 = sh" using assms(2) by simp_all
  note inv = r0(2,3,5,6) [unfolded eq]
  have "work_left a (wks, control_of sh) \<le> length rounds"
    using work_left_bound [OF inv(1), of a "control_of sh"] r0(4) assms(5) eq by simp
  then obtain wks' sh' where r: "bench_sched api a c (bench_pattern a) (concat rounds) (wks, sh) = Some (wks', sh')"
      "list_all (\<lambda>wk. wk_phase wk = Ended) wks'" "all_set_up wks'" "wks' \<noteq> []"
    using rounds_finish [OF inv assms(3,4)] by metis
  have "bench_sched api a c (bench_pattern a) (sched @ concat rounds) st = Some (wks', sh')"
    using assms(2) r(1) by (simp add: bench_sched_append)
  moreover have "list_ex (\<lambda>wk. ws_ready (wk_stats wk)) wks'"
    using r(3,4) by (cases wks') (auto simp: all_set_up_def)
  ultimately show ?thesis using that r(2) by blast
qed

section \<open>A machine for the witnesses\<close>

text \<open>
  Allocations of device memory succeed in the first \<open>k\<close> states; the state counts them and the
  readings of the clock, which shows the count, and lists the buffers that are allocated.
\<close>

definition few_buffers :: "nat \<Rightarrow> (nat \<times> u64 list) client_api" where
  "few_buffers k =
     \<lparr>ca_channel_init = (\<lambda>ep t. 0),
      ca_open = (\<lambda>ep t q s. (Inr \<lparr>osr_request_id = osq_request_id q, osr_session_id = osq_session_id q,
        osr_ticket = ''t'', osr_gateway_id = ''g'', osr_data_endpoint = ''d'', osr_expire_at = ''x''\<rparr>, s)),
      ca_abort = (\<lambda>ep t q s. (Inr \<lparr>asr_erased = True\<rparr>, s)),
      ca_put = (\<lambda>ep t q s. (Inr (empty_GdsChunkResponse\<lparr>gcr_etag := ''e'', gcr_crc32c := 7\<rparr>), s)),
      ca_rng = (\<lambda>s. (0, s)), ca_jitter = (\<lambda>s. (2 ^ 53, s)),
      ca_now = (\<lambda>(n, l). (int n, (n + 1, l))),
      ca_sleep = (\<lambda>ms s. s), ca_memcpy = (\<lambda>p n s. ((0, replicate (unat n) 0x55), s)),
      ca_new_client = (\<lambda>s. (True, s)), ca_is_connected = (\<lambda>s. True),
      ca_get_descriptor = (\<lambda>p n s. (0, s)), ca_put_descriptor = (\<lambda>p s. (0, s)),
      ca_get_token = (\<lambda>p n off s. ((0, 9), s)), ca_put_token = (\<lambda>tok s. s), ca_token_text = (\<lambda>tok s. demo_token),
      ca_malloc = (\<lambda>n (m, l). let p = 4096 * word_of_nat (Suc m)
        in if m < k \<and> p \<notin> set l then ((0, p), (m + 1, p # l)) else ((2, 0), (m + 1, l))),
      ca_upload = (\<lambda>p bytes s. (0, s)),
      ca_dev_free = (\<lambda>p (m, l). (m, removeAll p l))\<rparr>"

definition small_bench :: "string list" where
  "small_bench = [''bench'', ''--concurrency'', ''2'', ''--size'', ''1K'', ''--warmup'', ''1'']"

definition small_args :: Args where
  "small_args = default_args\<lparr>ba_concurrency := 2, ba_size := 1024, ba_warmup := 1\<rparr>"

lemma small_begins:
  assumes "\<And>ep t. ca_channel_init api ep t = 0" "\<And>s. ca_new_client api s = (True, s)" "\<And>s. ca_is_connected api s"
  obtains c static w where "bench_begins api small_bench s small_args c (bench_start small_args static w)"
    "cl_initialized c" "client_parts c static \<noteq> None" "gm_registered (the static) = []" "env w = s"
proof -
  have "ParseArgs small_bench default_args = ArgsReturn True small_args" by code_simp
  moreover have "bench_sane small_args" by (simp add: small_args_def default_args_def bench_sane_def)
  moreover have "\<exists>c static w. Client_Initialize api (new_Client (bench_options small_args))
      (None, \<lparr>env = s, events = []\<rparr>) = (True, c, static, w) \<and> cl_initialized c \<and>
      client_parts c static \<noteq> None \<and> gm_registered (the static) = [] \<and> env w = s"
    by (simp add: small_args_def new_Client_def Client_Initialize_def bench_options_def default_options_def
      default_args_def rpc_ok_new assms Instance_def new_GdsMemoryManager_def w_new_client_def client_parts_def Let_def)
  ultimately show ?thesis using that unfolding bench_begins_def by blast
qed

lemma few_buffers_starts:
  "ca_channel_init (few_buffers k) ep t = 0" "ca_new_client (few_buffers k) s = (True, s)" "ca_is_connected (few_buffers k) s"
  by (simp_all add: few_buffers_def)

text \<open>Both workers run their set-up; with one buffer only the first of them succeeds.\<close>

lemma small_start:
  assumes "0 < k"
  obtains c st wk1 wk2 sh where "bench_begins (few_buffers k) small_bench (0, []) small_args c st"
    "bench_sched (few_buffers k) small_args c (bench_pattern small_args) [0, 0, 0, 1, 1, 1] st = Some ([wk1, wk2], sh)"
    "ws_ready (wk_stats wk1)" "ws_ready (wk_stats wk2) \<longleftrightarrow> 1 < k" "k \<le> 1 \<longrightarrow> failed_worker wk2"
proof -
  obtain c static w where b: "bench_begins (few_buffers k) small_bench (0, []) small_args c (bench_start small_args static w)"
    "cl_initialized c" "client_parts c static \<noteq> None" "gm_registered (the static) = []" "env w = (0, [])"
    using small_begins [of "few_buffers k", OF few_buffers_starts] .
  obtain meta chunk mgr where p: "cl_meta c = Some meta" "cl_chunk c = Some chunk" "static = Some mgr" "cl_gds_mgr c"
    using b(3) by (auto simp: client_parts_def split: option.splits if_splits)
  have "unat (ba_concurrency small_args) = 2" by (simp add: small_args_def)
  then have start: "bench_start small_args static w = ([new_worker, new_worker],
      \<lparr>sh_static = Some mgr, sh_world = w, sh_next = 0, sh_arrived = 0, sh_start = None\<rparr>)"
    by (simp add: bench_start_def p(3) numeral_2_eq_2)
  have sz: "ba_size small_args = 1024" by (simp add: small_args_def)
  have "\<exists>wk1 wk2 sh. bench_sched (few_buffers k) small_args c (bench_pattern small_args) [0, 0, 0, 1, 1, 1]
      (bench_start small_args static w) = Some ([wk1, wk2], sh) \<and> ws_ready (wk_stats wk1) \<and>
      (ws_ready (wk_stats wk2) \<longleftrightarrow> 1 < k) \<and> (k \<le> 1 \<longrightarrow> failed_worker wk2)"
    unfolding start using b(2,4,5) p assms
    by (simp add: sz worker_setup_def w_malloc_def w_upload_def few_buffers_def
        cudaSuccess_def CU_OBJ_SUCCESS_def RegisterDeviceBuffer_def client_parts_def RegisterBuffer_def
        RegisterBufferUnderLock_def w_get_descriptor_def worker_step_def bench_step_def new_worker_def
        new_stats_def failed_worker_def Let_def)
  then show ?thesis using that [OF b(1)] by blast
qed

lemma small_set_up:
  obtains c st wks sh where "bench_begins (few_buffers 2) small_bench (0, []) small_args c st"
    "bench_sched (few_buffers 2) small_args c (bench_pattern small_args) [0, 0, 0, 1, 1, 1] st = Some (wks, sh)"
    "all_set_up wks" "length wks = 2"
proof -
  obtain c st wk1 wk2 sh where "bench_begins (few_buffers 2) small_bench (0, []) small_args c st"
    "bench_sched (few_buffers 2) small_args c (bench_pattern small_args) [0, 0, 0, 1, 1, 1] st = Some ([wk1, wk2], sh)"
    "ws_ready (wk_stats wk1)" "ws_ready (wk_stats wk2) \<longleftrightarrow> 1 < (2 :: nat)" "(2 :: nat) \<le> 1 \<longrightarrow> failed_worker wk2"
    using small_start [of 2] by (metis zero_less_numeral)
  then show ?thesis using that by (simp add: all_set_up_def)
qed

lemma small_rounds: "fair_rounds 2 (replicate n [0, 1])"
  by (auto simp: fair_rounds_def list_all_iff)

lemma small_ends:
  obtains c st sched wks sh where "bench_begins (few_buffers 2) small_bench (0, []) small_args c st"
    "bench_sched (few_buffers 2) small_args c (bench_pattern small_args) sched st = Some (wks, sh)"
    "list_all (\<lambda>wk. wk_phase wk = Ended) wks" "list_ex (\<lambda>wk. ws_ready (wk_stats wk)) wks"
proof -
  obtain c st wks sh where b: "bench_begins (few_buffers 2) small_bench (0, []) small_args c st"
    "bench_sched (few_buffers 2) small_args c (bench_pattern small_args) [0, 0, 0, 1, 1, 1] st = Some (wks, sh)"
    "all_set_up wks" "length wks = 2" using small_set_up .
  have "unat (ba_concurrency small_args) * (41 * unat (ba_warmup small_args) + 46) + 42 * unat (ba_count small_args)
      \<le> length (replicate 594 [0, 1 :: nat])" by (simp add: small_args_def default_args_def)
  moreover have "fair_rounds (length wks) (replicate 594 [0, 1])" using small_rounds b(4) by simp
  ultimately show ?thesis using rounds_end [OF b(1-3)] that [OF b(1)] by blast
qed

section \<open>Properties\<close>

text \<open>
  Whatever the command line, the network, the RDMA and CUDA libraries and the schedule of
  the workers, no worker follows a null pointer inside the client.
\<close>

theorem bench_never_faults: "bench_main api argv sched s \<noteq> BenchFault"
proof (cases "ParseArgs argv default_args")
  case (ArgsReturn ok a)
  obtain init c static w where i: "Client_Initialize api (new_Client (bench_options a))
      (None, \<lparr>env = s, events = []\<rparr>) = (init, c, static, w)" by (metis prod.collapse)
  have "bench_sched api a c (bench_pattern a) sched (bench_start a static w) \<noteq> None" if "init"
  proof -
    have "client_inv (c, static, w)" "cl_initialized c" using initialized_inv [OF i] that by simp_all
    then obtain wks sh where "bench_sched api a c (bench_pattern a) sched (bench_start a static w) = Some (wks, sh)"
      using bench_sched_control [OF shared_inv_start] unfolding bench_start_def by metis
    then show ?thesis by simp
  qed
  then show ?thesis using ArgsReturn i by (auto simp: bench_main_def Let_def split: if_splits)
qed (simp add: bench_main_def)

text \<open>
  C24: when all workers have returned and one of them had been set up, all had been, and
  together they claimed every index below \<open>--count\<close> exactly once.
\<close>

theorem bench_puts_every_object:
  assumes "bench_begins api argv s a c st"
    and "bench_sched api a c (bench_pattern a) sched st = Some (wks, sh)"
    and "list_all (\<lambda>wk. wk_phase wk = Ended) wks" and "list_ex (\<lambda>wk. ws_ready (wk_stats wk)) wks"
  shows "all_set_up wks \<and> mset (concat (map wk_claims wks)) = mset (map word_of_nat [0..<unat (ba_count a)])"
proof -
  obtain wks' sh' where "bench_sched api a c (bench_pattern a) sched st = Some (wks', sh')"
      "control_inv a (wks', control_of sh')" using bench_begins_run [OF assms(1)] by metis
  then have "control_inv a (wks, control_of sh)" using assms(2) by simp
  note r = all_ready [OF this assms(3,4)]
  have "mset (concat (map wk_claims wks)) = claims_of wks"
    by (simp add: claims_of_def mset_concat comp_def)
  then show ?thesis
    using r by (simp add: all_set_up_def list_all_iff indices_below_def)
qed

theorem bench_puts_every_object_witness:
  "\<exists>c st sched wks sh. bench_begins (few_buffers 2) small_bench (0, []) small_args c st \<and>
     bench_sched (few_buffers 2) small_args c (bench_pattern small_args) sched st = Some (wks, sh) \<and>
     mset (concat (map wk_claims wks)) = mset [0, 1, 2, 3, 4, 5, 6, 7, 8, 9]"
proof -
  obtain c st sched wks sh where e: "bench_begins (few_buffers 2) small_bench (0, []) small_args c st"
    "bench_sched (few_buffers 2) small_args c (bench_pattern small_args) sched st = Some (wks, sh)"
    "list_all (\<lambda>wk. wk_phase wk = Ended) wks" "list_ex (\<lambda>wk. ws_ready (wk_stats wk)) wks"
    using small_ends .
  have "map word_of_nat [0..<unat (ba_count small_args)] = [0, 1, 2, 3, 4, 5, 6, 7, 8, 9 :: u64]"
    by (simp add: small_args_def default_args_def upt_rec)
  with bench_puts_every_object [OF e] e show ?thesis by metis
qed

text \<open>
  C40: the totals the program prints add up. Every object and also every warm-up transfer of
  every worker counts as a success or a failure, the bytes are those of the successes, there
  is one latency for each success, and the exit code says whether anything failed.
\<close>

theorem bench_result_adds_up:
  assumes "bench_begins api argv s a c st" and "bench_main api argv sched s = BenchExit code (Some t)"
  shows "bt_ok t + bt_fail t = ba_count a + ba_concurrency a * ba_warmup a \<and>
    bt_bytes t = bt_ok t * ba_size a \<and> word_of_nat (length (bt_latencies t)) = bt_ok t \<and>
    sorted (bt_latencies t) \<and> code = (if bt_fail t = 0 then 0 else 2)"
proof -
  obtain wks sh where r: "bench_sched api a c (bench_pattern a) sched st = Some (wks, sh)"
      "control_inv a (wks, control_of sh)" "length wks = unat (ba_concurrency a)"
    using bench_begins_run [OF assms(1)] by metis
  have m: "list_all (\<lambda>wk. wk_phase wk = Ended) wks" "list_ex (\<lambda>wk. ws_ready (wk_stats wk)) wks"
    "t = with_start (sh_start sh) (bench_summary wks)" "code = (if bt_fail (bench_summary wks) = 0 then 0 else 2)"
    using bench_main_begins [OF assms(1) r(1)] assms(2) summary_any by (auto split: if_splits)
  show ?thesis unfolding m(3) with_start_simps using summary_total [OF all_ready(1) [OF r(2) m(1,2)] r(3) all_ready(2) [OF r(2) m(1,2)] refl] m(4)
    by simp
qed

theorem bench_result_adds_up_witness:
  "\<exists>sched code t. bench_main (few_buffers 2) small_bench sched (0, []) = BenchExit code (Some t) \<and>
     bt_ok t + bt_fail t = 12"
proof -
  obtain c st sched wks sh where e: "bench_begins (few_buffers 2) small_bench (0, []) small_args c st"
    "bench_sched (few_buffers 2) small_args c (bench_pattern small_args) sched st = Some (wks, sh)"
    "list_all (\<lambda>wk. wk_phase wk = Ended) wks" "list_ex (\<lambda>wk. ws_ready (wk_stats wk)) wks"
    using small_ends .
  then obtain code t where m: "bench_main (few_buffers 2) small_bench sched (0, []) = BenchExit code (Some t)"
    using bench_main_begins [OF e(1,2)] by (simp add: summary_any)
  have "ba_count small_args + ba_concurrency small_args * ba_warmup small_args = 12"
    by (simp add: small_args_def default_args_def)
  with bench_result_adds_up [OF e(1) m] m show ?thesis by metis
qed

lemma unat_word_of_nat_le: "unat (word_of_nat n :: u64) \<le> n"
  by (simp add: unat_of_nat)

lemma little:
  fixes wall total :: int and conc ok len :: nat
  assumes "0 < wall" "0 < len" "ok \<le> len" "0 \<le> total" "total \<le> int conc * wall"
  shows "(of_nat ok / (of_int wall / 1000000000)) * (of_int total / of_nat len / 1000000000) \<le> (of_nat conc :: rat)"
proof -
  have "(of_nat ok / (of_int wall / 1000000000)) * (of_int total / of_nat len / 1000000000) =
      (of_nat ok / of_nat len) * (of_int total / of_int wall :: rat)" by simp
  also have "\<dots> \<le> 1 * (of_int total / of_int wall)"
    using assms by (intro mult_right_mono) simp_all
  also have "\<dots> \<le> of_nat conc"
    using assms(1,5) by (simp add: divide_le_eq) (metis of_int_le_iff of_int_mult of_int_of_nat_eq)
  finally show ?thesis .
qed

lemma summary_times:
  assumes "clock_env api tick" "bench_begins api argv s a c st"
    and "bench_sched api a c (bench_pattern a) sched st = Some (wks, sh)"
    and "list_all (\<lambda>wk. wk_phase wk = Ended \<and> ws_ready (wk_stats wk)) wks" "0 < length wks"
    and "t = with_start (sh_start sh) (bench_summary wks)"
  shows "0 \<le> bench_wall t" "list_all (\<lambda>d. 0 \<le> d) (bt_latencies t)"
    "ba_warmup a = 0 \<Longrightarrow> sum_list (bt_latencies t) \<le> int (length wks) * bench_wall t"
proof -
  obtain static w where i: "bench_sane a" "client_inv (c, static, w)" "cl_initialized c" "st = bench_start a static w"
    using assms(2) initialized_inv [of api "bench_options a" s True c] unfolding bench_begins_def by metis
  have times: "list_all (worker_times a (sh_start sh) (tick (env (sh_world sh)))) wks"
    using clock_env.run_times [OF assms(1) _ i(2,3,1)] assms(3) i(4) by blast
  have r: "list_all (\<lambda>wk. ws_ready (wk_stats wk)) wks" using assms(4) by (simp add: list_all_iff)
  have past: "past_barrier wk \<and> busy_until now wk = ws_end (wk_stats wk)" if "wk \<in> set wks" for wk now
    using assms(4) that by (auto simp: list_all_iff phase_defs busy_until_def)
  obtain wk0 where wk0: "wk0 \<in> set wks" using assms(5) by (cases wks) auto
  obtain t0 where t0: "sh_start sh = Some t0"
    using times wk0 past [OF wk0] by (auto simp: list_all_iff worker_times_def split: option.splits)
  have each: "t0 \<le> ws_end (wk_stats wk) \<and> (ba_warmup a = 0 \<longrightarrow>
      t0 + sum_list (ws_latencies (wk_stats wk)) \<le> ws_end (wk_stats wk)) \<and> ws_end (wk_stats wk) \<le> bt_end_max t"
    if "wk \<in> set wks" for wk
    using times that past [OF that] t0 sum_stats_end [OF r that]
    by (auto simp: list_all_iff worker_times_def assms(6) bench_summary_def Let_def)
  have wall: "bench_wall t = bt_end_max t - t0" by (simp add: bench_wall_def assms(6) with_start_def t0)
  then show "0 \<le> bench_wall t" using each [OF wk0] by simp
  have lat: "bt_latencies t = sort (concat (map (\<lambda>wk. ws_latencies (wk_stats wk)) wks))"
    by (simp add: assms(6) bench_summary_def Let_def sum_stats_ready [OF r])
  show "list_all (\<lambda>d. 0 \<le> d) (bt_latencies t)"
    using times by (auto simp: lat list_all_iff worker_times_def)
  have "mset (bt_latencies t) = mset (concat (map (\<lambda>wk. ws_latencies (wk_stats wk)) wks))" by (simp add: lat)
  then have sum: "sum_list (bt_latencies t) = sum_list (concat (map (\<lambda>wk. ws_latencies (wk_stats wk)) wks))"
    by (metis sum_mset_sum_list)
  show "sum_list (bt_latencies t) \<le> int (length wks) * bench_wall t" if "ba_warmup a = 0"
    unfolding sum wall by (rule sum_of_latencies) (use each that in \<open>force simp: list_all_iff\<close>)
qed

text \<open>
  C39: on a clock that does not go back, the times the program prints make sense under every
  schedule. The wall time and the latencies are not negative; without warm-up transfers all
  latencies together fit into the wall time of all workers, so that the rate of transfers times
  their average latency is at most the number of workers.
\<close>

theorem bench_times_consistent:
  assumes "clock_env api tick" and "bench_begins api argv s a c st"
    and "bench_main api argv sched s = BenchExit code (Some t)"
  shows "0 \<le> bench_wall t \<and> list_all (\<lambda>d. 0 \<le> d) (bt_latencies t) \<and>
    (ba_warmup a = 0 \<longrightarrow> sum_list (bt_latencies t) \<le> int (unat (ba_concurrency a)) * bench_wall t \<and>
       bench_ops_per_sec t * (bench_average t / 1000000000) \<le> of_nat (unat (ba_concurrency a)))"
proof -
  obtain wks sh where r: "bench_sched api a c (bench_pattern a) sched st = Some (wks, sh)"
      "control_inv a (wks, control_of sh)" "length wks = unat (ba_concurrency a)" "0 < length wks"
    using bench_begins_run [OF assms(2)] by metis
  have m: "list_all (\<lambda>wk. wk_phase wk = Ended) wks" "list_ex (\<lambda>wk. ws_ready (wk_stats wk)) wks"
    "t = with_start (sh_start sh) (bench_summary wks)"
    using bench_main_begins [OF assms(2) r(1)] assms(3) summary_any by (auto split: if_splits)
  have "list_all (\<lambda>wk. wk_phase wk = Ended \<and> ws_ready (wk_stats wk)) wks"
    using all_ready(1) [OF r(2) m(1,2)] by (simp add: list_all_iff)
  note times = summary_times [OF assms(1,2) r(1) this r(4) m(3)]
  have "word_of_nat (length (bt_latencies t)) = bt_ok t"
    using summary_total(3) [OF all_ready(1) [OF r(2) m(1,2)] r(3) all_ready(2) [OF r(2) m(1,2)] refl] by (simp add: m(3))
  then have ok: "unat (bt_ok t) \<le> length (bt_latencies t)" by (metis unat_word_of_nat_le)
  have "bench_ops_per_sec t * (bench_average t / 1000000000) \<le> of_nat (unat (ba_concurrency a))"
    if "sum_list (bt_latencies t) \<le> int (length wks) * bench_wall t"
  proof (cases "0 < bench_wall t \<and> bt_latencies t \<noteq> []")
    case True
    then show ?thesis
      using little [of "bench_wall t" "length (bt_latencies t)" "unat (bt_ok t)" "sum_list (bt_latencies t)" "length wks"]
        ok that times(2) r(3) by (simp add: bench_ops_per_sec_def bench_average_def list_all_iff sum_list_nonneg)
  qed (auto simp: bench_ops_per_sec_def bench_average_def simp del: of_nat_unat)
  then show ?thesis using times r(3) by simp
qed

text \<open>The machine of the witnesses keeps its clock.\<close>

interpretation few_clock: clock_env "few_buffers k" "int \<circ> fst" for k
  by unfold_locales (auto simp: few_buffers_def Let_def split: prod.splits if_splits)

theorem bench_times_consistent_witness:
  "\<exists>sched code t. bench_main (few_buffers 2) small_bench sched (0, []) = BenchExit code (Some t) \<and> 0 \<le> bench_wall t \<and>
     list_all (\<lambda>d. 0 \<le> d) (bt_latencies t)"
proof -
  obtain c st sched wks sh where e: "bench_begins (few_buffers 2) small_bench (0, []) small_args c st"
    "bench_sched (few_buffers 2) small_args c (bench_pattern small_args) sched st = Some (wks, sh)"
    "list_all (\<lambda>wk. wk_phase wk = Ended) wks" "list_ex (\<lambda>wk. ws_ready (wk_stats wk)) wks"
    using small_ends .
  then obtain code t where m: "bench_main (few_buffers 2) small_bench sched (0, []) = BenchExit code (Some t)"
    using bench_main_begins [OF e(1,2)] by (simp add: summary_any)
  from bench_times_consistent [OF few_clock.clock_env_axioms e(1) m] m show ?thesis by blast
qed

text \<open>
  C22: when one worker's set-up failed and another's succeeded, the program never ends: the
  barrier waits for all, and the failed one has returned without arriving.
\<close>

theorem bench_failed_setup_hangs:
  assumes "bench_begins api argv s a c st"
    and "bench_sched api a c (bench_pattern a) sched st = Some (wks, sh)"
    and "list_ex failed_worker wks" and "list_ex (\<lambda>wk. ws_ready (wk_stats wk)) wks"
  shows "bench_main api argv (sched @ later) s = BenchRunning"
proof -
  obtain wks0 sh0 where r0: "bench_sched api a c (bench_pattern a) sched st = Some (wks0, sh0)"
      "shared_inv c wks0 sh0" "control_inv a (wks0, control_of sh0)" using bench_begins_run [OF assms(1)] by metis
  then have inv: "shared_inv c wks sh" using assms(2) by simp
  obtain wks' sh' where run: "bench_sched api a c (bench_pattern a) later (wks, sh) = Some (wks', sh')"
      "(control_step a)\<^sup>*\<^sup>* (wks, control_of sh) (wks', control_of sh')"
    using bench_sched_control [OF inv] .
  have all: "bench_sched api a c (bench_pattern a) (sched @ later) st = Some (wks', sh')"
    using assms(2) run(1) by (simp add: bench_sched_append)
  obtain wks1 sh1 where "bench_sched api a c (bench_pattern a) (sched @ later) st = Some (wks1, sh1)"
      "control_inv a (wks1, control_of sh1)" using bench_begins_run [OF assms(1)] by metis
  then have inv': "control_inv a (wks', sh_next sh', sh_arrived sh', sh_start sh' \<noteq> None)"
    using all by (simp add: control_of_def)
  obtain i j where ij: "i < length wks" "failed_worker (wks ! i)" "j < length wks" "ws_ready (wk_stats (wks ! j))"
    using assms(3,4) by (auto simp: list_ex_iff in_set_conv_nth)
  then have "failed_worker (wks' ! i)" "ws_ready (wk_stats (wks' ! j))" "i < length wks'" "j < length wks'"
    using run_keeps [OF run(2)] by (metis, metis, metis, metis)
  then have "\<not> list_all (\<lambda>wk. wk_phase wk = Ended) wks'"
    using barrier_shut [OF inv', of "wks' ! i" "wks' ! j"]
    by (auto simp: past_barrier_def done_with_work_def list_all_length)
  then show ?thesis using bench_main_begins [OF assms(1) all] by simp
qed

theorem bench_failed_setup_hangs_witness:
  "bench_main (few_buffers 1) small_bench ([0, 0, 0, 1, 1, 1] @ [0, 1, 0, 1, 0, 1]) (0, []) = BenchRunning"
proof -
  obtain c st wk1 wk2 sh where b: "bench_begins (few_buffers 1) small_bench (0, []) small_args c st"
    and r: "bench_sched (few_buffers 1) small_args c (bench_pattern small_args) [0, 0, 0, 1, 1, 1] st = Some ([wk1, wk2], sh)"
    "ws_ready (wk_stats wk1)" "failed_worker wk2"
    using small_start [of 1] by (metis zero_less_one order.refl)
  show ?thesis by (rule bench_failed_setup_hangs [OF b r(1)]) (simp_all add: r(2,3))
qed

text \<open>
  C25: once all workers are set up, the program ends under every schedule in which each of them
  has a turn often enough, and prints its totals.
\<close>

theorem bench_ends:
  assumes "bench_begins api argv s a c st"
    and "bench_sched api a c (bench_pattern a) sched st = Some (wks, sh)" and "all_set_up wks"
    and "fair_rounds (length wks) rounds"
    and "unat (ba_concurrency a) * (41 * unat (ba_warmup a) + 46) + 42 * unat (ba_count a) \<le> length rounds"
  shows "\<exists>code t. bench_main api argv (sched @ concat rounds) s = BenchExit code (Some t)"
proof -
  obtain wks' sh' where "bench_sched api a c (bench_pattern a) (sched @ concat rounds) st = Some (wks', sh')"
      "list_all (\<lambda>wk. wk_phase wk = Ended) wks'" "list_ex (\<lambda>wk. ws_ready (wk_stats wk)) wks'"
    using rounds_end [OF assms] .
  then show ?thesis using bench_main_begins [OF assms(1)] by (simp add: summary_any)
qed

theorem bench_ends_witness:
  "\<exists>sched code t. bench_main (few_buffers 2) small_bench sched (0, []) = BenchExit code (Some t)"
proof -
  obtain c st wks sh where "bench_begins (few_buffers 2) small_bench (0, []) small_args c st"
    "bench_sched (few_buffers 2) small_args c (bench_pattern small_args) [0, 0, 0, 1, 1, 1] st = Some (wks, sh)"
    "all_set_up wks" "length wks = 2" using small_set_up .
  from bench_ends [OF this(1-3), of "replicate 594 [0, 1]"] this(4)
  have "\<exists>code t. bench_main (few_buffers 2) small_bench ([0, 0, 0, 1, 1, 1] @ concat (replicate 594 [0, 1])) (0, []) =
      BenchExit code (Some t)"
    using small_rounds by (simp add: small_args_def default_args_def)
  then show ?thesis by blast
qed

end
