(* ===== verification/Bench_Arg_Properties.thy ===== *)
theory Bench_Arg_Properties
  imports Bench_Args
begin

text \<open>
  The properties of the benchmark's command line and of its numbers: what its parsers read back,
  where a size wraps around, and the order of the percentiles it prints.
\<close>

section \<open>Numbers\<close>

lemma size_unit_no_digit: "is_digit c \<Longrightarrow> size_unit c = None"
proof -
  assume c: "is_digit c"
  then have "to_lower c = c" by (simp add: is_digit_def to_lower_def Let_def)
  moreover have "\<not> is_digit (CHR ''b'')" "\<not> is_digit (CHR ''k'')" "\<not> is_digit (CHR ''m'')" "\<not> is_digit (CHR ''g'')"
    by (simp_all add: is_digit_def)
  ultimately show ?thesis using c by (auto simp: size_unit_def Let_def)
qed

lemma leading_digits:
  assumes "list_all is_digit ds"
  shows "leading_number 0 (ds @ s) =
    (word_of_nat (digits_value (ds @ takeWhile is_digit s)), dropWhile is_digit s)"
proof -
  have "takeWhile is_digit (ds @ s) = ds @ takeWhile is_digit s" "dropWhile is_digit (ds @ s) = dropWhile is_digit s"
    using assms by (simp_all add: list_all_iff takeWhile_append dropWhile_append)
  then show ?thesis by (simp add: leading_number_spec digits_value_def)
qed

lemma digits_value_snoc: "digits_value (ds @ [c]) = 10 * digits_value ds + (of_char c - 48)"
  by (simp add: digits_value_def)

text \<open>
  The parsers read back every number the library prints, and a size with one character
  after it as the multiple its unit stands for; any other character is refused and leaves the
  output parameter as it was. The arithmetic is that of 64 bits, so that a large number is
  accepted with its remainder.
\<close>

theorem bench_numbers_round_trip:
  "ParseUint (to_string n) out = (True, word_of_nat n) \<and>
   ParseSize (to_string n) out = (True, word_of_nat n) \<and>
   ParseSize (to_string n @ [c]) out =
     (case size_unit c of
        Some m \<Rightarrow> (True, word_of_nat n * m)
      | None \<Rightarrow> if is_digit c then (True, word_of_nat (10 * n + (of_char c - 48))) else (False, out))"
proof -
  have d: "list_all is_digit (to_string n)" "digits_value (to_string n) = n" "to_string n \<noteq> []"
    using to_string_digits by blast+
  note lead = leading_digits [OF d(1)]
  show ?thesis
    using d lead [of "[]"] lead [of "[c]"] size_unit_no_digit [of c] digits_value_snoc [of "to_string n" c]
    by (cases "is_digit c") (auto simp: ParseUint_spec ParseSize_def split: option.splits)
qed

text \<open>A size beyond 64 bits that the program accepts, as 1024 bytes.\<close>

lemma size_wraps: "ParseSize ''18014398509481985K'' out = (True, 1024)"
  by code_simp

section \<open>The command line\<close>

text \<open>A command line for given parameters.\<close>

definition bench_command_line :: "Args \<Rightarrow> string list" where
  "bench_command_line a =
     [''bench'', ''--proxy'', ba_proxy a, ''--backend'', ba_backend a,
      ''--size'', to_string (unat (ba_size a)), ''--count'', to_string (unat (ba_count a)),
      ''--concurrency'', to_string (unat (ba_concurrency a)), ''--warmup'', to_string (unat (ba_warmup a)),
      ''--bucket'', ba_bucket a, ''--key-prefix'', ba_key_prefix a] @
     (if ba_verify_crc32c a then [''--verify-crc32c''] else []) @ (if ba_trace a then [''--trace''] else [])"

lemma parse_printed:
  "ParseUint (to_string (unat x)) out = (True, x)" "ParseSize (to_string (unat x)) out = (True, x)"
proof -
  have d: "list_all is_digit (to_string (unat x))" "digits_value (to_string (unat x)) = unat x" "to_string (unat x) \<noteq> []"
    using to_string_digits by blast+
  show "ParseUint (to_string (unat x)) out = (True, x)" "ParseSize (to_string (unat x)) out = (True, x)"
    using d leading_digits [OF d(1), of "[]"] by (auto simp: ParseUint_spec ParseSize_def)
qed

text \<open>
  Every set of parameters can be given on the command line, and is accepted just when its
  size, its count and its concurrency are positive.
\<close>

theorem bench_args_round_trip:
  "ParseArgs (bench_command_line a) default_args =
     ArgsReturn (0 < ba_size a \<and> 0 < ba_count a \<and> 0 < ba_concurrency a) a"
proof -
  let ?flags = "(if ba_verify_crc32c a then [''--verify-crc32c''] else []) @ (if ba_trace a then [''--trace''] else [])"
  have flags: "args_loop ?flags (b\<lparr>ba_verify_crc32c := False, ba_trace := False\<rparr>) =
      args_loop [] (b\<lparr>ba_verify_crc32c := ba_verify_crc32c a, ba_trace := ba_trace a\<rparr>)" for b
    by (simp add: takes_value_def)
  have "ParseArgs (bench_command_line a) default_args =
      args_loop ?flags (a\<lparr>ba_verify_crc32c := False, ba_trace := False\<rparr>)"
    by (simp add: ParseArgs_def bench_command_line_def takes_value_def option_value_def parse_printed
        default_args_def)
  also have "\<dots> = ArgsReturn (0 < ba_size a \<and> 0 < ba_count a \<and> 0 < ba_concurrency a) a"
    unfolding flags by (auto simp: word_gt_0)
  finally show ?thesis .
qed

section \<open>Percentiles\<close>

definition percent_index :: "nat \<Rightarrow> nat \<Rightarrow> nat" where
  "percent_index p n =
     (let idx = round_double (percent_double p * (n - 1)) div 2 ^ 53 in if n \<le> idx then n - 1 else idx)"

lemma Percentile_index: "xs \<noteq> [] \<Longrightarrow> Percentile xs p = xs ! percent_index p (length xs)"
  by (simp add: Percentile_def percent_index_def Let_def)

lemma half_even_div_mono:
  assumes "0 < b" "a \<le> a'"
  shows "half_even_div a b \<le> half_even_div a' b"
proof (cases "a div b = a' div b")
  case True
  have "a mod b \<le> a' mod b" using assms True by (metis div_mult_mod_eq nat_add_left_cancel_le)
  then show ?thesis using True by (auto simp: half_even_div_def Let_def)
next
  case False
  then have "Suc (a div b) \<le> a' div b" using div_le_mono [OF assms(2), of b] by simp
  then show ?thesis by (auto simp: half_even_div_def Let_def)
qed

lemma percent_index_mono: "p \<le> q \<Longrightarrow> percent_index p n \<le> percent_index q n"
proof -
  assume "p \<le> q"
  then have "percent_double p \<le> percent_double q"
    unfolding percent_double_def by (intro half_even_div_mono) simp_all
  then have "round_double (percent_double p * (n - 1)) div 2 ^ 53 \<le>
      round_double (percent_double q * (n - 1)) div 2 ^ 53"
    by (intro div_le_mono round_double_mono mult_le_mono1)
  then show ?thesis by (auto simp: percent_index_def Let_def)
qed

lemma percent_index_bound: "0 < n \<Longrightarrow> percent_index p n < n"
  by (auto simp: percent_index_def Let_def)

text \<open>
  The percentiles of the sorted latencies are latencies that were measured, in order, with
  the rounding of the products in \<open>double\<close> taken into account, and never beyond the last.
\<close>

theorem percentiles_ordered:
  fixes xs :: "int list"
  assumes "xs \<noteq> []" and "p \<le> q"
  shows "Percentile (sort xs) p \<in> set xs \<and> hd (sort xs) \<le> Percentile (sort xs) p \<and>
    Percentile (sort xs) p \<le> Percentile (sort xs) q \<and> Percentile (sort xs) q \<le> last (sort xs)"
proof -
  define ys where "ys = sort xs"
  have ys: "sorted ys" "set ys = set xs" by (simp_all add: ys_def)
  then have ne: "ys \<noteq> []" using assms(1) by force
  have i: "percent_index k (length ys) < length ys" for k using percent_index_bound ne by simp
  have le: "percent_index p (length ys) \<le> percent_index q (length ys)" using assms(2) by (rule percent_index_mono)
  note at = Percentile_index [OF ne]
  have "Percentile ys p \<in> set ys" unfolding at using i by simp
  moreover have "hd ys \<le> Percentile ys p" unfolding at hd_conv_nth [OF ne] using ys(1) i
    by (intro sorted_nth_mono) auto
  moreover have "Percentile ys p \<le> Percentile ys q" unfolding at using ys(1) le i by (intro sorted_nth_mono) auto
  moreover have "Percentile ys q \<le> last ys" unfolding at last_conv_nth [OF ne] using ys(1) ne i [of q]
    by (intro sorted_nth_mono) auto
  ultimately show ?thesis using ys(2) by (simp add: ys_def)
qed

theorem percentiles_ordered_witness:
  "Percentile (sort [5, 3, 9, 1 :: int]) 50 \<le> Percentile (sort [5, 3, 9, 1]) 95"
  using percentiles_ordered [of "[5, 3, 9, 1]" 50 95] by simp

end
