(* ===== verification/Bench_Devices.thy ===== *)
theory Bench_Devices
  imports Bench_Lemmas
begin

text \<open>
  The benchmark's device memory: a locale for a machine whose allocator hands out addresses that
  are not in use, and an invariant of the workers on it, under every schedule. Each worker has a
  buffer of its own, the manager lists exactly the buffers of the workers between their set-up
  and their end, and a buffer is freed only after its deregistration was asked for. What the
  library has registered follows from the list and the failed deregistrations (\<open>library_books\<close>).
\<close>

section \<open>A device\<close>

text \<open>
  \<open>live s\<close> are the addresses of the allocated device buffers. Only the allocator and \<open>cudaFree\<close>
  change them.
\<close>

locale device_env =
  fixes api :: "'s client_api" and live :: "'s \<Rightarrow> u64 set"
  assumes open_live: "live (snd (ca_open api ep t q s)) = live s"
    and abort_live: "live (snd (ca_abort api ep t aq s)) = live s"
    and put_live: "live (snd (ca_put api ep t cq s)) = live s"
    and rng_live: "live (snd (ca_rng api s)) = live s"
    and jitter_live: "live (snd (ca_jitter api s)) = live s"
    and now_live: "live (snd (ca_now api s)) = live s"
    and sleep_live: "live (ca_sleep api ms s) = live s"
    and memcpy_live: "live (snd (ca_memcpy api p n s)) = live s"
    and new_client_live: "live (snd (ca_new_client api s)) = live s"
    and get_descriptor_live: "live (snd (ca_get_descriptor api p n s)) = live s"
    and put_descriptor_live: "live (snd (ca_put_descriptor api p s)) = live s"
    and get_token_live: "live (snd (ca_get_token api p n off s)) = live s"
    and put_token_live: "live (ca_put_token api tok s) = live s"
    and upload_live: "live (snd (ca_upload api p bytes s)) = live s"
    and malloc_live: "ca_malloc api n s = ((e, p), s') \<Longrightarrow> live s' = (if e = cudaSuccess then insert p (live s) else live s)"
    and malloc_fresh: "ca_malloc api n s = ((cudaSuccess, p), s') \<Longrightarrow> p \<notin> live s"
    and free_live: "live (ca_dev_free api p s) = live s - {p}"

text \<open>Everything but the allocator keeps the set of allocated buffers.\<close>

sublocale device_env \<subseteq> kept: client_env api "\<lambda>s. live s = L" for L :: "u64 set"
  by unfold_locales (simp_all add: open_live abort_live put_live rng_live jitter_live now_live sleep_live memcpy_live
      new_client_live get_descriptor_live put_descriptor_live get_token_live put_token_live)

context device_env
begin

lemma device_calls:
  "w_malloc api n w = ((e, p), w') \<Longrightarrow> live (env w') = (if e = cudaSuccess then insert p (live (env w)) else live (env w))"
  "w_malloc api n w = ((cudaSuccess, p), w') \<Longrightarrow> p \<notin> live (env w)"
  "w_upload api p bytes w = (r, w') \<Longrightarrow> live (env w') = live (env w)"
  "live (env (w_dev_free api p w)) = live (env w) - {p}"
  "w_now api w = (t, w') \<Longrightarrow> live (env w') = live (env w)"
  using malloc_live [of n "env w"] malloc_fresh [of n "env w"] upload_live [of p bytes "env w"] now_live [of "env w"]
  by (auto simp: world_wrappers free_live Let_def split: prod.splits if_splits)

end

section \<open>What a worker does with its buffer\<close>

definition holds_buffer :: "worker \<Rightarrow> bool" where
  "holds_buffer wk \<longleftrightarrow> wk_phase wk \<noteq> Begin \<and> wk_phase wk \<noteq> Ended"

definition has_registered :: "worker \<Rightarrow> bool" where
  "has_registered wk \<longleftrightarrow> wk_phase wk \<notin> {Begin, Filling, Registering, GivingUp, Freeing, Ended}"

text \<open>A thread in the memory manager that asks for a token of nothing else than buffer \<open>p\<close>.\<close>

definition asks_for :: "u64 \<Rightarrow> mem_thread \<Rightarrow> bool" where
  "asks_for p m \<longleftrightarrow> (case mt_phase m of
     LookupLock q n off \<Rightarrow> q = p | EnsureLock q n off \<Rightarrow> q = p | FetchToken q n off \<Rightarrow> q = p | _ \<Rightarrow> True)"

definition own_put :: "worker \<Rightarrow> bool" where
  "own_put wk \<longleftrightarrow> asks_for (wk_dev wk) (worker_mem wk) \<and>
     (\<forall>i. wk_phase wk \<in> {WarmupRun i, PutRun i} \<longrightarrow> cbv_data (pt_buffer (wk_put wk)) = wk_dev wk)"

text \<open>The addresses the manager lists as registered.\<close>

definition table :: "GdsMemoryManager option \<Rightarrow> u64 set" where
  "table static = (case static of None \<Rightarrow> {} | Some mgr \<Rightarrow> fst ` set (gm_registered mgr))"

text \<open>One step of a worker, as far as its buffer, the table and the allocated buffers go.\<close>

type_synonym device_state = "u64 set \<times> u64 set"

inductive device_step :: "worker \<times> device_state \<Rightarrow> worker \<times> device_state \<Rightarrow> bool" where
  nothing: "holds_buffer wk' = holds_buffer wk \<Longrightarrow> has_registered wk' = has_registered wk \<Longrightarrow> wk_dev wk' = wk_dev wk \<Longrightarrow>
    device_step (wk, s) (wk', s)"
| allocate: "\<not> holds_buffer wk \<Longrightarrow> holds_buffer wk' \<Longrightarrow> \<not> has_registered wk' \<Longrightarrow> wk_dev wk' \<notin> lv \<Longrightarrow>
    device_step (wk, tab, lv) (wk', tab, insert (wk_dev wk') lv)"
| register: "holds_buffer wk \<Longrightarrow> \<not> has_registered wk \<Longrightarrow> holds_buffer wk' \<Longrightarrow> has_registered wk' \<Longrightarrow>
    wk_dev wk' = wk_dev wk \<Longrightarrow> wk_dev wk \<noteq> 0 \<Longrightarrow> device_step (wk, tab, lv) (wk', insert (wk_dev wk) tab, lv)"
| unregister: "has_registered wk \<Longrightarrow> holds_buffer wk' \<Longrightarrow> \<not> has_registered wk' \<Longrightarrow> wk_dev wk' = wk_dev wk \<Longrightarrow>
    device_step (wk, tab, lv) (wk', tab - {wk_dev wk}, lv)"
| release: "holds_buffer wk \<Longrightarrow> \<not> has_registered wk \<Longrightarrow> \<not> holds_buffer wk' \<Longrightarrow>
    device_step (wk, tab, lv) (wk', tab, lv - {wk_dev wk})"

lemma registered_holds: "has_registered wk \<Longrightarrow> holds_buffer wk"
  by (auto simp: has_registered_def holds_buffer_def)

text \<open>The invariant: \<open>lv0\<close> is what was allocated before the workers began.\<close>

definition device_inv :: "u64 set \<Rightarrow> worker list \<times> device_state \<Rightarrow> bool" where
  "device_inv lv0 = (\<lambda>(wks, tab, lv).
     (\<forall>i<length wks. \<forall>j<length wks. i \<noteq> j \<longrightarrow> holds_buffer (wks ! i) \<longrightarrow> holds_buffer (wks ! j) \<longrightarrow>
        wk_dev (wks ! i) \<noteq> wk_dev (wks ! j)) \<and>
     (\<forall>i<length wks. holds_buffer (wks ! i) \<longrightarrow> wk_dev (wks ! i) \<notin> lv0) \<and>
     lv = lv0 \<union> {p. \<exists>i<length wks. holds_buffer (wks ! i) \<and> p = wk_dev (wks ! i)} \<and>
     tab = {p. \<exists>i<length wks. has_registered (wks ! i) \<and> p = wk_dev (wks ! i)} \<and> 0 \<notin> tab)"

lemma at_index: "{p. \<exists>i<length xs. P (xs ! i) \<and> p = f (xs ! i)} = set (map f (filter P xs))"
  by (auto simp: in_set_conv_nth)

lemma device_inv_step:
  assumes "device_inv lv0 (wks, s)" "i < length wks" "device_step (wks ! i, s) (wk, s')"
  shows "device_inv lv0 (wks[i := wk], s')"
proof -
  obtain tab lv where s: "s = (tab, lv)" by (cases s)
  have inv: "\<And>j k. j < length wks \<Longrightarrow> k < length wks \<Longrightarrow> j \<noteq> k \<Longrightarrow> holds_buffer (wks ! j) \<Longrightarrow> holds_buffer (wks ! k) \<Longrightarrow>
        wk_dev (wks ! j) \<noteq> wk_dev (wks ! k)"
    "\<And>j. j < length wks \<Longrightarrow> holds_buffer (wks ! j) \<Longrightarrow> wk_dev (wks ! j) \<notin> lv0"
    "lv = lv0 \<union> {p. \<exists>i<length wks. holds_buffer (wks ! i) \<and> p = wk_dev (wks ! i)}"
    "tab = {p. \<exists>i<length wks. has_registered (wks ! i) \<and> p = wk_dev (wks ! i)}" "0 \<notin> tab"
    using assms(1) by (auto simp: device_inv_def s)
  define H where "H = {p. \<exists>j<length wks. j \<noteq> i \<and> holds_buffer (wks ! j) \<and> p = wk_dev (wks ! j)}"
  define R where "R = {p. \<exists>j<length wks. j \<noteq> i \<and> has_registered (wks ! j) \<and> p = wk_dev (wks ! j)}"
  have others: "{p. \<exists>j<length (wks[i := wk]). P (wks[i := wk] ! j) \<and> p = wk_dev (wks[i := wk] ! j)} =
      (if P wk then {wk_dev wk} else {}) \<union> {p. \<exists>j<length wks. j \<noteq> i \<and> P (wks ! j) \<and> p = wk_dev (wks ! j)}" for P
    using assms(2) by (auto simp: nth_list_update)
  have glue: "device_inv lv0 (wks[i := wk], tab', lv')"
    if new: "holds_buffer wk \<Longrightarrow> wk_dev wk \<notin> H \<and> wk_dev wk \<notin> lv0" and "0 \<notin> tab'"
      "lv' = lv0 \<union> (if holds_buffer wk then {wk_dev wk} else {}) \<union> H"
      "tab' = (if has_registered wk then {wk_dev wk} else {}) \<union> R" for tab' lv'
  proof -
    have "wk_dev (wks[i := wk] ! j) \<noteq> wk_dev (wks[i := wk] ! k)"
      if "j < length wks" "k < length wks" "j \<noteq> k" "holds_buffer (wks[i := wk] ! j)" "holds_buffer (wks[i := wk] ! k)" for j k
      using that new inv(1) [of j k] by (cases "j = i"; cases "k = i") (auto simp: H_def)
    moreover have "wk_dev (wks[i := wk] ! j) \<notin> lv0" if "j < length wks" "holds_buffer (wks[i := wk] ! j)" for j
      using that new inv(2) [of j] by (cases "j = i") auto
    ultimately show ?thesis
      unfolding device_inv_def prod.case others H_def [symmetric] R_def [symmetric] using that by simp
  qed
  have before: "lv = lv0 \<union> (if holds_buffer (wks ! i) then {wk_dev (wks ! i)} else {}) \<union> H"
    "tab = (if has_registered (wks ! i) then {wk_dev (wks ! i)} else {}) \<union> R"
    using assms(2) by (auto simp: inv(3,4) H_def R_def)
  have apart: "wk_dev (wks ! i) \<notin> H" "wk_dev (wks ! i) \<notin> lv0" if "holds_buffer (wks ! i)"
    using inv(1,2) assms(2) that by (auto simp: H_def)
  have "R \<subseteq> H" using registered_holds by (auto simp: H_def R_def)
  note facts = this apart before inv(5) registered_holds [of wk] registered_holds [of "wks ! i"]
  show ?thesis
    using assms(3) [unfolded s]
  proof (cases rule: device_step.cases)
    case nothing
    then show ?thesis using facts by (auto intro!: glue)
  next
    case allocate
    then show ?thesis using facts by (auto intro!: glue)
  next
    case register
    then show ?thesis using facts by (auto intro!: glue)
  next
    case unregister
    then show ?thesis using facts by (auto intro!: glue)
  next
    case release
    then show ?thesis using facts by (auto intro!: glue split: if_splits)
  qed
qed

section \<open>The table\<close>

lemma Register_table:
  assumes "RegisterBufferUnderLock api p n (mgr, w) = (ok, mgr', w')"
  shows "table (Some mgr') = (if ok then insert p (table (Some mgr)) else table (Some mgr))"
  using assms by (auto simp: table_def RegisterBufferUnderLock_def map_of_None_fst Let_def split: if_splits prod.splits
      dest!: map_of_SomeD intro: rev_image_eqI)

lemma RegisterDevice_table:
  assumes "RegisterDeviceBuffer api c p n (static, w) = Some (ok, static', w')"
  shows "table static' = (if ok then insert p (table static) else table static)" "ok \<Longrightarrow> p \<noteq> 0"
  using assms Register_table [of api p n]
  by (auto simp: RegisterDeviceBuffer_def RegisterBuffer_def client_parts_def split: if_splits option.splits prod.splits)

lemma UnregisterDevice_table:
  assumes "UnregisterDeviceBuffer api c p (static, w) = Some (ok, static', w')" "cl_initialized c" "p \<noteq> 0"
  shows "table static' = table static - {p}"
  using assms
  by (auto simp: UnregisterDeviceBuffer_def UnregisterBuffer_def client_parts_def table_def map_of_None_fst Let_def
      split: if_splits option.splits prod.splits)

text \<open>A PUT of a registered buffer leaves the table as it is, under every schedule.\<close>

lemma asks_move:
  assumes "asks_for p m" "acquiring m \<or> mt_phase m = DropToken" "p \<in> table (Some mgr)"
    and "memory_move api (m, mgr, w) = (m', mgr', w')"
  shows "table (Some mgr') = table (Some mgr) \<and> asks_for p m'"
proof -
  have mv: "memory_move api (m\<lparr>mt_phase := mt_phase m\<rparr>, mgr, w) = (m', mgr', w')" using assms(4) by simp
  show ?thesis
  proof (cases "mt_phase m")
    case (EnsureLock q n off)
    obtain ok mgr1 w1 where r: "RegisterBufferUnderLock api q (n + off) (mgr, w) = (ok, mgr1, w1)" by (metis prod.collapse)
    then show ?thesis
      using mv EnsureLock assms(1,3) Register_table [OF r]
      by (auto simp: move_ensure asks_for_def leave_memory_def insert_absorb split: if_splits)
  next
    case (LookupLock q n off)
    then show ?thesis using mv assms(1) by (auto simp: move_lookup asks_for_def)
  next
    case (FetchToken q n off)
    then show ?thesis using mv by (auto simp: move_fetch asks_for_def leave_memory_def split: prod.splits if_splits)
  next
    case MemOutside
    then show ?thesis using assms(1,4) by (simp add: move_idle)
  next
    case (StoreToken tok)
    then show ?thesis using mv by (auto simp: move_store asks_for_def leave_memory_def)
  next
    case DropToken
    then show ?thesis using mv by (auto simp: move_drop asks_for_def)
  qed (use assms(2) in \<open>simp_all add: acquiring_def\<close>)
qed

lemma put_move_table:
  assumes "put_wf t" "cbv_data (pt_buffer t) = p" "asks_for p (pt_mem t)" "p \<in> table (Some mgr)"
    and "put_move api opts meta chunk (t, mgr, w) = (t', mgr', w')"
  shows "table (Some mgr') = table (Some mgr) \<and> asks_for p (pt_mem t') \<and> cbv_data (pt_buffer t') = p"
proof -
  have buf: "pt_buffer t' = pt_buffer t"
    using assms(5) by (auto simp: put_move_def end_try_def Let_def split: put_phase.splits prod.splits if_splits)
  have "table (Some mgr') = table (Some mgr) \<and> asks_for p (pt_mem t')"
  proof (cases "pt_phase t")
    case TryToken
    then have "acquiring (pt_mem t)" using assms(1) by (simp add: put_wf_def)
    then show ?thesis
      using TryToken assms(3-5) asks_move [of p "pt_mem t" mgr api w]
      by (auto simp: put_move_def split: if_splits prod.splits)
  next
    case TryEnd
    obtain m mgr1 w1 where m: "memory_move api (enter_memory MemDrop (pt_mem t), mgr, w) = (m, mgr1, w1)" by (metis prod.collapse)
    have "mt_phase (enter_memory MemDrop (pt_mem t)) = DropToken" "asks_for p (enter_memory MemDrop (pt_mem t))"
      by (simp_all add: enter_memory_def asks_for_def)
    then have "table (Some mgr1) = table (Some mgr) \<and> asks_for p m" using asks_move [OF _ _ assms(4) m] by blast
    then show ?thesis using TryEnd assms(5) m by (auto simp: put_move_def end_try_def)
  next
    case TryOpen
    have "asks_for p (enter_memory (MemAcquire p n 0) (pt_mem t))" for n
      using assms(3) by (simp add: enter_memory_def asks_for_def leave_memory_def)
    then show ?thesis using TryOpen assms(2,3,5) by (auto simp: put_move_def end_try_def split: prod.splits if_splits)
  qed (use call_stretch [OF assms(5)] assms(3) in auto)
  then show ?thesis using buf assms(2) by simp
qed

section \<open>The workers\<close>

text \<open>What one step has to do with the device, and what it keeps of the worker's PUT.\<close>

definition device_of :: "('s \<Rightarrow> u64 set) \<Rightarrow> 's shared \<Rightarrow> device_state" where
  "device_of live sh = (table (sh_static sh), live (env (sh_world sh)))"

definition device_ok :: "('s \<Rightarrow> u64 set) \<Rightarrow> worker \<times> 's shared \<Rightarrow> worker \<times> 's shared \<Rightarrow> bool" where
  "device_ok live = (\<lambda>(wk, sh) (wk', sh'). device_step (wk, device_of live sh) (wk', device_of live sh') \<and> own_put wk')"

lemmas device_defs = device_of_def device_ok_def own_put_def holds_buffer_def has_registered_def worker_mem_def

lemma idle_asks: "mt_phase m = MemOutside \<Longrightarrow> asks_for p m"
  by (simp add: asks_for_def)

lemma outside_asks: "put_wf t \<Longrightarrow> pt_phase t = PutOutside \<Longrightarrow> asks_for p (pt_mem t)"
  by (simp add: put_wf_def mem_idle_def idle_asks)

lemma device_ok_same:
  assumes "holds_buffer wk' = holds_buffer wk" "has_registered wk' = has_registered wk" "wk_dev wk' = wk_dev wk"
    and "table (sh_static sh') = table (sh_static sh)" "live (env (sh_world sh')) = live (env (sh_world sh))" "own_put wk'"
  shows "device_ok live (wk, sh) (wk', sh')"
  using device_step.nothing [OF assms(1-3), of "device_of live sh"] assms(4-6) by (simp add: device_ok_def device_of_def)

context device_env
begin

lemma setup_device:
  assumes "worker_setup api a c pattern (wk, sh) = Some (wk', sh')" "setting_up (wk_phase wk)" "\<not> ws_ready (wk_stats wk)"
    and wf: "put_wf (wk_put wk)" "pt_phase (wk_put wk) = PutOutside"
  shows "device_ok live (wk, sh) (wk', sh')"
proof -
  have own: "own_put wk'" if "wk_put wk' = wk_put wk" "\<forall>i. wk_phase wk' \<noteq> WarmupRun i \<and> wk_phase wk' \<noteq> PutRun i"
    using that outside_asks [OF wf] by (simp add: own_put_def worker_mem_def)
  consider "wk_phase wk = Begin" | "wk_phase wk = Filling" | "wk_phase wk = Registering" | "wk_phase wk = GivingUp"
    using assms(2,3) by (auto simp: setting_up_def)
  then show ?thesis
  proof cases
    case 1
    obtain e p w where m: "w_malloc api (ba_size a) (sh_world sh) = ((e, p), w)" by (metis prod.collapse)
    show ?thesis
    proof (cases "e = cudaSuccess")
      case True
      then have r: "wk' = wk\<lparr>wk_phase := Filling, wk_dev := p\<rparr>" "sh' = sh\<lparr>sh_world := w\<rparr>"
        using assms(1) 1 m by (simp_all add: worker_setup_def)
      have "device_step (wk, table (sh_static sh), live (env (sh_world sh)))
          (wk', table (sh_static sh), insert (wk_dev wk') (live (env (sh_world sh))))"
        by (rule allocate) (use 1 r m device_calls(2) True in \<open>auto simp: holds_buffer_def has_registered_def\<close>)
      then show ?thesis using r own device_calls(1) [OF m] True by (simp add: device_ok_def device_of_def)
    next
      case False
      then have r: "wk' = wk\<lparr>wk_phase := Ended\<rparr>" "sh' = sh\<lparr>sh_world := w\<rparr>"
        using assms(1) 1 m by (simp_all add: worker_setup_def)
      then show ?thesis
        using 1 own device_calls(1) [OF m] False by (intro device_ok_same) (simp_all add: holds_buffer_def has_registered_def)
    qed
  next
    case 2
    obtain e w where u: "w_upload api (wk_dev wk) pattern (sh_world sh) = (e, w)" by force
    then have r: "wk' = wk\<lparr>wk_phase := (if e \<noteq> cudaSuccess then GivingUp else Registering)\<rparr>" "sh' = sh\<lparr>sh_world := w\<rparr>"
      using assms(1) 2 by (simp_all add: worker_setup_def)
    then show ?thesis
      using 2 own device_calls(3) [OF u] by (intro device_ok_same) (simp_all add: holds_buffer_def has_registered_def)
  next
    case 3
    obtain ok static w where g: "RegisterDeviceBuffer api c (wk_dev wk) (ba_size a) (sh_static sh, sh_world sh) = Some (ok, static, w)"
      using assms(1) 3 by (auto simp: worker_setup_def)
    have lv: "live (env w) = live (env (sh_world sh))" using kept.RegisterDeviceBuffer_I [OF refl g] .
    have r: "sh' = sh\<lparr>sh_static := static, sh_world := w\<rparr>" "wk' = (if \<not> ok then wk\<lparr>wk_phase := GivingUp\<rparr>
        else wk\<lparr>wk_phase := Warmup 0, wk_stats := (wk_stats wk)\<lparr>ws_ready := True\<rparr>\<rparr>)"
      using assms(1) 3 g by (simp_all add: worker_setup_def)
    show ?thesis
    proof (cases ok)
      case True
      have "device_step (wk, table (sh_static sh), live (env (sh_world sh)))
          (wk', insert (wk_dev wk) (table (sh_static sh)), live (env (sh_world sh)))"
        by (rule register) (use 3 r True RegisterDevice_table(2) [OF g] in \<open>auto simp: holds_buffer_def has_registered_def\<close>)
      then show ?thesis using r own True lv RegisterDevice_table(1) [OF g] by (simp add: device_ok_def device_of_def)
    next
      case False
      then show ?thesis
        using 3 r own lv RegisterDevice_table(1) [OF g]
        by (intro device_ok_same) (simp_all add: holds_buffer_def has_registered_def)
    qed
  next
    case 4
    then have r: "wk' = wk\<lparr>wk_phase := Ended\<rparr>" "sh' = sh\<lparr>sh_world := w_dev_free api (wk_dev wk) (sh_world sh)\<rparr>"
      using assms(1) by (simp_all add: worker_setup_def)
    have "device_step (wk, table (sh_static sh), live (env (sh_world sh)))
        (wk', table (sh_static sh), live (env (sh_world sh)) - {wk_dev wk})"
      by (rule release) (use 4 r in \<open>auto simp: holds_buffer_def has_registered_def\<close>)
    then show ?thesis using r own by (simp add: device_ok_def device_of_def device_calls(4))
  qed
qed

lemma teardown_device:
  assumes "worker_teardown api c (wk, sh) = Some (wk', sh')" "wk_phase wk \<in> {Finish, Unregistering, Freeing}"
    and wf: "put_wf (wk_put wk)" "pt_phase (wk_put wk) = PutOutside"
    and "cl_initialized c" "has_registered wk \<Longrightarrow> wk_dev wk \<noteq> 0"
  shows "device_ok live (wk, sh) (wk', sh')"
proof -
  have own: "own_put wk'" if "wk_put wk' = wk_put wk" "\<forall>i. wk_phase wk' \<noteq> WarmupRun i \<and> wk_phase wk' \<noteq> PutRun i"
    using that outside_asks [OF wf] by (simp add: own_put_def worker_mem_def)
  consider "wk_phase wk = Finish" | "wk_phase wk = Unregistering" | "wk_phase wk = Freeing" using assms(2) by blast
  then show ?thesis
  proof cases
    case 1
    obtain t w where n: "w_now api (sh_world sh) = (t, w)" by force
    then have "wk' = wk\<lparr>wk_phase := Unregistering, wk_stats := (wk_stats wk)\<lparr>ws_end := t\<rparr>\<rparr>" "sh' = sh\<lparr>sh_world := w\<rparr>"
      using assms(1) 1 by (simp_all add: worker_teardown_def)
    then show ?thesis
      using 1 own device_calls(5) [OF n] by (intro device_ok_same) (simp_all add: holds_buffer_def has_registered_def)
  next
    case 2
    obtain ok static w where u: "UnregisterDeviceBuffer api c (wk_dev wk) (sh_static sh, sh_world sh) = Some (ok, static, w)"
      using assms(1) 2 by (auto simp: worker_teardown_def)
    have r: "wk' = wk\<lparr>wk_phase := Freeing\<rparr>" "sh' = sh\<lparr>sh_static := static, sh_world := w\<rparr>"
      using assms(1) 2 u by (simp_all add: worker_teardown_def)
    have reg: "has_registered wk" using 2 by (simp add: has_registered_def)
    have lv: "live (env w) = live (env (sh_world sh))" using kept.UnregisterDeviceBuffer_I [OF refl u] .
    have "device_step (wk, table (sh_static sh), live (env (sh_world sh)))
        (wk', table (sh_static sh) - {wk_dev wk}, live (env (sh_world sh)))"
      by (rule unregister) (use 2 r reg in \<open>auto simp: holds_buffer_def has_registered_def\<close>)
    then show ?thesis
      using r own lv UnregisterDevice_table [OF u assms(5) assms(6) [OF reg]] by (simp add: device_ok_def device_of_def)
  next
    case 3
    then have r: "wk' = wk\<lparr>wk_phase := Ended\<rparr>" "sh' = sh\<lparr>sh_world := w_dev_free api (wk_dev wk) (sh_world sh)\<rparr>"
      using assms(1) by (simp_all add: worker_teardown_def)
    have "device_step (wk, table (sh_static sh), live (env (sh_world sh)))
        (wk', table (sh_static sh), live (env (sh_world sh)) - {wk_dev wk})"
      by (rule release) (use 3 r in \<open>auto simp: holds_buffer_def has_registered_def\<close>)
    then show ?thesis using r own by (simp add: device_ok_def device_of_def device_calls(4))
  qed
qed

text \<open>Beginning, a stretch and the end of a PUT.\<close>

lemma begin_device:
  assumes "do_put_begin api a c key (wk, sh) = (wk1, sh')" "put_wf (wk_put wk)" "pt_phase (wk_put wk) = PutOutside"
    and "wk_phase wk = Warmup i \<and> ph = WarmupRun i \<or> wk_phase wk = Putting i \<and> ph = PutRun i"
  shows "device_ok live (wk, sh) (wk1\<lparr>wk_phase := ph\<rparr>, sh')"
proof -
  obtain t0 w where n: "w_now api (sh_world sh) = (t0, w)" by force
  have r: "sh' = sh\<lparr>sh_world := w\<rparr>" "wk_dev wk1 = wk_dev wk" "pt_mem (wk_put wk1) = pt_mem (wk_put wk)"
    "cbv_data (pt_buffer (wk_put wk1)) = wk_dev wk"
    using assms(1) n by (auto simp: do_put_begin_def enter_put_def Let_def)
  then have "own_put (wk1\<lparr>wk_phase := ph\<rparr>)" using outside_asks [OF assms(2,3)] by (simp add: own_put_def worker_mem_def)
  then show ?thesis
    using r assms(4) device_calls(5) [OF n] by (intro device_ok_same) (auto simp: holds_buffer_def has_registered_def)
qed

lemma stretch_device:
  assumes "do_put_move api c (wk, sh) = Some (wk', sh')" "wk_phase wk \<in> {WarmupRun i, PutRun i}"
    and "put_wf (wk_put wk)" "own_put wk" "wk_dev wk \<in> table (sh_static sh)"
  shows "device_ok live (wk, sh) (wk', sh')"
proof -
  obtain t static w where r: "put_step api c (wk_put wk, sh_static sh, sh_world sh) = Some (t, static, w)"
      "wk' = wk\<lparr>wk_put := t\<rparr>" "sh' = sh\<lparr>sh_static := static, sh_world := w\<rparr>"
    using assms(1) by (auto simp: do_put_move_def)
  have own: "asks_for (wk_dev wk) (pt_mem (wk_put wk))" "cbv_data (pt_buffer (wk_put wk)) = wk_dev wk"
    using assms(2,4) by (auto simp: own_put_def worker_mem_def)
  have "live (env w) = live (env (sh_world sh)) \<and> table static = table (sh_static sh) \<and>
      asks_for (wk_dev wk) (pt_mem t) \<and> cbv_data (pt_buffer t) = wk_dev wk"
  proof (cases "pt_phase (wk_put wk) = PutOutside")
    case True
    then show ?thesis using r(1) own by (simp add: put_step_def)
  next
    case False
    then obtain meta chunk mgr where p: "client_parts c (sh_static sh) = Some (meta, chunk, mgr)"
      using r(1) by (auto simp: put_step_def split: option.splits)
    obtain t1 mgr1 w1 where m: "put_move api (cl_options c) meta chunk (wk_put wk, mgr, sh_world sh) = (t1, mgr1, w1)"
      by (metis prod.collapse)
    have s: "sh_static sh = Some mgr" "t = t1" "static = Some mgr1" "w = w1"
      using False p m r(1) client_parts_is [OF p] by (simp_all add: put_step_def)
    have "wk_dev wk \<in> table (Some mgr)" using assms(5) s(1) by simp
    from put_move_table [OF assms(3) own(2,1) this m] kept.put_move_I [OF refl m] show ?thesis by (simp add: s)
  qed
  moreover have "holds_buffer wk' = holds_buffer wk" "has_registered wk' = has_registered wk" by (simp_all add: r(2) holds_buffer_def has_registered_def)
  ultimately show ?thesis by (intro device_ok_same) (simp_all add: r(2,3) own_put_def worker_mem_def)
qed

lemma do_put_device:
  assumes "do_put_step api a c ph (wk, sh) = Some (wk', sh')" "put_wf (wk_put wk)" "own_put wk" "wk_dev wk \<in> table (sh_static sh)"
    and "wk_phase wk = WarmupRun i \<and> ph = Warmup (i + 1) \<or> wk_phase wk = PutRun i \<and> ph = Claim"
  shows "device_ok live (wk, sh) (wk', sh')"
proof (cases "pt_phase (wk_put wk) = PutOutside")
  case True
  obtain t1 w where n: "w_now api (sh_world sh) = (t1, w)" by force
  have r: "wk_put wk' = wk_put wk" "wk_dev wk' = wk_dev wk" "wk_phase wk' = ph" "sh' = sh\<lparr>sh_world := w\<rparr>"
    using assms(1) n True by (auto simp: do_put_step_def do_put_end_def Let_def)
  have "own_put wk'" using assms(5) r outside_asks [OF assms(2) True] by (auto simp: own_put_def worker_mem_def)
  then show ?thesis
    using r assms(5) device_calls(5) [OF n] by (intro device_ok_same) (auto simp: holds_buffer_def has_registered_def)
next
  case False
  then show ?thesis using assms stretch_device [of c wk sh wk' sh' i] by (auto simp: do_put_step_def)
qed

text \<open>One step of a worker, and every schedule.\<close>

lemma arrive_device: "device_of live (barrier_arrive api n sh) = device_of live sh"
  using device_calls(5) [of "sh_world sh"] by (simp add: barrier_arrive_def device_of_def Let_def split: prod.split)

lemma worker_step_device:
  assumes "worker_step api a c pattern n wid (wk, sh) = Some (wk', sh')"
    and "worker_wf wk" "worker_inv a wk" "own_put wk" "cl_initialized c"
    and reg: "has_registered wk \<Longrightarrow> wk_dev wk \<in> table (sh_static sh) \<and> wk_dev wk \<noteq> 0"
  shows "device_ok live (wk, sh) (wk', sh')"
proof -
  have wf: "put_wf (wk_put wk)" using assms(2) by (simp add: worker_wf_def)
  have out: "pt_phase (wk_put wk) = PutOutside" if "\<forall>i. wk_phase wk \<noteq> WarmupRun i \<and> wk_phase wk \<noteq> PutRun i"
    using assms(2) that by (simp add: worker_wf_def)
  have set: "\<not> ws_ready (wk_stats wk)" if "setting_up (wk_phase wk)" using assms(3) that by (auto simp: worker_inv_def)
  have same: "device_ok live (wk, sh) (wk1, sh1)" if "wk_dev wk1 = wk_dev wk" "wk_put wk1 = wk_put wk" "device_of live sh1 = device_of live sh"
      "holds_buffer wk1 = holds_buffer wk" "has_registered wk1 = has_registered wk" "\<forall>i. wk_phase wk \<noteq> WarmupRun i \<and> wk_phase wk \<noteq> PutRun i"
      "\<forall>i. wk_phase wk1 \<noteq> WarmupRun i \<and> wk_phase wk1 \<noteq> PutRun i" for wk1 sh1
    using that outside_asks [OF wf out] by (intro device_ok_same) (simp_all add: own_put_def worker_mem_def device_of_def)
  show ?thesis
  proof (cases "wk_phase wk")
    case (Warmup i)
    show ?thesis
    proof (cases "i < ba_warmup a")
      case True
      obtain wk1 sh1 where b: "do_put_begin api a c (warmup_key a wid i) (wk, sh) = (wk1, sh1)" by force
      have "device_ok live (wk, sh) (wk1\<lparr>wk_phase := WarmupRun i\<rparr>, sh1)"
        using begin_device [OF b wf out, of i "WarmupRun i"] Warmup by simp
      then show ?thesis using True Warmup b assms(1) by (simp add: worker_step_def)
    next
      case False
      then show ?thesis
        using Warmup assms(1) arrive_device [of n sh]
        by (intro same) (auto simp: worker_step_def holds_buffer_def has_registered_def)
    qed
  next
    case (WarmupRun i)
    then show ?thesis
      using assms(1) reg do_put_device [OF _ wf assms(4), of a c "Warmup (i + 1)" sh wk' sh' i]
      by (simp add: worker_step_def has_registered_def)
  next
    case (PutRun i)
    then show ?thesis
      using assms(1) reg do_put_device [OF _ wf assms(4), of a c Claim sh wk' sh' i]
      by (simp add: worker_step_def has_registered_def)
  next
    case (Putting i)
    obtain wk1 sh1 where b: "do_put_begin api a c (object_key_of a i) (wk, sh) = (wk1, sh1)" by force
    have "device_ok live (wk, sh) (wk1\<lparr>wk_phase := PutRun i\<rparr>, sh1)"
      using begin_device [OF b wf out, of i "PutRun i"] Putting by simp
    then show ?thesis using Putting b assms(1) by (simp add: worker_step_def)
  next
    case Waiting
    then show ?thesis
      using assms(1) by (intro same) (auto simp: worker_step_def device_of_def holds_buffer_def has_registered_def split: if_splits)
  next
    case Claim
    then show ?thesis
      using assms(1)
      by (intro same) (auto simp: worker_step_def device_of_def holds_buffer_def has_registered_def Let_def split: if_splits)
  next
    case Ended
    then show ?thesis using assms(1) by (intro same) (auto simp: worker_step_def)
  qed (use assms(1) setup_device [OF _ _ set wf out] teardown_device [OF _ _ wf out assms(5)] reg in
      \<open>simp_all add: worker_step_def setting_up_def\<close>)
qed

lemma sched_device:
  assumes "bench_sched api a c pattern sched (wks, sh) = Some (wks', sh')" "shared_inv c wks sh"
    and "control_inv a (wks, control_of sh)" "unat (ba_count a) + length wks < 2 ^ 64"
    and "list_all own_put wks" "device_inv lv0 (wks, device_of live sh)"
  shows "list_all own_put wks' \<and> device_inv lv0 (wks', device_of live sh')"
  using assms
proof (induction sched arbitrary: wks sh)
  case (Cons wid sched)
  obtain wks1 sh1 where s1: "bench_step api a c pattern wid (wks, sh) = Some (wks1, sh1)"
      "bench_sched api a c pattern sched (wks1, sh1) = Some (wks', sh')"
    using Cons.prems(1) by (auto simp: bind_eq_Some_conv)
  show ?case
  proof (cases "wid < length wks")
    case False
    then show ?thesis using Cons s1 by (simp add: bench_step_def)
  next
    case True
    obtain wk where w: "worker_step api a c pattern (length wks) wid (wks ! wid, sh) = Some (wk, sh1)"
        "wks1 = wks[wid := wk]" using s1(1) True by (auto simp: bench_step_def)
    have w2: "shared_inv c wks1 sh1" "bench_move a (length wks) (wks ! wid, control_of sh) (wk, control_of sh1)"
      using worker_step_control [OF Cons.prems(2) True] w by (metis option.inject prod.inject)+
    have inv1: "control_inv a (wks1, control_of sh1)"
      using control_inv_step [OF control_step.intros [OF True w2(2)] Cons.prems(3,4)] w(2) by simp
    have "worker_wf (wks ! wid)" "cl_initialized c" "worker_inv a (wks ! wid)" "own_put (wks ! wid)"
      using Cons.prems(2,3,5) True by (simp_all add: shared_inv_def control_inv_def control_of_def list_all_length)
    moreover have "wk_dev (wks ! wid) \<in> table (sh_static sh) \<and> wk_dev (wks ! wid) \<noteq> 0" if "has_registered (wks ! wid)"
      using Cons.prems(6) that True by (auto simp: device_inv_def device_of_def)
    ultimately have ok: "device_ok live (wks ! wid, sh) (wk, sh1)" using worker_step_device [OF w(1)] by blast
    then have "device_inv lv0 (wks1, device_of live sh1)"
      using device_inv_step [OF Cons.prems(6) True] w(2) by (simp add: device_ok_def)
    moreover have "list_all own_put wks1" using Cons.prems(5) ok w(2) by (simp add: device_ok_def list_all_swap)
    ultimately show ?thesis using Cons.IH [OF s1(2) w2(1) inv1] Cons.prems(4) w(2) by simp
  qed
qed simp

lemma run_device:
  assumes "bench_sched api a c pattern sched (bench_start a static w) = Some (wks, sh)"
    and "client_inv (c, static, w)" "cl_initialized c" "bench_sane a" "table static = {}"
  shows "list_all own_put wks \<and> device_inv (live (env w)) (wks, device_of live sh)"
proof -
  let ?wks = "replicate (unat (ba_concurrency a)) new_worker"
  let ?sh = "\<lparr>sh_static = static, sh_world = w, sh_next = 0, sh_arrived = 0, sh_start = None\<rparr>"
  have "0 < unat (ba_concurrency a)" using assms(4) by (simp add: bench_sane_def unat_gt_0)
  then have "control_inv a (?wks, control_of ?sh)" using control_inv_start by (simp add: control_of_def)
  moreover have "shared_inv c ?wks ?sh" by (rule shared_inv_start [OF assms(2,3)])
  moreover have new: "own_put new_worker" "\<not> holds_buffer new_worker" "\<not> has_registered new_worker"
    by (simp_all add: own_put_def holds_buffer_def has_registered_def new_worker_def worker_mem_def asks_for_def idle_mem_thread_def)
  then have "list_all own_put ?wks" "device_inv (live (env w)) (?wks, device_of live ?sh)"
    unfolding device_inv_def device_of_def prod.case at_index by (simp_all add: list_all_iff assms(5) nth_replicate filter_replicate)
  ultimately show ?thesis
    using sched_device [of a c pattern sched ?wks ?sh wks sh "live (env w)"] assms(1,4)
    by (simp add: bench_start_def bench_sane_def)
qed

end

section \<open>What the invariant says\<close>

lemma distinct_filter:
  assumes "\<And>i j. i < length xs \<Longrightarrow> j < length xs \<Longrightarrow> i \<noteq> j \<Longrightarrow> P (xs ! i) \<Longrightarrow> P (xs ! j) \<Longrightarrow> f (xs ! i) \<noteq> f (xs ! j)"
  shows "distinct (map f (filter P xs))"
  using assms
proof (induction xs)
  case (Cons x xs)
  have "distinct (map f (filter P xs))"
    by (rule Cons.IH) (use Cons.prems [of "Suc i" "Suc j" for i j] in simp)
  moreover have "f x \<noteq> f y" if "y \<in> set xs" "P x" "P y" for y
    using that Cons.prems [of 0 "Suc i" for i] by (auto simp: in_set_conv_nth)
  ultimately show ?case by auto
qed simp

lemma device_inv_lists:
  assumes "device_inv lv0 (wks, tab, lv)"
  shows "distinct (map wk_dev (filter holds_buffer wks))" "lv = lv0 \<union> set (map wk_dev (filter holds_buffer wks))"
    "lv0 \<inter> set (map wk_dev (filter holds_buffer wks)) = {}" "tab = set (map wk_dev (filter has_registered wks))" "0 \<notin> tab"
proof -
  have inv: "\<And>i j. i < length wks \<Longrightarrow> j < length wks \<Longrightarrow> i \<noteq> j \<Longrightarrow> holds_buffer (wks ! i) \<Longrightarrow> holds_buffer (wks ! j) \<Longrightarrow>
        wk_dev (wks ! i) \<noteq> wk_dev (wks ! j)"
    "\<forall>i<length wks. holds_buffer (wks ! i) \<longrightarrow> wk_dev (wks ! i) \<notin> lv0"
    "lv = lv0 \<union> set (map wk_dev (filter holds_buffer wks))" "tab = set (map wk_dev (filter has_registered wks))" "0 \<notin> tab"
    using assms unfolding device_inv_def prod.case at_index by blast+
  show "distinct (map wk_dev (filter holds_buffer wks))" by (rule distinct_filter) (rule inv(1))
  show "lv0 \<inter> set (map wk_dev (filter holds_buffer wks)) = {}" using inv(2) by (auto simp: in_set_conv_nth)
  show "lv = lv0 \<union> set (map wk_dev (filter holds_buffer wks))" "tab = set (map wk_dev (filter has_registered wks))" "0 \<notin> tab"
    by (fact inv)+
qed

end
