(* ===== verification/Bench_Device_Properties.thy ===== *)
theory Bench_Device_Properties
  imports Bench_Properties Bench_Devices
begin

text \<open>
  The properties of the benchmark's device memory under every schedule, and the machine of the
  witnesses as a device.
\<close>

section \<open>From the command line to the workers\<close>

lemma initialized_table:
  assumes "Client_Initialize api (new_Client opts) (None, \<lparr>env = s, events = []\<rparr>) = (True, c, static, w)"
  shows "table static = {}"
  using assms by (auto simp: Client_Initialize_def new_Client_def Instance_def new_GdsMemoryManager_def table_def Let_def
      split: if_splits prod.splits)

context device_env
begin

lemma initialize_live:
  assumes "Client_Initialize api c (static, w) = (ok, c', static', w')"
  shows "live (env w') = live (env w)"
  using kept.Initialize_I [of w "live (env w)" c static] assms by simp

end

lemma begins_device:
  assumes "device_env api live" "bench_begins api argv s a c st"
    and "bench_sched api a c (bench_pattern a) sched st = Some (wks, sh)"
  shows "list_all own_put wks" "device_inv (live s) (wks, device_of live sh)"
proof -
  obtain static w where i: "bench_sane a" "Client_Initialize api (new_Client (bench_options a)) (None, \<lparr>env = s, events = []\<rparr>) =
      (True, c, static, w)" "st = bench_start a static w" using assms(2) unfolding bench_begins_def by blast
  have "live (env w) = live s" using device_env.initialize_live [OF assms(1) i(2)] by simp
  then show "list_all own_put wks" "device_inv (live s) (wks, device_of live sh)"
    using device_env.run_device [OF assms(1), of a c "bench_pattern a" sched static w wks sh] assms(3) initialized_inv [OF i(2)] initialized_table [OF i(2)] i(1,3)
    by simp_all
qed

text \<open>What the library has registered: what the manager lists and the failed deregistrations.\<close>

lemma shared_library:
  assumes "shared_inv c wks sh"
    and "table (sh_static sh) = set (map wk_dev (filter has_registered wks))"
    and "distinct (map wk_dev (filter holds_buffer wks))"
  shows "library_regs (events (sh_world sh)) =
    mset (map wk_dev (filter has_registered wks)) + stuck (events (sh_world sh))"
proof -
  obtain meta chunk mgr where p: "client_parts c (sh_static sh) = Some (meta, chunk, mgr)"
      "mm_holds (concat (map thread_tokens (map worker_mem wks))) (mgr, sh_world sh)"
    using assms(1) by (auto simp: shared_inv_def memory_inv_def)
  have "filter has_registered (filter holds_buffer wks) = filter has_registered wks"
    by (simp add: filter_filter) (metis (mono_tags, lifting) registered_holds)
  then have "distinct (map wk_dev (filter has_registered wks))"
    using distinct_map_filter [OF assms(3), of has_registered] by simp
  moreover have "distinct (map fst (gm_registered mgr))"
    "set (map fst (gm_registered mgr)) = set (map wk_dev (filter has_registered wks))"
    using p assms(2) client_parts_is [OF p(1)] by (simp_all add: mm_holds_def table_def)
  ultimately have "mset (map fst (gm_registered mgr)) = mset (map wk_dev (filter has_registered wks))"
    by (metis set_eq_iff_mset_eq_distinct)
  then show ?thesis using p(2) library_books by (simp add: mm_holds_def)
qed

lemma ended_books:
  assumes "shared_inv c wks sh" "list_all (\<lambda>wk. wk_phase wk = Ended) wks" "table (sh_static sh) = {}"
  shows "books (events (sh_world sh)) = Some ({#}, {#})"
proof -
  obtain meta chunk mgr where p: "client_parts c (sh_static sh) = Some (meta, chunk, mgr)"
      "mm_holds (concat (map thread_tokens (map worker_mem wks))) (mgr, sh_world sh)" "list_all worker_wf wks"
    using assms(1) by (auto simp: shared_inv_def memory_inv_def)
  have "thread_tokens (worker_mem wk) = []" if "wk \<in> set wks" for wk
    using that assms(2) p(3)
    by (auto simp: list_all_iff worker_wf_def worker_mem_def put_wf_def mem_idle_def thread_tokens_def owned_token_def null_token_def)
  then have "concat (map thread_tokens (map worker_mem wks)) = []" by simp
  moreover have "gm_registered mgr = []" using assms(3) client_parts_is [OF p(1)] by (simp add: table_def)
  ultimately show ?thesis using p(2) by (simp add: mm_holds_def)
qed

section \<open>Properties\<close>

text \<open>
  C10: on a device whose allocator hands out addresses that are not in use, at every moment of
  every schedule, the workers' buffers are distinct and are exactly what is allocated in addition
  to what was before. The vendor's library has registered the buffers of the workers between
  their set-up and their end, each once, and, besides, exactly the buffers whose deregistration
  failed: a buffer that the library has registered and that is not allocated any more is one of
  those. A thread that asks for a token asks for its own buffer, which the library has registered.
  When all have returned, everything is freed, every token was given back, once, every
  registration was followed by one deregistration call, and what is still registered is exactly
  what the library refused to deregister.
\<close>

theorem bench_device_memory:
  assumes "device_env api live" and "bench_begins api argv s a c st"
    and "bench_sched api a c (bench_pattern a) sched st = Some (wks, sh)"
  shows "distinct (map wk_dev (filter holds_buffer wks)) \<and>
    live (env (sh_world sh)) = live s \<union> set (map wk_dev (filter holds_buffer wks)) \<and>
    live s \<inter> set (map wk_dev (filter holds_buffer wks)) = {} \<and>
    library_regs (events (sh_world sh)) =
      mset (map wk_dev (filter has_registered wks)) + stuck (events (sh_world sh)) \<and>
    (\<forall>p. p \<in># library_regs (events (sh_world sh)) \<longrightarrow> p \<in> live (env (sh_world sh)) \<or> p \<in># stuck (events (sh_world sh))) \<and>
    (\<forall>wk\<in>set wks. \<forall>p n off. mt_phase (worker_mem wk) = FetchToken p n off \<longrightarrow>
       p = wk_dev wk \<and> p \<in># library_regs (events (sh_world sh))) \<and>
    (list_all (\<lambda>wk. wk_phase wk = Ended) wks \<longrightarrow>
       live (env (sh_world sh)) = live s \<and> books (events (sh_world sh)) = Some ({#}, {#}) \<and>
       library_regs (events (sh_world sh)) = stuck (events (sh_world sh)))"
proof -
  note inv = begins_device [OF assms]
  note lists = device_inv_lists [OF inv(2) [unfolded device_of_def]]
  obtain wks0 sh0 where r: "bench_sched api a c (bench_pattern a) sched st = Some (wks0, sh0)" "shared_inv c wks0 sh0"
    using bench_begins_run [OF assms(2)] by metis
  then have sh: "shared_inv c wks sh" using assms(3) by simp
  note lib = shared_library [OF sh lists(4,1)]
  have asks: "p = wk_dev wk \<and> p \<in># library_regs (events (sh_world sh))"
    if "wk \<in> set wks" "mt_phase (worker_mem wk) = FetchToken p n off" for wk p n off
  proof -
    have "own_put wk" "worker_wf wk" using inv(1) sh that(1) by (simp_all add: shared_inv_def list_all_iff)
    then have "p = wk_dev wk" "has_registered wk"
      using that(2) by (auto simp: own_put_def asks_for_def has_registered_def worker_wf_def worker_mem_def put_wf_def mem_idle_def)
    then show ?thesis using that(1) unfolding lib by simp
  qed
  have used: "p \<in> live (env (sh_world sh)) \<or> p \<in># stuck (events (sh_world sh))"
    if "p \<in># library_regs (events (sh_world sh))" for p
    using that registered_holds unfolding lib lists(2) by auto
  have ended: "live (env (sh_world sh)) = live s \<and> books (events (sh_world sh)) = Some ({#}, {#}) \<and>
      library_regs (events (sh_world sh)) = stuck (events (sh_world sh))"
    if e: "list_all (\<lambda>wk. wk_phase wk = Ended) wks"
  proof -
    have "filter holds_buffer wks = []" "filter has_registered wks = []"
      using e by (auto simp: list_all_iff filter_empty_conv holds_buffer_def has_registered_def)
    then show ?thesis using lists(2,4) ended_books [OF sh e] lib by simp
  qed
  show ?thesis using lists(1-3) lib used asks ended by blast
qed

text \<open>The machine of the witnesses is such a device.\<close>

interpretation few_device: device_env "few_buffers k" "set \<circ> snd" for k
  by unfold_locales (auto simp: few_buffers_def cudaSuccess_def Let_def split: prod.splits if_splits)

theorem bench_device_memory_witness:
  "\<exists>c st sched wks sh. bench_begins (few_buffers 2) small_bench (0, []) small_args c st \<and>
     bench_sched (few_buffers 2) small_args c (bench_pattern small_args) sched st = Some (wks, sh) \<and>
     snd (env (sh_world sh)) = [] \<and> books (events (sh_world sh)) = Some ({#}, {#})"
proof -
  obtain c st sched wks sh where e: "bench_begins (few_buffers 2) small_bench (0, []) small_args c st"
    "bench_sched (few_buffers 2) small_args c (bench_pattern small_args) sched st = Some (wks, sh)"
    "list_all (\<lambda>wk. wk_phase wk = Ended) wks" "list_ex (\<lambda>wk. ws_ready (wk_stats wk)) wks"
    using small_ends .
  from bench_device_memory [OF few_device.device_env_axioms e(1,2)] e(3)
  have "(set \<circ> snd) (env (sh_world sh)) = (set \<circ> snd) (0 :: nat, [] :: u64 list)" "books (events (sh_world sh)) = Some ({#}, {#})"
    by blast+
  then show ?thesis using e(1,2) by (intro exI conjI) simp_all
qed

end
