(* ===== verification/Bench_System.thy ===== *)
theory Bench_System
  imports Bench_Devices End_To_End
begin

text \<open>
  The benchmark against the whole system: its workers keep whatever every call into their world
  keeps, and a machine whose device behaves gives a system whose device behaves. So the
  invariants of proxy and backend, and those of the device, hold under every schedule of the
  workers and every behaviour of the network.
\<close>

section \<open>Programs with device memory\<close>

text \<open>The contract of \<open>Client_Contract\<close> with the calls a program makes for its buffers.\<close>

locale program_env = client_env +
  assumes malloc_I: "I s \<Longrightarrow> I (snd (ca_malloc api n s))"
    and upload_I: "I s \<Longrightarrow> I (snd (ca_upload api p bytes s))"
    and dev_free_I: "I s \<Longrightarrow> I (ca_dev_free api p s)"
begin

lemma program_calls_I:
  assumes "I (env w)"
  shows "w_malloc api n w = (r, w1) \<Longrightarrow> I (env w1)" "w_upload api p bytes w = (e, w2) \<Longrightarrow> I (env w2)"
    "I (env (w_dev_free api p w))" "w_now api w = (t, w3) \<Longrightarrow> I (env w3)"
  using malloc_I [OF assms, of n] upload_I [OF assms, of p bytes] dev_free_I [OF assms, of p] now_I [OF assms]
  by (auto simp: world_wrappers Let_def split: prod.splits)

lemma do_put_step_I:
  assumes "do_put_step api a c ph (wk, sh) = Some (wk', sh')" "I (env (sh_world sh))"
  shows "I (env (sh_world sh'))"
  using assms program_calls_I(4) [OF assms(2)] put_move_I [OF assms(2)]
  by (auto simp: do_put_step_def do_put_end_def do_put_move_def put_step_def Let_def split: if_splits option.splits prod.splits)

lemma worker_step_I:
  assumes "worker_step api a c pattern n wid (wk, sh) = Some (wk', sh')" "I (env (sh_world sh))"
  shows "I (env (sh_world sh'))"
proof (cases "wk_phase wk")
  case (WarmupRun i)
  then show ?thesis using assms do_put_step_I by (simp add: worker_step_def)
next
  case (PutRun i)
  then show ?thesis using assms do_put_step_I by (simp add: worker_step_def)
next
  case (Warmup i)
  then show ?thesis
    using assms program_calls_I(4) [OF assms(2)]
    by (auto simp: worker_step_def do_put_begin_def barrier_arrive_def Let_def split: if_splits prod.splits)
next
  case (Putting i)
  then show ?thesis
    using assms program_calls_I(4) [OF assms(2)] by (auto simp: worker_step_def do_put_begin_def Let_def split: prod.splits)
next
  case Claim
  then show ?thesis using assms by (auto simp: worker_step_def Let_def split: if_splits)
qed (use assms program_calls_I [OF assms(2)] RegisterDeviceBuffer_I [OF assms(2)] UnregisterDeviceBuffer_I [OF assms(2)] in
    \<open>auto simp: worker_step_def worker_setup_def worker_teardown_def split: if_splits prod.splits\<close>)

lemma bench_sched_I:
  assumes "bench_sched api a c pattern sched (wks, sh) = Some (wks', sh')" "I (env (sh_world sh))"
  shows "I (env (sh_world sh'))"
  using assms
proof (induction sched arbitrary: wks sh)
  case (Cons wid sched)
  obtain wks1 sh1 where s: "bench_step api a c pattern wid (wks, sh) = Some (wks1, sh1)"
      "bench_sched api a c pattern sched (wks1, sh1) = Some (wks', sh')"
    using Cons.prems(1) by (auto simp: bind_eq_Some_conv)
  have "I (env (sh_world sh1))"
    using s(1) Cons.prems(2) worker_step_I by (auto simp: bench_step_def split: if_splits)
  then show ?case using Cons.IH s(2) by blast
qed simp

end

interpretation system_program: program_env "system_api dep" "sys_inv dep m0 crc"
  for dep :: "('c, 's) deployment" and m0 crc
  by unfold_locales simp_all

section \<open>The device of a deployment\<close>

locale deployed_device = machine: device_env "dp_machine dep" live
  for dep :: "('c, 's) deployment" and live :: "'c \<Rightarrow> u64 set" +
  assumes fate_live: "live (snd (dp_fate dep m)) = live m"
    and report_fate_live: "live (snd (dp_report_fate dep m)) = live m"
begin

lemma on_machine_live: "(\<And>m. live (snd (f m)) = live m) \<Longrightarrow> live (sys_client (snd (on_machine f y))) = live (sys_client y)"
  by (simp add: on_machine_def case_prod_unfold Let_def)

lemma net_call_live:
  assumes "\<And>m. live (snd (fate m)) = live m" and "\<And>y. live (sys_client (snd (h y))) = live (sys_client y)"
  shows "live (sys_client (snd (net_call fate h y))) = live (sys_client y)"
proof -
  obtain f m where f: "fate (sys_client y) = (f, m)" by force
  have "live (sys_client (snd (handle_again k h z))) = live (sys_client z)" for k z
    using assms(2) by (induction k arbitrary: z) simp_all
  then have "live (sys_client (snd (deliver f h z))) = live (sys_client z)" for z
    by (cases f) (simp_all add: case_prod_unfold Let_def)
  then show ?thesis using f assms(1) [of "sys_client y"] by (simp add: net_call_def)
qed

lemma h_report_live: "live (sys_client (snd (h_report q y))) = live (sys_client y)"
  by (simp add: h_report_def case_prod_unfold Let_def)

lemma h_put_live: "live (sys_client (snd (h_put dep q y))) = live (sys_client y)"
proof -
  have "live (sys_client (snd (net_call (dp_report_fate dep) (h_report rq) y))) = live (sys_client y)" for rq
    by (rule net_call_live [OF report_fate_live h_report_live])
  then show ?thesis
    using GdsPut_proxy [of "dp_server dep" "\<lambda>ep rq. net_call (dp_report_fate dep) (h_report rq)" "dp_backend dep" q
      "(sys_sink y, sys_server y)" y]
    by (auto simp: h_put_def case_prod_unfold Let_def)
qed

end

sublocale deployed_device \<subseteq> system: device_env "system_api dep" "live \<circ> sys_client"
proof (unfold_locales, goal_cases)
  case (15 n s e p s')
  then show ?case using machine.malloc_live by (auto simp: on_machine_def split: prod.splits)
next
  case (16 n s p s')
  then show ?case using machine.malloc_fresh by (auto simp: on_machine_def split: prod.splits)
qed (simp_all add: on_machine_live net_call_live fate_live h_put_live machine.rng_live machine.jitter_live machine.now_live
    machine.sleep_live machine.memcpy_live machine.new_client_live machine.get_descriptor_live machine.put_descriptor_live
    machine.get_token_live machine.put_token_live machine.upload_live machine.free_live
    h_open_def h_abort_def case_prod_unfold Let_def)

context deployed_device
begin

lemmas device_axioms = system.device_env_axioms

end

lemmas deployed_device_system = deployed_device.device_axioms

end
