(* ===== verification/Example_Bench.thy ===== *)
theory Example_Bench
  imports Bench_System Bench_Device_Properties Example_System
begin

text \<open>
  The benchmark against a deployment of the whole system: what its runs keep, and a concrete
  deployment for the witnesses: the machine with two buffers, the
  server library of \<open>Example_Server\<close>, and the network of \<open>Example_System\<close>. Its workers are set up
  and run to their end.
\<close>

section \<open>The benchmark keeps the system's invariant\<close>

lemma bench_keeps_system:
  assumes "sys_inv d m0 crc y" "bench_begins (system_api d) argv y a c st"
    and "bench_sched (system_api d) a c pattern sched st = Some (wks, sh)"
  shows "sys_inv d m0 crc (env (sh_world sh))"
proof -
  obtain static w where i: "Client_Initialize (system_api d) (new_Client (bench_options a)) (None, \<lparr>env = y, events = []\<rparr>) =
      (True, c, static, w)" "st = bench_start a static w" using assms(2) unfolding bench_begins_def by blast
  have "sys_inv d m0 crc (env w)"
    using whole_system.Initialize_I [of d m0 crc "\<lparr>env = y, events = []\<rparr>"] assms(1) i(1) by (metis snd_conv world.select_convs(1))
  then show ?thesis using system_program.bench_sched_I assms(3) i(2) by (fastforce simp: bench_start_def)
qed

lemma begun_shared:
  assumes "bench_begins api argv s a c st" "bench_sched api a c (bench_pattern a) sched st = Some (wks, sh)"
  shows "shared_inv c wks sh"
proof -
  obtain wks' sh' where "bench_sched api a c (bench_pattern a) sched st = Some (wks', sh')" "shared_inv c wks' sh'"
    using bench_begins_run [OF assms(1)] by metis
  then show ?thesis using assms(2) by simp
qed

section \<open>A deployment\<close>

definition bench_deployment :: "(nat \<times> u64 list, nat) deployment" where
  "bench_deployment =
     \<lparr>dp_machine = few_buffers 2, dp_wall = (\<lambda>c. 0), dp_fate = (\<lambda>c. (Delivered 0 None, c)),
      dp_report_fate = (\<lambda>c. (Delivered 1 None, c)), dp_server = demo_server,
      dp_proxy = \<lparr>ps_gateway_id = ''g'', ps_backend_endpoint = ''b:1''\<rparr>,
      dp_backend = \<lparr>bs_gateway_id = ''g'', proxy_stub = Some ''p:1''\<rparr>\<rparr>"

definition bench_world :: "(nat \<times> u64 list, nat) system" where
  "bench_world = (let (ok, k, w) = Sink_Start demo_server (new_sink ''h'' 1 True, demo_boot)
     in \<lparr>sys_client = (0, []), sys_proxy = new_SessionManager 60, sys_sink = k, sys_server = w\<rparr>)"

lemma bench_world_fresh: "fresh_system bench_deployment 60 True bench_world"
  unfolding fresh_system_def
  by (intro conjI exI [of _ "''h''"] exI [of _ 1] exI [of _ 1])
    (simp_all add: bench_world_def bench_deployment_def demo_boot_def Sink_Start_def Let_def srv_connected_def demo_server_def)

interpretation bench_device: deployed_device bench_deployment "set \<circ> snd"
  by (intro deployed_device.intro deployed_device_axioms.intro)
    (simp_all add: bench_deployment_def few_device.device_env_axioms)

lemma bench_world_starts:
  "ca_channel_init (system_api bench_deployment) ep t = 0" "ca_new_client (system_api bench_deployment) y = (True, y)"
  "ca_is_connected (system_api bench_deployment) y"
  by (simp_all add: system_api_def on_machine_def bench_deployment_def few_buffers_starts Let_def)

lemma bench_world_runs:
  obtains c st sched wks sh where
    "bench_begins (system_api bench_deployment) small_bench bench_world small_args c st"
    "bench_sched (system_api bench_deployment) small_args c (bench_pattern small_args) sched st = Some (wks, sh)"
    "list_all (\<lambda>wk. wk_phase wk = Ended) wks"
proof -
  let ?api = "system_api bench_deployment"
  obtain c static w where b: "bench_begins ?api small_bench bench_world small_args c (bench_start small_args static w)"
    "cl_initialized c" "client_parts c static \<noteq> None" "gm_registered (the static) = []" "env w = bench_world"
    using small_begins [of ?api, OF bench_world_starts] .
  obtain meta chunk mgr where p: "cl_meta c = Some meta" "cl_chunk c = Some chunk" "static = Some mgr" "cl_gds_mgr c"
    using b(3) by (auto simp: client_parts_def split: option.splits if_splits)
  have "unat (ba_concurrency small_args) = 2" by (simp add: small_args_def)
  then have start: "bench_start small_args static w = ([new_worker, new_worker],
      \<lparr>sh_static = Some mgr, sh_world = w, sh_next = 0, sh_arrived = 0, sh_start = None\<rparr>)"
    by (simp add: bench_start_def p(3) numeral_2_eq_2)
  have sz: "ba_size small_args = 1024" by (simp add: small_args_def)
  have y: "sys_client bench_world = (0, [])" by (simp add: bench_world_def case_prod_unfold Let_def)
  have m: "dp_machine bench_deployment = few_buffers 2" by (simp add: bench_deployment_def)
  have "\<exists>wk1 wk2 sh. bench_sched ?api small_args c (bench_pattern small_args) [0, 0, 0, 1, 1, 1]
      (bench_start small_args static w) = Some ([wk1, wk2], sh) \<and> ws_ready (wk_stats wk1) \<and> ws_ready (wk_stats wk2)"
    unfolding start using b(2,4,5) p
    by (simp add: sz y m worker_setup_def w_malloc_def w_upload_def few_buffers_def on_machine_def
        cudaSuccess_def CU_OBJ_SUCCESS_def RegisterDeviceBuffer_def client_parts_def RegisterBuffer_def
        RegisterBufferUnderLock_def w_get_descriptor_def worker_step_def bench_step_def new_worker_def
        new_stats_def Let_def)
  then obtain wk1 wk2 sh where r: "bench_sched ?api small_args c (bench_pattern small_args) [0, 0, 0, 1, 1, 1]
      (bench_start small_args static w) = Some ([wk1, wk2], sh)" "all_set_up [wk1, wk2]" by (auto simp: all_set_up_def)
  have "unat (ba_concurrency small_args) * (41 * unat (ba_warmup small_args) + 46) + 42 * unat (ba_count small_args)
      \<le> length (replicate 594 [0, 1 :: nat])" by (simp add: small_args_def default_args_def)
  moreover have "fair_rounds (length [wk1, wk2]) (replicate 594 [0, 1])" using small_rounds by (simp add: numeral_2_eq_2)
  ultimately show ?thesis using rounds_end [OF b(1) r] that [OF b(1)] by blast
qed

end
