(* ===== verification/Pool_Threads.thy ===== *)
theory Pool_Threads
  imports Buffer_Pool
begin

text \<open>
  The buffer pool under several threads (\<open>backend/src/gds/buffer_pool.cpp\<close>). The methods are cut
  where another thread can come between: at each access to the atomic flag, each critical
  section of a bucket and each call into the server library. A schedule starts methods and lets
  threads run; one event is one such stretch. The lemmas show that a thread that is not
  interrupted does what the sequential definitions of \<open>Buffer_Pool\<close> do.
\<close>

section \<open>Threads\<close>

text \<open>
  Where a thread is in the pool's code. A class index equal to the number of classes stands for
  the oversize path, as in the code. \<open>Disposing\<close> holds the buffers still to be disposed of, and
  \<open>Unregistered\<close> one whose registration is already gone.
\<close>

datatype pool_phase =
    Outside
  | AcquireFlag u64 \<comment> \<open>before \<open>shutdown_.load\<close>\<close>
  | AcquireLock nat \<comment> \<open>before the critical section of a class\<close>
  | AcquireAlloc nat u64 \<comment> \<open>before \<open>allocHostBuffer\<close>\<close>
  | AcquireRegister nat u64 addr \<comment> \<open>before \<open>registerBuffer\<close>\<close>
  | AcquireFree addr \<comment> \<open>before \<open>std::free\<close> after a failed registration\<close>
  | ReleaseFlag CachedBuffer nat
  | ReleaseLock CachedBuffer nat
  | Disposing "CachedBuffer list"
  | Unregistered CachedBuffer "CachedBuffer list"
  | ShutdownFlag \<comment> \<open>before the compare-and-exchange\<close>
  | ShutdownScan nat "CachedBuffer list" \<comment> \<open>next bucket, \<open>to_destroy\<close>\<close>

record pool_thread =
  pt_phase :: pool_phase
  pt_lease :: PinnedBufferLease \<comment> \<open>the lease the thread owns\<close>

datatype pool_method = CallAcquire u64 | CallRelease | CallShutdown

text \<open>
  Entering a method: what it does before its first shared access. A thread acquires into an
  empty lease; releasing is the lease's \<open>Release\<close>.
\<close>

definition enter :: "pool_method \<Rightarrow> PinnedBufferPool \<Rightarrow> pool_thread \<Rightarrow> pool_thread" where
  "enter m p t =
     (case m of
        CallAcquire n \<Rightarrow>
          if le_data (pt_lease t) \<noteq> 0 \<or> n = 0 then t else t\<lparr>pt_phase := AcquireFlag n\<rparr>
      | CallRelease \<Rightarrow>
          (let l = pt_lease t
           in if le_data l = 0 then t
              else t\<lparr>pt_phase := ReleaseFlag \<lparr>cb_data = le_data l, cb_capacity = le_capacity l, cb_mr = le_mr l\<rparr>
                       (le_size_class l), pt_lease := null_lease\<rparr>)
      | CallShutdown \<Rightarrow> t\<lparr>pt_phase := ShutdownFlag\<rparr>)"

type_synonym 's pool_state = "PinnedBufferPool \<times> 's server"

definition class_lease :: "nat \<Rightarrow> u64 \<Rightarrow> addr \<Rightarrow> addr \<Rightarrow> PinnedBufferLease" where
  "class_lease cls cap d m = \<lparr>le_pool = True, le_data = d, le_capacity = cap, le_mr = m, le_size_class = cls\<rparr>"

text \<open>
  One stretch of a thread inside the pool. Before the flag, \<open>Acquire\<close> picks the class and takes
  the oversize path without looking at the flag.
\<close>

definition pool_move ::
  "'s cuobj_api \<Rightarrow> pool_thread \<times> 's pool_state \<Rightarrow> pool_thread \<times> 's pool_state" where
  "pool_move api = (\<lambda>(t, p, w).
     case pt_phase t of
       Outside \<Rightarrow> (t, p, w)
     | AcquireFlag n \<Rightarrow>
         (let idx = PickClass p n
          in if idx = length (size_classes p)
             then (t\<lparr>pt_phase := AcquireAlloc idx n\<rparr>, p\<lparr>oversize_total := oversize_total p + 1\<rparr>, w)
             else if \<not> shut p then (t\<lparr>pt_phase := AcquireLock idx\<rparr>, p, w)
             else (t\<lparr>pt_phase := AcquireAlloc idx (size_classes p ! idx)\<rparr>, p\<lparr>miss_total := miss_total p + 1\<rparr>, w))
     | AcquireLock idx \<Rightarrow>
         (let free_list = buckets p ! idx
          in if free_list \<noteq> [] then
               (let reuse = last free_list
                in (\<lparr>pt_phase = Outside, pt_lease = class_lease idx (cb_capacity reuse) (cb_data reuse) (cb_mr reuse)\<rparr>,
                    p\<lparr>buckets := (buckets p)[idx := butlast free_list], hit_total := hit_total p + 1\<rparr>, w))
             else (t\<lparr>pt_phase := AcquireAlloc idx (size_classes p ! idx)\<rparr>, p\<lparr>miss_total := miss_total p + 1\<rparr>, w))
     | AcquireAlloc idx cap \<Rightarrow>
         (let (data, w1) = srv_alloc api cap w
          in (t\<lparr>pt_phase := (if data = 0 then Outside else AcquireRegister idx cap data)\<rparr>, p, w1))
     | AcquireRegister idx cap data \<Rightarrow>
         (let (mr, w1) = srv_register api data cap w
          in if mr = 0 then (t\<lparr>pt_phase := AcquireFree data\<rparr>, p, w1)
             else (\<lparr>pt_phase = Outside, pt_lease = class_lease idx cap data mr\<rparr>, p, w1))
     | AcquireFree data \<Rightarrow> (t\<lparr>pt_phase := Outside\<rparr>, p, srv_free api data w)
     | ReleaseFlag c cls \<Rightarrow>
         (t\<lparr>pt_phase := (if shut p \<or> length (size_classes p) \<le> cls then Disposing [c] else ReleaseLock c cls)\<rparr>, p, w)
     | ReleaseLock c cls \<Rightarrow>
         if max_per_class p \<le> length (buckets p ! cls) then (t\<lparr>pt_phase := Disposing [c]\<rparr>, p, w)
         else (t\<lparr>pt_phase := Outside\<rparr>, p\<lparr>buckets := (buckets p)[cls := buckets p ! cls @ [c]]\<rparr>, w)
     | Disposing [] \<Rightarrow> (t\<lparr>pt_phase := Outside\<rparr>, p, w)
     | Disposing (c # cs) \<Rightarrow>
         (t\<lparr>pt_phase := Unregistered c cs\<rparr>, p, if cb_mr c \<noteq> 0 then srv_deregister api (cb_mr c) w else w)
     | Unregistered c cs \<Rightarrow>
         (t\<lparr>pt_phase := Disposing cs\<rparr>, p, if cb_data c \<noteq> 0 then srv_free api (cb_data c) w else w)
     | ShutdownFlag \<Rightarrow>
         if shut p then (t\<lparr>pt_phase := Outside\<rparr>, p, w)
         else (t\<lparr>pt_phase := ShutdownScan 0 []\<rparr>, p\<lparr>shut := True\<rparr>, w)
     | ShutdownScan i acc \<Rightarrow>
         if i < length (buckets p)
         then (t\<lparr>pt_phase := ShutdownScan (Suc i) (acc @ buckets p ! i)\<rparr>, p\<lparr>buckets := (buckets p)[i := []]\<rparr>, w)
         else (t\<lparr>pt_phase := Disposing acc\<rparr>, p, w))"

section \<open>Schedules\<close>

datatype pool_event = Call nat pool_method | Run nat

type_synonym 's pool_system = "pool_thread list \<times> 's pool_state"

text \<open>A call reaches a thread that is outside; other calls and unknown threads do nothing.\<close>

fun pool_event_step :: "'s cuobj_api \<Rightarrow> pool_event \<Rightarrow> 's pool_system \<Rightarrow> 's pool_system" where
  "pool_event_step api (Call i m) (ts, p, w) =
     (if i < length ts \<and> pt_phase (ts ! i) = Outside then (ts[i := enter m p (ts ! i)], p, w) else (ts, p, w))"
| "pool_event_step api (Run i) (ts, p, w) =
     (if i < length ts
      then (let (t, p', w') = pool_move api (ts ! i, p, w) in (ts[i := t], p', w')) else (ts, p, w))"

definition pool_sched :: "'s cuobj_api \<Rightarrow> pool_event list \<Rightarrow> 's pool_system \<Rightarrow> 's pool_system" where
  "pool_sched api evs st = fold (pool_event_step api) evs st"

definition idle_thread :: pool_thread where
  "idle_thread = \<lparr>pt_phase = Outside, pt_lease = null_lease\<rparr>"

section \<open>A thread alone\<close>

lemma pool_sched_simps [simp]:
  "pool_sched api [] st = st" "pool_sched api (e # es) st = pool_sched api es (pool_event_step api e st)"
  "pool_sched api (xs @ ys) st = pool_sched api ys (pool_sched api xs st)"
  by (simp_all add: pool_sched_def)

text \<open>\<open>k\<close> stretches of one thread.\<close>

definition alone :: "'s cuobj_api \<Rightarrow> nat \<Rightarrow> pool_thread \<times> 's pool_state \<Rightarrow> pool_thread \<times> 's pool_state" where
  "alone api k = (pool_move api ^^ k)"

lemma alone_simps [simp]:
  "alone api 0 st = st" "alone api (Suc k) st = alone api k (pool_move api st)"
  by (simp_all add: alone_def funpow_Suc_right del: funpow.simps)

lemma alone_add: "alone api (j + k) st = alone api k (alone api j st)"
  by (simp add: alone_def funpow_add add.commute [of j k])

lemma alone_outside: "pt_phase t = Outside \<Longrightarrow> alone api k (t, p, w) = (t, p, w)"
  by (induction k) (simp_all add: pool_move_def)

lemma alone_sched:
  "i < length ts \<Longrightarrow> pool_sched api (replicate k (Run i)) (ts, p, w) =
     (let (t, p', w') = alone api k (ts ! i, p, w) in (ts[i := t], p', w'))"
  by (induction k arbitrary: ts p w) (auto simp: Let_def split: prod.splits)

lemma alone_Disposing:
  "alone api (2 * length cs + 1) (t\<lparr>pt_phase := Disposing cs\<rparr>, p, w) =
     (t\<lparr>pt_phase := Outside\<rparr>, p, fold (Dispose api) cs w)"
  by (induction cs arbitrary: w) (simp_all add: pool_move_def Dispose_def Let_def)

text \<open>The stretches one by one, for a thread in the given phase.\<close>

lemma move_outside: "pt_phase t = Outside \<Longrightarrow> pool_move api (t, p, w) = (t, p, w)"
  by (simp add: pool_move_def)

lemma move_acquire_flag:
  "pool_move api (t\<lparr>pt_phase := AcquireFlag n\<rparr>, p, w) =
     (if PickClass p n = length (size_classes p)
      then (t\<lparr>pt_phase := AcquireAlloc (PickClass p n) n\<rparr>, p\<lparr>oversize_total := oversize_total p + 1\<rparr>, w)
      else if shut p then (t\<lparr>pt_phase := AcquireAlloc (PickClass p n) (size_classes p ! PickClass p n)\<rparr>,
        p\<lparr>miss_total := miss_total p + 1\<rparr>, w)
      else (t\<lparr>pt_phase := AcquireLock (PickClass p n)\<rparr>, p, w))"
  by (simp add: pool_move_def Let_def)

lemma move_acquire_lock:
  "pool_move api (t\<lparr>pt_phase := AcquireLock i\<rparr>, p, w) =
     (if buckets p ! i = [] then (t\<lparr>pt_phase := AcquireAlloc i (size_classes p ! i)\<rparr>,
        p\<lparr>miss_total := miss_total p + 1\<rparr>, w)
      else (\<lparr>pt_phase = Outside, pt_lease = class_lease i (cb_capacity (last (buckets p ! i)))
          (cb_data (last (buckets p ! i))) (cb_mr (last (buckets p ! i)))\<rparr>,
        p\<lparr>buckets := (buckets p)[i := butlast (buckets p ! i)], hit_total := hit_total p + 1\<rparr>, w))"
  by (simp add: pool_move_def Let_def)

lemma move_acquire_alloc:
  "pool_move api (t\<lparr>pt_phase := AcquireAlloc i cap\<rparr>, p, w) =
     (t\<lparr>pt_phase := (if fst (srv_alloc api cap w) = 0 then Outside
        else AcquireRegister i cap (fst (srv_alloc api cap w)))\<rparr>, p, snd (srv_alloc api cap w))"
  by (simp add: pool_move_def Let_def split: prod.split)

lemma move_acquire_register:
  "pool_move api (t\<lparr>pt_phase := AcquireRegister i cap d\<rparr>, p, w) =
     (if fst (srv_register api d cap w) = 0
      then (t\<lparr>pt_phase := AcquireFree d\<rparr>, p, snd (srv_register api d cap w))
      else (\<lparr>pt_phase = Outside, pt_lease = class_lease i cap d (fst (srv_register api d cap w))\<rparr>, p,
        snd (srv_register api d cap w)))"
  by (simp add: pool_move_def Let_def split: prod.split)

lemma move_acquire_free:
  "pool_move api (t\<lparr>pt_phase := AcquireFree d\<rparr>, p, w) = (t\<lparr>pt_phase := Outside\<rparr>, p, srv_free api d w)"
  by (simp add: pool_move_def)

lemma move_release_flag:
  "pool_move api (t\<lparr>pt_phase := ReleaseFlag c cls\<rparr>, p, w) =
     (t\<lparr>pt_phase := (if shut p \<or> length (size_classes p) \<le> cls then Disposing [c] else ReleaseLock c cls)\<rparr>, p, w)"
  by (simp add: pool_move_def)

lemma move_release_lock:
  "pool_move api (t\<lparr>pt_phase := ReleaseLock c cls\<rparr>, p, w) =
     (if max_per_class p \<le> length (buckets p ! cls) then (t\<lparr>pt_phase := Disposing [c]\<rparr>, p, w)
      else (t\<lparr>pt_phase := Outside\<rparr>, p\<lparr>buckets := (buckets p)[cls := buckets p ! cls @ [c]]\<rparr>, w))"
  by (simp add: pool_move_def)

lemma move_shutdown:
  "pool_move api (t\<lparr>pt_phase := ShutdownFlag\<rparr>, p, w) =
     (if shut p then (t\<lparr>pt_phase := Outside\<rparr>, p, w)
      else (t\<lparr>pt_phase := ShutdownScan 0 []\<rparr>, p\<lparr>shut := True\<rparr>, w))"
  by (simp add: pool_move_def)

lemmas moves = move_outside move_acquire_flag move_acquire_lock move_acquire_alloc move_acquire_register
  move_acquire_free move_release_flag move_release_lock move_shutdown

text \<open>What each method does when nobody interrupts it: the sequential definitions.\<close>

definition method_alone ::
  "'s cuobj_api \<Rightarrow> nat \<Rightarrow> pool_method \<Rightarrow> pool_thread \<times> 's pool_state \<Rightarrow> pool_thread \<times> 's pool_state" where
  "method_alone api k m = (\<lambda>(t, p, w). alone api k (enter m p t, p, w))"

lemma acquire_alone:
  assumes "pt_phase t = Outside" "pt_lease t = null_lease"
  shows "method_alone api 5 (CallAcquire n) (t, p, w) =
    (t\<lparr>pt_lease := fst (Acquire api n (p, w))\<rparr>, snd (Acquire api n (p, w)))"
proof -
  have t: "t\<lparr>pt_phase := Outside\<rparr> = t" "t\<lparr>pt_lease := null_lease\<rparr> = t"
    using assms by (cases t; simp)+
  have l: "\<lparr>pt_phase = Outside, pt_lease = l\<rparr> = t\<lparr>pt_lease := l\<rparr>" for l
    using assms by (cases t) simp
  have five: "alone api 5 st = pool_move api (pool_move api (pool_move api (pool_move api (pool_move api st))))"
    for st by (simp add: alone_def eval_nat_numeral)
  show ?thesis
  proof (cases "n = 0")
    case True
    then show ?thesis using assms t by (simp add: method_alone_def enter_def Acquire_def five moves)
  next
    case False
    then show ?thesis
      using assms by (simp add: method_alone_def enter_def Acquire_def five moves t l class_lease_def
        Let_def case_prod_unfold if_distrib [of "pool_move api"] cong: if_cong)
  qed
qed

lemma release_alone:
  assumes "pt_phase t = Outside" "le_data (pt_lease t) \<noteq> 0 \<longrightarrow> le_pool (pt_lease t)"
  shows "method_alone api 5 CallRelease (t, p, w) =
    (t\<lparr>pt_lease := fst (Lease_Release api (pt_lease t) (p, w))\<rparr>, snd (Lease_Release api (pt_lease t) (p, w)))"
proof -
  define u where "u = t\<lparr>pt_lease := null_lease\<rparr>"
  define c where "c = \<lparr>cb_data = le_data (pt_lease t), cb_capacity = le_capacity (pt_lease t), cb_mr = le_mr (pt_lease t)\<rparr>"
  have u: "u\<lparr>pt_phase := Outside\<rparr> = u" "pt_phase u = Outside" "t\<lparr>pt_lease := pt_lease t\<rparr> = t"
    using assms by (cases t; simp add: u_def)+
  have go: "alone api 3 (u\<lparr>pt_phase := Disposing [c]\<rparr>, p, w) = (u, p, Dispose api c w)"
    using alone_Disposing [where cs = "[c]" and t = u and api = api and p = p and w = w] u(1) by (simp add: numeral_3_eq_3)
  have five: "alone api 5 st = alone api 3 (pool_move api (pool_move api st))" for st
    by (simp add: alone_def eval_nat_numeral)
  have four: "alone api 3 (pool_move api (u\<lparr>pt_phase := Disposing [c]\<rparr>, p, w)) = (u, p, Dispose api c w)"
  proof -
    have "alone api 3 (pool_move api st) = pool_move api (alone api 3 st)" for st
      by (simp add: alone_def eval_nat_numeral)
    then show ?thesis using go move_outside [OF u(2)] by simp
  qed
  have e: "enter CallRelease p t = (if le_data (pt_lease t) = 0 then t else u\<lparr>pt_phase := ReleaseFlag c (le_size_class (pt_lease t))\<rparr>)"
    by (simp add: enter_def Let_def u_def c_def)
  show ?thesis
  proof (cases "le_data (pt_lease t) = 0")
    case True
    then show ?thesis using assms(1) u(3) by (simp add: method_alone_def e alone_outside Lease_Release_def)
  next
    case False
    have r: "snd (Lease_Release api (pt_lease t) (p, w)) = Pool_Release api (le_data (pt_lease t))
        (le_capacity (pt_lease t)) (le_mr (pt_lease t)) (le_size_class (pt_lease t)) (p, w)"
      "t\<lparr>pt_lease := fst (Lease_Release api (pt_lease t) (p, w))\<rparr> = u"
      using False assms(2) by (simp_all add: Lease_Release_def u_def)
    have stay: "alone api k (u, p', w) = (u, p', w)" for k p' using alone_outside [OF u(2)] .
    show ?thesis
      unfolding r using False
      by (auto simp: method_alone_def e five moves u(1) stay Pool_Release_def c_def [symmetric] Let_def
          four go)
  qed
qed

lemma scan_alone:
  "i + k = length (buckets p) \<Longrightarrow>
   alone api (k + 1) (t\<lparr>pt_phase := ShutdownScan i acc\<rparr>, p, w) =
     (t\<lparr>pt_phase := Disposing (acc @ concat (drop i (buckets p)))\<rparr>,
      p\<lparr>buckets := take i (buckets p) @ replicate k []\<rparr>, w)"
proof (induction k arbitrary: i acc p)
  case 0
  then show ?case by (simp add: pool_move_def)
next
  case (Suc k)
  let ?p = "p\<lparr>buckets := (buckets p)[i := []]\<rparr>"
  have i: "i < length (buckets p)" using Suc.prems by simp
  have "alone api (Suc k + 1) (t\<lparr>pt_phase := ShutdownScan i acc\<rparr>, p, w) =
      alone api (k + 1) (t\<lparr>pt_phase := ShutdownScan (Suc i) (acc @ buckets p ! i)\<rparr>, ?p, w)"
    using i by (simp add: pool_move_def)
  also have "\<dots> = (t\<lparr>pt_phase := Disposing ((acc @ buckets p ! i) @ concat (drop (Suc i) (buckets ?p)))\<rparr>,
      ?p\<lparr>buckets := take (Suc i) (buckets ?p) @ replicate k []\<rparr>, w)"
    using Suc.IH [of "Suc i" ?p "acc @ buckets p ! i"] Suc.prems by simp
  also have "\<dots> = (t\<lparr>pt_phase := Disposing (acc @ concat (drop i (buckets p)))\<rparr>,
      p\<lparr>buckets := take i (buckets p) @ replicate (Suc k) []\<rparr>, w)"
    using i by (simp add: Cons_nth_drop_Suc [symmetric] take_Suc_conv_app_nth)
  finally show ?case .
qed

lemma shutdown_alone:
  assumes "pt_phase t = Outside"
  shows "method_alone api (length (buckets p) + 2 * length (concat (buckets p)) + 3) CallShutdown (t, p, w) =
    (t, Shutdown api (p, w))"
proof -
  let ?bs = "buckets p" and ?p = "p\<lparr>shut := True\<rparr>"
  let ?k = "(length ?bs + 1) + (2 * length (concat ?bs) + 1)"
  have t: "t\<lparr>pt_phase := Outside\<rparr> = t" using assms by (cases t) simp
  have "length ?bs + 2 * length (concat ?bs) + 3 = Suc ?k" by simp
  then have first: "method_alone api (length ?bs + 2 * length (concat ?bs) + 3) CallShutdown (t, p, w) =
      alone api ?k (pool_move api (t\<lparr>pt_phase := ShutdownFlag\<rparr>, p, w))"
    by (simp only: method_alone_def enter_def pool_method.case prod.case alone_simps)
  show ?thesis
  proof (cases "shut p")
    case True
    then show ?thesis unfolding first by (simp add: move_shutdown t alone_outside [OF assms] Shutdown_def)
  next
    case False
    have "alone api ?k (t\<lparr>pt_phase := ShutdownScan 0 []\<rparr>, ?p, w) = alone api (2 * length (concat ?bs) + 1)
        (t\<lparr>pt_phase := Disposing (concat ?bs)\<rparr>, ?p\<lparr>buckets := replicate (length ?bs) []\<rparr>, w)"
      using scan_alone [where i = 0 and k = "length ?bs" and p = ?p and acc = "[]" and api = api and t = t and w = w] by (simp only: alone_add) simp
    also have "\<dots> = (t, p\<lparr>shut := True, buckets := replicate (length ?bs) []\<rparr>, fold (Dispose api) (concat ?bs) w)"
      unfolding alone_Disposing t by simp
    finally show ?thesis using False unfolding first by (simp add: move_shutdown Shutdown_def map_replicate_const)
  qed
qed

end
