(* ===== verification/Pool_Interleaving.thy ===== *)
theory Pool_Interleaving
  imports Pool_Threads Scheduled
begin

text \<open>
  What the threads of the buffer pool keep under every schedule. The invariant says where each
  host buffer and each registration is: in a free list, in a lease, or in the hands of a thread
  inside the pool. The second part follows a shutdown: which schedules empty the free lists for
  good, and which leave a buffer behind.
\<close>

section \<open>Where the buffers are\<close>

fun phase_buffers :: "pool_phase \<Rightarrow> CachedBuffer list" where
  "phase_buffers (ReleaseFlag c cls) = [c]"
| "phase_buffers (ReleaseLock c cls) = [c]"
| "phase_buffers (Disposing cs) = cs"
| "phase_buffers (Unregistered c cs) = cs"
| "phase_buffers (ShutdownScan i acc) = acc"
| "phase_buffers ph = []"

text \<open>Host memory without a registration.\<close>

fun phase_bare :: "pool_phase \<Rightarrow> addr list" where
  "phase_bare (AcquireRegister i cap d) = [d]"
| "phase_bare (AcquireFree d) = [d]"
| "phase_bare (Unregistered c cs) = [cb_data c]"
| "phase_bare ph = []"

definition lease_buffers :: "PinnedBufferLease \<Rightarrow> CachedBuffer list" where
  "lease_buffers l = (if le_data l = 0 then [] else [\<lparr>cb_data = le_data l, cb_capacity = le_capacity l, cb_mr = le_mr l\<rparr>])"

definition thread_hosts :: "pool_thread \<Rightarrow> addr multiset" where
  "thread_hosts t = image_mset cb_data (mset (phase_buffers (pt_phase t)) + mset (lease_buffers (pt_lease t))) +
     mset (phase_bare (pt_phase t))"

definition thread_mrs :: "pool_thread \<Rightarrow> addr multiset" where
  "thread_mrs t = image_mset cb_mr (mset (phase_buffers (pt_phase t)) + mset (lease_buffers (pt_lease t)))"

definition real_buffer :: "CachedBuffer \<Rightarrow> bool" where
  "real_buffer c \<longleftrightarrow> cb_data c \<noteq> 0 \<and> cb_mr c \<noteq> 0"

definition class_ok :: "PinnedBufferPool \<Rightarrow> nat \<Rightarrow> u64 \<Rightarrow> bool" where
  "class_ok p cls cap \<longleftrightarrow> cls \<le> length (size_classes p) \<and> (cls < length (size_classes p) \<longrightarrow> cap = size_classes p ! cls)"

fun phase_wf :: "PinnedBufferPool \<Rightarrow> pool_phase \<Rightarrow> bool" where
  "phase_wf p (AcquireLock i) = (i < length (size_classes p))"
| "phase_wf p (AcquireAlloc i cap) = class_ok p i cap"
| "phase_wf p (AcquireRegister i cap d) = (class_ok p i cap \<and> d \<noteq> 0)"
| "phase_wf p (ReleaseFlag c cls) = (real_buffer c \<and> class_ok p cls (cb_capacity c))"
| "phase_wf p (ReleaseLock c cls) = (real_buffer c \<and> class_ok p cls (cb_capacity c) \<and> cls < length (size_classes p))"
| "phase_wf p (Disposing cs) = list_all real_buffer cs"
| "phase_wf p (Unregistered c cs) = (cb_data c \<noteq> 0 \<and> list_all real_buffer cs)"
| "phase_wf p (ShutdownScan i acc) = list_all real_buffer acc"
| "phase_wf p ph = True"

fun acquiring :: "pool_phase \<Rightarrow> bool" where
  "acquiring (AcquireFlag n) = True"
| "acquiring (AcquireLock i) = True"
| "acquiring (AcquireAlloc i cap) = True"
| "acquiring (AcquireRegister i cap d) = True"
| "acquiring ph = False"

definition thread_wf :: "PinnedBufferPool \<Rightarrow> pool_thread \<Rightarrow> bool" where
  "thread_wf p t \<longleftrightarrow> phase_wf p (pt_phase t) \<and>
     (if le_data (pt_lease t) = 0 then pt_lease t = null_lease
      else lease_wf p (pt_lease t) \<and> \<not> acquiring (pt_phase t))"

definition pool_shape :: "PinnedBufferPool \<Rightarrow> bool" where
  "pool_shape p \<longleftrightarrow> sorted (size_classes p) \<and> length (buckets p) = length (size_classes p) \<and>
     (\<forall>i < length (buckets p). length (buckets p ! i) \<le> max_per_class p \<and>
        list_all (entry_wf (size_classes p ! i)) (buckets p ! i))"

definition books_of :: "u16 multiset \<Rightarrow> addr multiset \<Rightarrow> addr multiset \<Rightarrow> PinnedBufferPool \<Rightarrow> ledger" where
  "books_of ch H M p = \<lparr>hosts = image_mset cb_data (cached p) + H, mrs = image_mset cb_mr (cached p) + M, chans = ch\<rparr>"

definition threads_inv :: "u16 multiset \<Rightarrow> 's pool_system \<Rightarrow> bool" where
  "threads_inv ch = (\<lambda>(ts, p, w). pool_shape p \<and> list_all (thread_wf p) ts \<and>
     ledger_of (srv_calls w) =
       Some (books_of ch (\<Sum>t\<leftarrow>ts. thread_hosts t) (\<Sum>t\<leftarrow>ts. thread_mrs t) p))"

section \<open>One stretch\<close>

text \<open>
  What one stretch of a thread has to establish: the shape of the pool, the class sizes, the
  thread, and the books with whatever the other threads hold.
\<close>

definition move_ok ::
  "u16 multiset \<Rightarrow> pool_thread \<times> 's pool_state \<Rightarrow> pool_thread \<times> 's pool_state \<Rightarrow> bool" where
  "move_ok ch = (\<lambda>(t, p, w) (t', p', w').
     pool_shape p' \<and> size_classes p' = size_classes p \<and> max_per_class p' = max_per_class p \<and> thread_wf p' t' \<and>
     (\<forall>H M. ledger_of (srv_calls w) = Some (books_of ch (H + thread_hosts t) (M + thread_mrs t) p) \<longrightarrow>
        ledger_of (srv_calls w') = Some (books_of ch (H + thread_hosts t') (M + thread_mrs t') p')))"

lemma class_ok_cong: "size_classes q = size_classes p \<Longrightarrow> class_ok q = class_ok p"
  by (intro ext) (simp add: class_ok_def)

lemma phase_wf_cong:
  assumes "size_classes q = size_classes p"
  shows "phase_wf q ph = phase_wf p ph"
  by (cases ph) (simp_all add: assms class_ok_cong [OF assms])

lemma thread_wf_cong:
  assumes "size_classes q = size_classes p"
  shows "thread_wf q = thread_wf p"
  by (rule ext) (simp add: thread_wf_def phase_wf_cong [OF assms] lease_wf_cong [OF assms])

lemma shape_counters [simp]:
  "pool_shape (p\<lparr>oversize_total := a\<rparr>) = pool_shape p" "pool_shape (p\<lparr>miss_total := b\<rparr>) = pool_shape p"
  "pool_shape (p\<lparr>hit_total := c\<rparr>) = pool_shape p" "pool_shape (p\<lparr>shut := d\<rparr>) = pool_shape p"
  by (simp_all add: pool_shape_def)

lemma books_counters [simp]:
  "books_of ch H M (p\<lparr>oversize_total := a\<rparr>) = books_of ch H M p"
  "books_of ch H M (p\<lparr>miss_total := b\<rparr>) = books_of ch H M p"
  "books_of ch H M (p\<lparr>shut := d\<rparr>) = books_of ch H M p"
  by (simp_all add: books_of_def cached_def)

lemma shape_update:
  assumes "pool_shape p" "i < length (buckets p)" "length b \<le> max_per_class p"
    "list_all (entry_wf (size_classes p ! i)) b"
  shows "pool_shape (p\<lparr>buckets := (buckets p)[i := b]\<rparr>)"
  using assms by (auto simp: pool_shape_def nth_list_update)

lemma shape_entries: "pool_shape p \<Longrightarrow> i < length (buckets p) \<Longrightarrow> list_all real_buffer (buckets p ! i)"
  by (auto simp: pool_shape_def list_all_iff entry_wf_def real_buffer_def)

lemma cached_pop:
  assumes "i < length (buckets p)" "buckets p ! i \<noteq> []"
  shows "cached p = add_mset (last (buckets p ! i)) (cached (p\<lparr>buckets := (buckets p)[i := butlast (buckets p ! i)]\<rparr>))"
  using mset_concat_pop [OF assms] by (simp add: cached_def)

lemma cached_push:
  assumes "i < length (buckets p)"
  shows "cached (p\<lparr>buckets := (buckets p)[i := buckets p ! i @ [c]]\<rparr>) = add_mset c (cached p)"
  using mset_concat_push [OF assms] by (simp add: cached_def)

lemma cached_clear:
  assumes "i < length (buckets p)"
  shows "cached p = cached (p\<lparr>buckets := (buckets p)[i := []]\<rparr>) + mset (buckets p ! i)"
  using mset_concat_update [OF assms, of "[]"] by (simp add: cached_def)

lemmas in_hands = thread_hosts_def thread_mrs_def lease_buffers_def

lemma alloc_move:
  assumes "pool_shape p" "thread_wf p (t\<lparr>pt_phase := AcquireAlloc i cap\<rparr>)"
  shows "move_ok ch (t\<lparr>pt_phase := AcquireAlloc i cap\<rparr>, p, w) (pool_move api (t\<lparr>pt_phase := AcquireAlloc i cap\<rparr>, p, w))"
  using assms
  by (cases "srv_alloc api cap w")
     (auto simp: move_acquire_alloc move_ok_def thread_wf_def in_hands srv_alloc_def pool_simps books_of_def Let_def
      split: prod.splits if_splits)

lemma register_move:
  assumes "pool_shape p" "thread_wf p (t\<lparr>pt_phase := AcquireRegister i cap d\<rparr>)"
  shows "move_ok ch (t\<lparr>pt_phase := AcquireRegister i cap d\<rparr>, p, w)
    (pool_move api (t\<lparr>pt_phase := AcquireRegister i cap d\<rparr>, p, w))"
  using assms
  by (cases "srv_register api d cap w")
     (auto simp: move_acquire_register move_ok_def thread_wf_def in_hands srv_register_def pool_simps books_of_def
        class_lease_def lease_wf_def lease_ok_def class_ok_def null_lease_def Let_def split: prod.splits if_splits)

lemma free_move:
  assumes "pool_shape p" "thread_wf p (t\<lparr>pt_phase := AcquireFree d\<rparr>)"
  shows "move_ok ch (t\<lparr>pt_phase := AcquireFree d\<rparr>, p, w) (pool_move api (t\<lparr>pt_phase := AcquireFree d\<rparr>, p, w))"
  using assms
  by (auto simp: move_acquire_free move_ok_def thread_wf_def in_hands srv_free_def pool_simps books_of_def)

lemma flag_move:
  assumes "pool_shape p" "thread_wf p (t\<lparr>pt_phase := AcquireFlag n\<rparr>)"
  shows "move_ok ch (t\<lparr>pt_phase := AcquireFlag n\<rparr>, p, w) (pool_move api (t\<lparr>pt_phase := AcquireFlag n\<rparr>, p, w))"
  using assms PickClass_le [of p n]
  by (auto simp: move_acquire_flag move_ok_def thread_wf_def in_hands class_ok_def split: if_splits)

lemma lock_move:
  assumes "pool_shape p" "thread_wf p (t\<lparr>pt_phase := AcquireLock i\<rparr>)"
  shows "move_ok ch (t\<lparr>pt_phase := AcquireLock i\<rparr>, p, w) (pool_move api (t\<lparr>pt_phase := AcquireLock i\<rparr>, p, w))"
proof (cases "buckets p ! i = []")
  case True
  then show ?thesis
    using assms by (auto simp: move_acquire_lock move_ok_def thread_wf_def in_hands class_ok_def split: if_splits)
next
  case False
  let ?p = "p\<lparr>buckets := (buckets p)[i := butlast (buckets p ! i)]\<rparr>"
  have i: "i < length (size_classes p)" "i < length (buckets p)"
    using assms by (auto simp: thread_wf_def pool_shape_def)
  then have e: "list_all (entry_wf (size_classes p ! i)) (buckets p ! i)" "length (buckets p ! i) \<le> max_per_class p"
    using assms(1) by (auto simp: pool_shape_def)
  then have c: "entry_wf (size_classes p ! i) (last (buckets p ! i))" using False by (simp add: list_all_iff)
  have "list_all (entry_wf (size_classes p ! i)) (butlast (buckets p ! i))"
    using e(1) by (auto simp: list_all_iff dest: in_set_butlastD)
  then have "pool_shape ?p" using shape_update [OF assms(1) i(2)] e(2) by simp
  moreover have "pt_lease t = null_lease" using assms(2) by (auto simp: thread_wf_def split: if_splits)
  ultimately show ?thesis
    using False i c cached_pop [OF i(2) False]
    by (auto simp: move_acquire_lock move_ok_def thread_wf_def in_hands books_of_def class_lease_def lease_wf_def
        lease_ok_def entry_wf_def cached_def pool_shape_def)
qed

lemma release_flag_move:
  assumes "pool_shape p" "thread_wf p (t\<lparr>pt_phase := ReleaseFlag c cls\<rparr>)"
  shows "move_ok ch (t\<lparr>pt_phase := ReleaseFlag c cls\<rparr>, p, w) (pool_move api (t\<lparr>pt_phase := ReleaseFlag c cls\<rparr>, p, w))"
  using assms by (auto simp: move_release_flag move_ok_def thread_wf_def in_hands add_mset_commute split: if_splits)

lemma release_lock_move:
  assumes "pool_shape p" "thread_wf p (t\<lparr>pt_phase := ReleaseLock c cls\<rparr>)"
  shows "move_ok ch (t\<lparr>pt_phase := ReleaseLock c cls\<rparr>, p, w) (pool_move api (t\<lparr>pt_phase := ReleaseLock c cls\<rparr>, p, w))"
proof (cases "max_per_class p \<le> length (buckets p ! cls)")
  case True
  then show ?thesis using assms by (auto simp: move_release_lock move_ok_def thread_wf_def in_hands split: if_splits)
next
  case False
  let ?p = "p\<lparr>buckets := (buckets p)[cls := buckets p ! cls @ [c]]\<rparr>"
  have i: "cls < length (buckets p)" "entry_wf (size_classes p ! cls) c"
    using assms by (auto simp: thread_wf_def pool_shape_def class_ok_def entry_wf_def real_buffer_def)
  have "list_all (entry_wf (size_classes p ! cls)) (buckets p ! cls)" using assms(1) i(1) by (simp add: pool_shape_def)
  then have "pool_shape ?p" using shape_update [OF assms(1) i(1)] i(2) False by simp
  moreover have "thread_wf ?p (t\<lparr>pt_phase := Outside\<rparr>)"
    using assms(2) thread_wf_cong [of ?p p] by (auto simp: thread_wf_def split: if_splits)
  ultimately show ?thesis
    using False cached_push [OF i(1), of c]
    by (auto simp: move_release_lock move_ok_def in_hands books_of_def)
qed

lemma disposing_move:
  assumes "pool_shape p" "thread_wf p (t\<lparr>pt_phase := Disposing cs\<rparr>)"
  shows "move_ok ch (t\<lparr>pt_phase := Disposing cs\<rparr>, p, w) (pool_move api (t\<lparr>pt_phase := Disposing cs\<rparr>, p, w))"
  using assms
  by (cases cs) (auto simp: pool_move_def move_ok_def thread_wf_def in_hands real_buffer_def srv_deregister_def
      pool_simps books_of_def split: if_splits)

lemma unregistered_move:
  assumes "pool_shape p" "thread_wf p (t\<lparr>pt_phase := Unregistered c cs\<rparr>)"
  shows "move_ok ch (t\<lparr>pt_phase := Unregistered c cs\<rparr>, p, w) (pool_move api (t\<lparr>pt_phase := Unregistered c cs\<rparr>, p, w))"
  using assms
  by (auto simp: pool_move_def move_ok_def thread_wf_def in_hands srv_free_def pool_simps books_of_def split: if_splits)

lemma scan_move:
  assumes "pool_shape p" "thread_wf p (t\<lparr>pt_phase := ShutdownScan i acc\<rparr>)"
  shows "move_ok ch (t\<lparr>pt_phase := ShutdownScan i acc\<rparr>, p, w) (pool_move api (t\<lparr>pt_phase := ShutdownScan i acc\<rparr>, p, w))"
proof (cases "i < length (buckets p)")
  case True
  let ?p = "p\<lparr>buckets := (buckets p)[i := []]\<rparr>"
  have "pool_shape ?p" using shape_update [OF assms(1) True] by simp
  moreover have "thread_wf ?p (t\<lparr>pt_phase := ShutdownScan (Suc i) (acc @ buckets p ! i)\<rparr>)"
    using assms(2) thread_wf_cong [of ?p p] shape_entries [OF assms(1) True] by (auto simp: thread_wf_def split: if_splits)
  ultimately show ?thesis
    using True cached_clear [OF True] by (auto simp: pool_move_def move_ok_def in_hands books_of_def ac_simps)
next
  case False
  then show ?thesis
    using assms by (auto simp: pool_move_def move_ok_def thread_wf_def in_hands split: if_splits)
qed

lemma shutdown_move:
  assumes "pool_shape p" "thread_wf p (t\<lparr>pt_phase := ShutdownFlag\<rparr>)"
  shows "move_ok ch (t\<lparr>pt_phase := ShutdownFlag\<rparr>, p, w) (pool_move api (t\<lparr>pt_phase := ShutdownFlag\<rparr>, p, w))"
  using assms by (auto simp: move_shutdown move_ok_def thread_wf_def in_hands split: if_splits)

lemma pool_move_ok:
  assumes "pool_shape p" "thread_wf p t"
  shows "move_ok ch (t, p, w) (pool_move api (t, p, w))"
proof -
  have t: "t = t\<lparr>pt_phase := pt_phase t\<rparr>" by simp
  have "move_ok ch (t\<lparr>pt_phase := ph\<rparr>, p, w) (pool_move api (t\<lparr>pt_phase := ph\<rparr>, p, w))"
    if "thread_wf p (t\<lparr>pt_phase := ph\<rparr>)" for ph
  proof (cases ph)
    case Outside
    then show ?thesis using assms(1) that by (simp add: move_outside move_ok_def)
  qed (use that assms(1) in \<open>simp_all add: flag_move lock_move alloc_move register_move free_move release_flag_move
      release_lock_move disposing_move unregistered_move shutdown_move scan_move\<close>)
  then show ?thesis using assms(2) t by metis
qed

section \<open>Every schedule\<close>

lemma enter_ok:
  assumes "thread_wf p t" "pt_phase t = Outside"
  shows "thread_wf p (enter m p t)" "thread_hosts (enter m p t) = thread_hosts t"
    "thread_mrs (enter m p t) = thread_mrs t"
  using assms
  by (cases m; auto simp: enter_def thread_wf_def in_hands lease_wf_def lease_ok_def real_buffer_def class_ok_def
      null_lease_def Let_def)+

lemma threads_inv_swap:
  assumes "threads_inv ch (ts, p, w)" "i < length ts" "move_ok ch (ts ! i, p, w) (t, p', w')"
  shows "threads_inv ch (ts[i := t], p', w')"
proof -
  define H M where "H = (\<Sum>t\<leftarrow>take i ts. thread_hosts t) + (\<Sum>t\<leftarrow>drop (Suc i) ts. thread_hosts t)"
    and "M = (\<Sum>t\<leftarrow>take i ts. thread_mrs t) + (\<Sum>t\<leftarrow>drop (Suc i) ts. thread_mrs t)"
  note old = sum_list_split(2) [OF assms(2), of thread_hosts, folded H_def]
    sum_list_split(2) [OF assms(2), of thread_mrs, folded M_def]
  note new = sum_list_split(1) [OF assms(2), of thread_hosts, folded H_def]
    sum_list_split(1) [OF assms(2), of thread_mrs, folded M_def]
  have m: "pool_shape p'" "size_classes p' = size_classes p" "thread_wf p' t"
    "ledger_of (srv_calls w') = Some (books_of ch (H + thread_hosts t) (M + thread_mrs t) p')"
    using assms(1,3) old by (auto simp: move_ok_def threads_inv_def)
  have "list_all (thread_wf p') (ts[i := t])"
    using assms(1) m(3) thread_wf_cong [OF m(2)]
    by (auto simp: threads_inv_def list_all_iff dest!: set_update_subset_insert [THEN subsetD])
  then show ?thesis using m new by (simp add: threads_inv_def)
qed

lemma event_inv:
  assumes "threads_inv ch st"
  shows "threads_inv ch (pool_event_step api e st)"
proof -
  obtain ts p w where st: "st = (ts, p, w)" by (metis prod.collapse)
  have wf: "thread_wf p (ts ! i)" "pool_shape p" if "i < length ts" for i
    using assms that by (auto simp: st threads_inv_def list_all_length)
  show ?thesis
  proof (cases e)
    case (Call i m)
    then show ?thesis
      using assms wf enter_ok [of p "ts ! i" m] threads_inv_swap [of ch ts p w i "enter m p (ts ! i)" p w]
      by (auto simp: st move_ok_def)
  next
    case (Run i)
    show ?thesis
    proof (cases "i < length ts")
      case True
      obtain t' p' w' where m: "pool_move api (ts ! i, p, w) = (t', p', w')" by (metis prod.collapse)
      then have "move_ok ch (ts ! i, p, w) (t', p', w')"
        using pool_move_ok [OF wf(2,1) [OF True], of ch w api] by simp
      then show ?thesis using threads_inv_swap assms True m by (simp add: st Run)
    next
      case False
      then show ?thesis using assms by (simp add: st Run)
    qed
  qed
qed

interpretation pool_books: scheduled "pool_event_step api" "\<lambda>e. True" "threads_inv ch"
  for api :: "'s cuobj_api" and ch :: "u16 multiset"
  by unfold_locales (rule event_inv)

lemma sched_inv: "threads_inv ch st \<Longrightarrow> threads_inv ch (pool_sched api evs st)"
  unfolding pool_sched_def by (rule pool_books.run_inv) (simp_all add: list_all_iff)

lemma threads_inv_start:
  assumes "ledger_of (srv_calls w) = Some (empty_ledger\<lparr>chans := ch\<rparr>)"
  shows "threads_inv ch (replicate n idle_thread, new_pool classes mx, w)"
proof -
  have "pool_wf (new_pool classes mx)" "cached (new_pool classes mx) = {#}"
    using new_pool_holds [OF assms, of classes mx] by (auto simp: pool_holds_def pool_wf_def new_pool_def cached_def)
  moreover have "thread_hosts idle_thread = {#}" "thread_mrs idle_thread = {#}" "thread_wf q idle_thread" for q
    by (simp_all add: in_hands idle_thread_def thread_wf_def null_lease_def)
  ultimately show ?thesis
    using assms by (simp add: threads_inv_def pool_shape_def pool_wf_def books_of_def empty_ledger_def list_all_iff
        sum_list_replicate_zero)
qed

text \<open>The class sizes and the limit never change.\<close>

lemma move_static:
  "pool_move api (t, p, w) = (t', p', w') \<Longrightarrow>
   size_classes p' = size_classes p \<and> max_per_class p' = max_per_class p"
  by (auto simp: pool_move_def Let_def split: pool_phase.splits list.splits if_splits prod.splits)

lemma event_static:
  assumes "pool_event_step api e (ts, p, w) = (ts', p', w')"
  shows "size_classes p' = size_classes p \<and> max_per_class p' = max_per_class p \<and> length ts' = length ts"
  using assms by (cases e) (auto split: if_splits prod.splits dest: move_static)

lemma sched_static:
  "pool_sched api evs (ts, p, w) = (ts', p', w') \<Longrightarrow>
   size_classes p' = size_classes p \<and> max_per_class p' = max_per_class p \<and> length ts' = length ts"
proof (induction evs arbitrary: ts p w)
  case (Cons e evs)
  obtain ts1 p1 w1 where e: "pool_event_step api e (ts, p, w) = (ts1, p1, w1)" by (metis prod.collapse)
  then show ?case using Cons event_static [OF e] by simp
qed simp

section \<open>Shutting down\<close>

text \<open>
  A release that has read the flag but not yet taken the lock. Once the flag is set and no
  release is there, the free lists only shrink, and the scan empties them.
\<close>

definition releasing :: "pool_thread \<Rightarrow> bool" where
  "releasing t \<longleftrightarrow> (\<exists>c cls. pt_phase t = ReleaseLock c cls)"

definition scanned :: "PinnedBufferPool \<Rightarrow> pool_thread \<Rightarrow> bool" where
  "scanned p t \<longleftrightarrow> (\<exists>i acc. pt_phase t = ShutdownScan i acc \<and> (\<forall>k<i. k < length (buckets p) \<longrightarrow> buckets p ! k = []))"

definition draining :: "'s pool_system \<Rightarrow> bool" where
  "draining = (\<lambda>(ts, p, w). shut p \<and> list_all (\<lambda>t. \<not> releasing t) ts \<and>
     (concat (buckets p) = [] \<or> list_ex (scanned p) ts))"

text \<open>Free lists that did not grow.\<close>

definition shrunk :: "PinnedBufferPool \<Rightarrow> PinnedBufferPool \<Rightarrow> bool" where
  "shrunk p p' \<longleftrightarrow> length (buckets p') = length (buckets p) \<and>
     (\<forall>k < length (buckets p). buckets p ! k = [] \<longrightarrow> buckets p' ! k = [])"

lemma shrunk_scanned: "shrunk p p' \<Longrightarrow> scanned p t \<Longrightarrow> scanned p' t"
  by (auto simp: shrunk_def scanned_def)

lemma shrunk_empty: "shrunk p p' \<Longrightarrow> concat (buckets p) = [] \<Longrightarrow> concat (buckets p') = []"
  by (auto simp: shrunk_def all_set_conv_all_nth)

lemma enter_not_releasing: "\<not> releasing t \<Longrightarrow> \<not> releasing (enter m p t)"
  by (cases m) (auto simp: enter_def releasing_def Let_def)

lemma scanned_inside: "scanned p t \<Longrightarrow> pt_phase t \<noteq> Outside"
  by (auto simp: scanned_def)

lemma other_bucket: "xs ! k = [] \<Longrightarrow> xs ! i \<noteq> [] \<Longrightarrow> xs[i := y] ! k = []"
  by (metis nth_list_update_neq)

lemma move_drain:
  assumes "shut p" "\<not> releasing t" "pool_move api (t, p, w) = (t', p', w')"
  shows "shut p'" "\<not> releasing t'" "shrunk p p'" "scanned p t \<Longrightarrow> scanned p' t' \<or> concat (buckets p') = []"
proof -
  have "shut p' \<and> \<not> releasing t' \<and> shrunk p p' \<and> (scanned p t \<longrightarrow> scanned p' t' \<or> concat (buckets p') = [])"
  proof (cases "pt_phase t")
    case (ShutdownScan i acc)
    then show ?thesis
      using assms by (auto simp: pool_move_def releasing_def shrunk_def scanned_def nth_list_update less_Suc_eq
          all_set_conv_all_nth split: if_splits)
  next
    case (AcquireLock i)
    then show ?thesis
      using assms by (auto simp: pool_move_def releasing_def shrunk_def scanned_def other_bucket Let_def
          split: if_splits)
  next
    case (Disposing cs)
    then show ?thesis
      using assms by (cases cs) (auto simp: pool_move_def releasing_def shrunk_def scanned_def)
  qed (use assms in \<open>auto simp: pool_move_def releasing_def shrunk_def scanned_def Let_def split: if_splits prod.splits\<close>)
  then show "shut p'" "\<not> releasing t'" "shrunk p p'" "scanned p t \<Longrightarrow> scanned p' t' \<or> concat (buckets p') = []"
    by blast+
qed

lemma list_ex_update:
  assumes "list_ex P xs" "i < length xs" "\<And>x. P x \<Longrightarrow> Q x" "P (xs ! i) \<Longrightarrow> Q x \<or> R"
  shows "list_ex Q (xs[i := x]) \<or> R"
proof -
  obtain j where j: "j < length xs" "P (xs ! j)" using assms(1) by (auto simp: list_ex_length)
  show ?thesis
  proof (cases "j = i")
    case True
    then show ?thesis using assms(2,4) j by (auto simp: list_ex_length)
  next
    case False
    then have "Q (xs[i := x] ! j)" using assms(3) j by simp
    then show ?thesis using j(1) by (auto simp: list_ex_length)
  qed
qed

lemma event_drain:
  assumes "draining st"
  shows "draining (pool_event_step api e st)"
proof -
  obtain ts p w where st: "st = (ts, p, w)" by (metis prod.collapse)
  have d: "shut p" "list_all (\<lambda>t. \<not> releasing t) ts" "concat (buckets p) = [] \<or> list_ex (scanned p) ts"
    using assms by (simp_all only: st draining_def prod.case)
  have keep: "list_all (\<lambda>t. \<not> releasing t) (ts[i := t])" if "\<not> releasing t" for i t
    using d(2) that by (auto simp: list_all_iff dest!: set_update_subset_insert [THEN subsetD])
  show ?thesis
  proof (cases e)
    case (Call i m)
    show ?thesis
    proof (cases "i < length ts \<and> pt_phase (ts ! i) = Outside")
      case True
      then have "\<not> releasing (enter m p (ts ! i))"
        using d(2) enter_not_releasing by (simp add: list_all_length)
      moreover have "concat (buckets p) = [] \<or> list_ex (scanned p) (ts[i := enter m p (ts ! i)])"
        using d(3) list_ex_update [of "scanned p" ts i "scanned p" _ False] True scanned_inside by blast
      ultimately show ?thesis using d(1) keep True by (simp only: st Call pool_event_step.simps if_True draining_def prod.case) simp
    qed (use assms in \<open>auto simp: st Call\<close>)
  next
    case (Run i)
    show ?thesis
    proof (cases "i < length ts")
      case True
      obtain t' p' w' where m: "pool_move api (ts ! i, p, w) = (t', p', w')" by (metis prod.collapse)
      have "\<not> releasing (ts ! i)" using d(2) True by (simp add: list_all_length)
      note mv = move_drain [OF d(1) this m]
      have "concat (buckets p') = [] \<or> list_ex (scanned p') (ts[i := t'])"
        using d(3) shrunk_empty [OF mv(3)] mv(4)
          list_ex_update [of "scanned p" ts i "scanned p'" t' "concat (buckets p') = []"] True shrunk_scanned [OF mv(3)]
        by blast
      then show ?thesis using mv(1,2) keep True m by (simp only: st Run pool_event_step.simps if_True draining_def prod.case Let_def) simp
    qed (use assms in \<open>simp add: st Run\<close>)
  qed
qed

interpretation pool_drains: scheduled "pool_event_step api" "\<lambda>e. True" draining
  for api :: "'s cuobj_api"
  by unfold_locales (rule event_drain)

lemma sched_drain: "draining st \<Longrightarrow> draining (pool_sched api evs st)"
  unfolding pool_sched_def by (rule pool_drains.run_inv) (simp_all add: list_all_iff)

lemma drained_empty:
  assumes "draining (ts, p, w)" "list_all (\<lambda>t. pt_phase t = Outside) ts"
  shows "cached p = {#}"
  using assms scanned_inside by (fastforce simp: draining_def cached_def list_ex_iff list_all_iff)

section \<open>Buffers left behind\<close>

text \<open>
  Once the flag is set, and nobody is about to take a buffer from a free list, no schedule takes
  a buffer out of the free lists any more.
\<close>

definition reusing :: "pool_thread \<Rightarrow> bool" where
  "reusing t \<longleftrightarrow> (case pt_phase t of AcquireLock i \<Rightarrow> True | ShutdownScan i acc \<Rightarrow> True | _ \<Rightarrow> False)"

definition abandoned :: "u16 multiset \<Rightarrow> CachedBuffer multiset \<Rightarrow> 's pool_system \<Rightarrow> bool" where
  "abandoned ch cs st \<longleftrightarrow> threads_inv ch st \<and>
     (case st of (ts, p, w) \<Rightarrow> shut p \<and> list_all (\<lambda>t. \<not> reusing t) ts \<and> cs \<subseteq># cached p)"

lemma move_abandoned:
  assumes "pool_shape p" "shut p" "\<not> reusing t" "phase_wf p (pt_phase t)" "pool_move api (t, p, w) = (t', p', w')"
  shows "shut p' \<and> \<not> reusing t' \<and> cached p \<subseteq># cached p'"
proof (cases "pt_phase t")
  case (ReleaseLock c cls)
  then have "cls < length (buckets p)" using assms(1,4) by (simp add: pool_shape_def)
  then show ?thesis
    using assms ReleaseLock cached_push [of cls p c] by (auto simp: pool_move_def reusing_def split: if_splits)
next
  case (Disposing cs)
  then show ?thesis using assms by (cases cs) (auto simp: pool_move_def reusing_def)
qed (use assms in \<open>auto simp: pool_move_def reusing_def Let_def cached_def split: if_splits prod.splits\<close>)

lemma event_abandoned:
  assumes "abandoned ch cs st"
  shows "abandoned ch cs (pool_event_step api e st)"
proof -
  obtain ts p w where st: "st = (ts, p, w)" by (metis prod.collapse)
  have inv: "threads_inv ch (pool_event_step api e st)" using assms event_inv unfolding abandoned_def by blast
  have a: "pool_shape p" "list_all (thread_wf p) ts" "shut p" "list_all (\<lambda>t. \<not> reusing t) ts" "cs \<subseteq># cached p"
    using assms by (simp_all add: abandoned_def st threads_inv_def)
  have keep: "list_all (\<lambda>t. \<not> reusing t) (ts[i := t])" if "\<not> reusing t" for i t
    using a(4) that by (auto simp: list_all_iff dest!: set_update_subset_insert [THEN subsetD])
  show ?thesis
  proof (cases e)
    case (Call i m)
    have "\<not> reusing (enter m p t)" if "\<not> reusing t" for t
      using that by (cases m) (auto simp: enter_def reusing_def Let_def)
    then show ?thesis
      using inv a keep [of "enter m p (ts ! i)" i] by (auto simp: abandoned_def st Call list_all_length)
  next
    case (Run i)
    show ?thesis
    proof (cases "i < length ts")
      case True
      obtain t' p' w' where m: "pool_move api (ts ! i, p, w) = (t', p', w')" by (metis prod.collapse)
      have "\<not> reusing (ts ! i)" "phase_wf p (pt_phase (ts ! i))"
        using a(2,4) True by (simp_all add: list_all_length thread_wf_def)
      from move_abandoned [OF a(1,3) this m] show ?thesis
        using inv a(5) keep [of t' i] True m by (auto simp: abandoned_def st Run intro: subset_mset.order_trans)
    qed (use assms in \<open>simp add: st Run\<close>)
  qed
qed

interpretation pool_leak: scheduled "pool_event_step api" "\<lambda>e. True" "abandoned ch cs"
  for api :: "'s cuobj_api" and ch :: "u16 multiset" and cs :: "CachedBuffer multiset"
  by unfold_locales (rule event_abandoned)

lemma sched_abandoned: "abandoned ch cs st \<Longrightarrow> abandoned ch cs (pool_sched api evs st)"
  unfolding pool_sched_def by (rule pool_leak.run_inv) (simp_all add: list_all_iff)

end
