(* ===== verification/Pool_Thread_Properties.thy ===== *)
theory Pool_Thread_Properties
  imports Pool_Interleaving Example_Server
begin

text \<open>
  The properties of the buffer pool under several threads: the sequential definitions are what an
  uninterrupted thread does, no schedule loses or doubly frees a buffer, and what becomes of the
  free lists at a shutdown.
\<close>

text \<open>
  C19: a thread that is not interrupted does, in its stretches, what the sequential definitions
  of \<open>Acquire\<close>, \<open>Release\<close> and \<open>Shutdown\<close> do: the same lease, the same pool and the same calls to
  the server library.
\<close>

theorem pool_methods_alone:
  "method_alone api 5 (CallAcquire n) (idle_thread, p, w) =
     (idle_thread\<lparr>pt_lease := fst (Acquire api n (p, w))\<rparr>, snd (Acquire api n (p, w))) \<and>
   method_alone api 5 CallRelease (idle_thread\<lparr>pt_lease := lease_of cap cls b\<rparr>, p, w) =
     (idle_thread\<lparr>pt_lease := fst (Lease_Release api (lease_of cap cls b) (p, w))\<rparr>,
      snd (Lease_Release api (lease_of cap cls b) (p, w))) \<and>
   method_alone api (length (buckets p) + 2 * length (concat (buckets p)) + 3) CallShutdown (idle_thread, p, w) =
     (idle_thread, Shutdown api (p, w))"
proof -
  have "method_alone api 5 CallRelease (idle_thread\<lparr>pt_lease := lease_of cap cls b\<rparr>, p, w) =
     (idle_thread\<lparr>pt_lease := lease_of cap cls b, pt_lease := fst (Lease_Release api (lease_of cap cls b) (p, w))\<rparr>,
      snd (Lease_Release api (lease_of cap cls b) (p, w)))"
    by (subst release_alone) (simp_all add: idle_thread_def lease_of_def)
  moreover have "method_alone api 5 (CallAcquire n) (idle_thread, p, w) =
     (idle_thread\<lparr>pt_lease := fst (Acquire api n (p, w))\<rparr>, snd (Acquire api n (p, w)))"
    by (rule acquire_alone) (simp_all add: idle_thread_def)
  moreover have "method_alone api (length (buckets p) + 2 * length (concat (buckets p)) + 3) CallShutdown (idle_thread, p, w) =
     (idle_thread, Shutdown api (p, w))"
    by (rule shutdown_alone) (simp add: idle_thread_def)
  ultimately show ?thesis by simp
qed

definition pool_boot :: "nat \<Rightarrow> u64 list \<Rightarrow> nat \<Rightarrow> 's \<Rightarrow> 's pool_system" where
  "pool_boot n classes mx s = (replicate n idle_thread, new_pool classes mx, \<lparr>srv_state = s, srv_calls = []\<rparr>)"

lemma boot_inv: "threads_inv {#} (pool_boot n classes mx s)"
  unfolding pool_boot_def by (rule threads_inv_start) (simp add: pool_simps empty_ledger_def)

text \<open>
  C11: under every schedule of any number of threads, every host buffer and every registration in
  use is in exactly one place, a free list, a lease or the hands of one thread, and none is
  released twice; no free list ever exceeds the limit, and every lease has the capacity of its class.
\<close>

theorem pool_threads_account:
  "case pool_sched api evs (pool_boot n classes mx s) of (ts, p, w) \<Rightarrow>
     ledger_of (srv_calls w) =
       Some \<lparr>hosts = image_mset cb_data (cached p) + (\<Sum>t\<leftarrow>ts. thread_hosts t),
             mrs = image_mset cb_mr (cached p) + (\<Sum>t\<leftarrow>ts. thread_mrs t), chans = {#}\<rparr> \<and>
     list_all (\<lambda>b. length b \<le> mx) (buckets p) \<and>
     list_all (\<lambda>t. le_data (pt_lease t) = 0 \<or> lease_wf p (pt_lease t)) ts"
proof -
  obtain ts p w where r: "pool_sched api evs (pool_boot n classes mx s) = (ts, p, w)" by (metis prod.collapse)
  have inv: "threads_inv {#} (ts, p, w)" using sched_inv [OF boot_inv] r by metis
  have "max_per_class p = mx" using sched_static r by (fastforce simp: pool_boot_def new_pool_def)
  then show ?thesis
    using inv unfolding r prod.case
    by (auto simp: threads_inv_def books_of_def pool_shape_def thread_wf_def list_all_iff all_set_conv_all_nth split: if_splits)
qed

text \<open>
  C13: when the first \<open>Shutdown\<close> sets the flag while no release is between its look at the flag
  and its critical section, then under every later schedule, whenever all threads are outside the
  pool, the free lists are empty and the only buffers and registrations in use are those leased.
\<close>

theorem pool_shutdown_drains:
  assumes "pool_sched api evs (pool_boot n classes mx s) = (ts, p, w)"
    and "i < length ts" "pt_phase (ts ! i) = ShutdownFlag" "\<not> shut p" "list_all (\<lambda>t. \<not> releasing t) ts"
    and "pool_sched api (Run i # later) (ts, p, w) = (ts', p', w')"
    and "list_all (\<lambda>t. pt_phase t = Outside) ts'"
  shows "cached p' = {#} \<and> ledger_of (srv_calls w') =
    Some \<lparr>hosts = image_mset cb_data (mset (concat (map (\<lambda>t. lease_buffers (pt_lease t)) ts'))),
          mrs = image_mset cb_mr (mset (concat (map (\<lambda>t. lease_buffers (pt_lease t)) ts'))), chans = {#}\<rparr>"
proof -
  let ?st = "(ts[i := (ts ! i)\<lparr>pt_phase := ShutdownScan 0 []\<rparr>], p\<lparr>shut := True\<rparr>, w)"
  have first: "pool_event_step api (Run i) (ts, p, w) = ?st"
    using assms(2,3,4) by (simp add: pool_move_def)
  have "scanned (p\<lparr>shut := True\<rparr>) ((ts ! i)\<lparr>pt_phase := ShutdownScan 0 []\<rparr>)"
    "\<not> releasing ((ts ! i)\<lparr>pt_phase := ShutdownScan 0 []\<rparr>)"
    by (simp_all add: scanned_def releasing_def)
  then have "draining ?st"
    using assms(2,5) by (auto simp: draining_def list_all_iff list_ex_iff set_update_memI
        dest!: set_update_subset_insert [THEN subsetD])
  then have "draining (ts', p', w')" using sched_drain assms(6) first by (metis pool_sched_simps(2))
  then have empty: "cached p' = {#}" using drained_empty assms(7) by blast
  have "pool_sched api (evs @ Run i # later) (pool_boot n classes mx s) = (ts', p', w')"
    using assms(1,6) by simp
  then have "threads_inv {#} (ts', p', w')" using sched_inv [OF boot_inv] by metis
  moreover have "(\<Sum>t\<leftarrow>ts'. thread_hosts t) = image_mset cb_data (mset (concat (map (\<lambda>t. lease_buffers (pt_lease t)) ts')))"
    "(\<Sum>t\<leftarrow>ts'. thread_mrs t) = image_mset cb_mr (mset (concat (map (\<lambda>t. lease_buffers (pt_lease t)) ts')))"
    using assms(7) by (induction ts') (simp_all add: thread_hosts_def thread_mrs_def)
  ultimately show ?thesis using empty by (simp add: threads_inv_def books_of_def)
qed

section \<open>Two schedules\<close>

text \<open>A thread acquires a buffer from a new pool.\<close>

definition acquire_first :: "u64 \<Rightarrow> pool_event list" where
  "acquire_first n = Call 0 (CallAcquire n) # replicate 5 (Run 0)"

text \<open>The release and the shutdown one after the other, up to the shutdown's look at the flag.\<close>

definition quiet_shutdown :: "u64 \<Rightarrow> pool_event list" where
  "quiet_shutdown n = acquire_first n @ (Call 0 CallRelease # replicate 5 (Run 0)) @ [Call 1 CallShutdown]"

text \<open>The whole shutdown between the release's look at the flag and its critical section.\<close>

definition racing_shutdown :: "u64 \<Rightarrow> nat \<Rightarrow> pool_event list" where
  "racing_shutdown n k = acquire_first n @ [Call 0 CallRelease, Run 0] @
     (Call 1 CallShutdown # replicate (k + 3) (Run 1)) @ [Run 0]"

lemma alone_run:
  "i < length ts \<Longrightarrow> pt_phase (ts ! i) = Outside \<Longrightarrow>
   pool_sched api (Call i m # replicate k (Run i)) (ts, p, w) =
     (let (t, p', w') = method_alone api k m (ts ! i, p, w) in (ts[i := t], p', w'))"
  by (simp add: alone_sched method_alone_def)

lemma first_acquire:
  assumes "lease_ok (fst (Acquire api n (new_pool classes mx, \<lparr>srv_state = s, srv_calls = []\<rparr>)))"
    and "pick_class (sort classes) n < length classes"
  obtains d m p w where "pool_sched api (acquire_first n) (pool_boot 2 classes mx s) =
      ([idle_thread\<lparr>pt_lease := lease_of (sort classes ! pick_class (sort classes) n) (pick_class (sort classes) n) (d, m)\<rparr>,
        idle_thread], p, w)"
    "d \<noteq> 0" "buckets p = replicate (length classes) []" "size_classes p = sort classes" "\<not> shut p" "max_per_class p = mx"
proof -
  let ?p0 = "new_pool classes mx" and ?w0 = "\<lparr>srv_state = s, srv_calls = []\<rparr>" and ?i = "pick_class (sort classes) n"
  let ?cap = "sort classes ! ?i"
  obtain r w1 where g: "get_fresh api ?cap ?w0 = (r, w1)" by (metis surj_pair)
  have n: "n \<noteq> 0" using assms(1) by (auto simp: Acquire_def lease_ok_def null_lease_def)
  then have "lease_ok (lease_fresh ?cap ?i r)"
    using assms g by (simp add: Acquire_eq PickClass_def new_pool_def Let_def)
  then obtain d m where r: "r = Some (d, m)" "d \<noteq> 0"
    by (cases r) (auto simp: lease_fresh_def lease_ok_def null_lease_def lease_of_def)
  let ?p1 = "?p0\<lparr>miss_total := 1\<rparr>"
  have a: "Acquire api n (?p0, ?w0) = (lease_of ?cap ?i (d, m), ?p1, w1)"
    using n assms(2) g r by (simp add: Acquire_eq PickClass_def new_pool_def Let_def lease_fresh_def)
  have "pool_sched api (acquire_first n) (pool_boot 2 classes mx s) =
      ([idle_thread\<lparr>pt_lease := lease_of ?cap ?i (d, m)\<rparr>, idle_thread], ?p1, w1)"
    unfolding pool_boot_def acquire_first_def
    by (subst alone_run) (simp_all add: idle_thread_def acquire_alone a numeral_2_eq_2 del: pool_sched_simps)
  then show ?thesis using that [OF _ r(2)] by (simp add: new_pool_def)
qed

lemma race:
  assumes "lease_ok (fst (Acquire api n (new_pool classes mx, \<lparr>srv_state = s, srv_calls = []\<rparr>)))"
    and "0 < mx" "pick_class (sort classes) n < length classes"
  obtains ts p w where "pool_sched api (racing_shutdown n (length classes)) (pool_boot 2 classes mx s) = (ts, p, w)"
    "shut p" "list_all (\<lambda>t. t = idle_thread) ts" "cached p \<noteq> {#}"
proof -
  let ?i = "pick_class (sort classes) n"
  let ?cap = "sort classes ! ?i"
  obtain d m p1 w1 where s1: "pool_sched api (acquire_first n) (pool_boot 2 classes mx s) =
      ([idle_thread\<lparr>pt_lease := lease_of ?cap ?i (d, m)\<rparr>, idle_thread], p1, w1)" "d \<noteq> 0"
    and p1: "buckets p1 = replicate (length classes) []" "size_classes p1 = sort classes" "\<not> shut p1" "max_per_class p1 = mx"
    using first_acquire [OF assms(1,3)] .
  define c where "c = \<lparr>cb_data = d, cb_capacity = ?cap, cb_mr = m\<rparr>"
  have s2: "pool_sched api [Call 0 CallRelease, Run 0] ([idle_thread\<lparr>pt_lease := lease_of ?cap ?i (d, m)\<rparr>, idle_thread], p1, w1) =
      ([idle_thread\<lparr>pt_phase := ReleaseLock c ?i\<rparr>, idle_thread], p1, w1)"
    using s1(2) assms(3) p1 by (simp add: idle_thread_def enter_def lease_of_def c_def pool_move_def Let_def)
  have s3: "pool_sched api (Call 1 CallShutdown # replicate (length classes + 3) (Run 1))
      ([idle_thread\<lparr>pt_phase := ReleaseLock c ?i\<rparr>, idle_thread], p1, w1) =
      ([idle_thread\<lparr>pt_phase := ReleaseLock c ?i\<rparr>, idle_thread], Shutdown api (p1, w1))"
    using shutdown_alone [of idle_thread api p1 w1] p1(1)
    by (subst alone_run) (simp_all add: idle_thread_def del: pool_sched_simps)
  have sd: "Shutdown api (p1, w1) = (p1\<lparr>shut := True\<rparr>, w1)" using p1 by (simp add: Shutdown_def)
  have s4: "pool_sched api [Run 0] ([idle_thread\<lparr>pt_phase := ReleaseLock c ?i\<rparr>, idle_thread], p1\<lparr>shut := True\<rparr>, w1) =
      ([idle_thread, idle_thread], p1\<lparr>shut := True, buckets := (buckets p1)[?i := [c]]\<rparr>, w1)"
    using p1 assms(2,3) by (simp add: pool_move_def idle_thread_def)
  have "pool_sched api (racing_shutdown n (length classes)) (pool_boot 2 classes mx s) =
      ([idle_thread, idle_thread], p1\<lparr>shut := True, buckets := (buckets p1)[?i := [c]]\<rparr>, w1)"
    by (simp only: racing_shutdown_def pool_sched_simps(3) s1(1) s2 s3 sd s4)
  moreover have "cached (p1\<lparr>shut := True, buckets := (buckets p1)[?i := [c]]\<rparr>) \<noteq> {#}"
    using cached_push [of ?i p1 c] p1(1) assms(3) by (simp add: cached_def)
  ultimately show ?thesis using that by simp
qed

lemma quiet:
  assumes "lease_ok (fst (Acquire api n (new_pool classes mx, \<lparr>srv_state = s, srv_calls = []\<rparr>)))"
    and "0 < mx" "pick_class (sort classes) n < length classes"
  obtains p w p' w' where
    "pool_sched api (quiet_shutdown n) (pool_boot 2 classes mx s) = ([idle_thread, idle_thread\<lparr>pt_phase := ShutdownFlag\<rparr>], p, w)"
    "\<not> shut p" "cached p \<noteq> {#}"
    "pool_sched api (Run 1 # replicate (length classes + 4) (Run 1)) ([idle_thread, idle_thread\<lparr>pt_phase := ShutdownFlag\<rparr>], p, w) =
      ([idle_thread, idle_thread], p', w')"
proof -
  let ?i = "pick_class (sort classes) n"
  let ?cap = "sort classes ! ?i"
  obtain d m p1 w1 where s1: "pool_sched api (acquire_first n) (pool_boot 2 classes mx s) =
      ([idle_thread\<lparr>pt_lease := lease_of ?cap ?i (d, m)\<rparr>, idle_thread], p1, w1)" "d \<noteq> 0"
    and p1: "buckets p1 = replicate (length classes) []" "size_classes p1 = sort classes" "\<not> shut p1" "max_per_class p1 = mx"
    using first_acquire [OF assms(1,3)] .
  define c where "c = \<lparr>cb_data = d, cb_capacity = ?cap, cb_mr = m\<rparr>"
  define p2 where "p2 = p1\<lparr>buckets := (buckets p1)[?i := [c]]\<rparr>"
  have r: "Lease_Release api (lease_of ?cap ?i (d, m)) (p1, w1) = (null_lease, p2, w1)"
    using s1(2) p1 assms(2,3) by (simp add: Lease_Release_def Pool_Release_def lease_of_def c_def p2_def Let_def)
  have s2: "pool_sched api (Call 0 CallRelease # replicate 5 (Run 0))
      ([idle_thread\<lparr>pt_lease := lease_of ?cap ?i (d, m)\<rparr>, idle_thread], p1, w1) = ([idle_thread, idle_thread], p2, w1)"
    by (subst alone_run, simp_all add: idle_thread_def del: pool_sched_simps, subst release_alone)
       (simp_all add: r, simp add: lease_of_def)
  have s3: "pool_sched api [Call 1 CallShutdown] ([idle_thread, idle_thread], p2, w1) =
      ([idle_thread, idle_thread\<lparr>pt_phase := ShutdownFlag\<rparr>], p2, w1)" by (simp add: idle_thread_def enter_def)
  have run: "pool_sched api (quiet_shutdown n) (pool_boot 2 classes mx s) =
      ([idle_thread, idle_thread\<lparr>pt_phase := ShutdownFlag\<rparr>], p2, w1)"
    by (simp only: quiet_shutdown_def pool_sched_simps(3) s1(1) s2 s3)
  have ca: "cached p2 = {#c#}" using cached_push [of ?i p1 c] p1(1) assms(3) by (simp add: p2_def cached_def)
  then have "length (concat (buckets p2)) = 1" by (metis cached_def size_mset size_single)
  then have k: "length classes + 5 = length (buckets p2) + 2 * length (concat (buckets p2)) + 3"
    using p1(1) by (simp add: p2_def)
  have "pool_sched api (replicate (length classes + 5) (Run 1)) ([idle_thread, idle_thread\<lparr>pt_phase := ShutdownFlag\<rparr>], p2, w1) =
      ([idle_thread, idle_thread], Shutdown api (p2, w1))"
    using shutdown_alone [of idle_thread api p2 w1] unfolding k
    by (subst alone_sched) (simp_all add: method_alone_def enter_def idle_thread_def)
  moreover have "replicate (length classes + 5) (Run 1) = Run 1 # replicate (length classes + 4) (Run 1)" by (simp add: numeral_eq_Suc)
  ultimately show ?thesis
    using that [OF run] ca p1(3) by (cases "Shutdown api (p2, w1)") (simp del: pool_sched_simps add: p2_def)
qed

lemma demo_first:
  "lease_ok (fst (Acquire demo_server 3 (new_pool [4, 16] 8, \<lparr>srv_state = 1, srv_calls = []\<rparr>)))"
  by (simp add: Acquire_def new_pool_def PickClass_def srv_alloc_def srv_register_def lease_ok_def Let_def logged_def)

lemma demo_fits: "pick_class (sort [4, 16]) 3 < length [4, 16 :: u64]" "0 < (8 :: nat)"
  by simp_all

lemma demo_classes: "length [4, 16 :: u64] = 2" "2 + 4 = (6 :: nat)"
  by simp_all

theorem pool_shutdown_drains_witness:
  "\<exists>ts p w p' w'. pool_sched demo_server (quiet_shutdown 3) (pool_boot 2 [4, 16] 8 1) = (ts, p, w) \<and> cached p \<noteq> {#} \<and>
     pool_sched demo_server (Run 1 # replicate 6 (Run 1)) (ts, p, w) = ([idle_thread, idle_thread], p', w') \<and>
     cached p' = {#} \<and> ledger_of (srv_calls w') = Some \<lparr>hosts = {#}, mrs = {#}, chans = {#}\<rparr>"
proof -
  obtain p w p' w' where q: "pool_sched demo_server (quiet_shutdown 3) (pool_boot 2 [4, 16] 8 1) =
      ([idle_thread, idle_thread\<lparr>pt_phase := ShutdownFlag\<rparr>], p, w)" "\<not> shut p" "cached p \<noteq> {#}"
    "pool_sched demo_server (Run 1 # replicate 6 (Run 1)) ([idle_thread, idle_thread\<lparr>pt_phase := ShutdownFlag\<rparr>], p, w) =
      ([idle_thread, idle_thread], p', w')"
    using quiet [OF demo_first demo_fits(2,1), unfolded demo_classes] .
  from pool_shutdown_drains [OF q(1) _ _ q(2) _ q(4)]
  have "cached p' = {#} \<and> ledger_of (srv_calls w') = Some \<lparr>hosts = {#}, mrs = {#}, chans = {#}\<rparr>"
    by (simp add: idle_thread_def releasing_def lease_buffers_def null_lease_def)
  then show ?thesis using q by blast
qed

text \<open>
  C12: the schedule that loses a buffer. A thread releases a buffer and has looked at the flag
  when another one runs the whole of \<open>Shutdown\<close>; the first then puts its buffer into a free list.
  Both threads are done and own no lease, but from then on, whatever is called in whatever order,
  that buffer stays in the free list, allocated and registered.
\<close>

theorem pool_shutdown_race_leaks:
  assumes "lease_ok (fst (Acquire api n (new_pool classes mx, \<lparr>srv_state = s, srv_calls = []\<rparr>)))"
    and "0 < mx" "pick_class (sort classes) n < length classes"
  shows "(case pool_sched api (racing_shutdown n (length classes)) (pool_boot 2 classes mx s) of (ts, p, w) \<Rightarrow>
      shut p \<and> list_all (\<lambda>t. t = idle_thread) ts) \<and>
    (case pool_sched api (racing_shutdown n (length classes) @ later) (pool_boot 2 classes mx s) of (ts, p, w) \<Rightarrow>
      cached p \<noteq> {#})"
proof -
  obtain ts p w where r: "pool_sched api (racing_shutdown n (length classes)) (pool_boot 2 classes mx s) = (ts, p, w)"
    "shut p" "list_all (\<lambda>t. t = idle_thread) ts" "cached p \<noteq> {#}" using race [OF assms] .
  have "threads_inv {#} (ts, p, w)" using sched_inv [OF boot_inv] r(1) by metis
  moreover have "list_all (\<lambda>t. \<not> reusing t) ts"
    using r(3) by (auto simp: list_all_iff reusing_def idle_thread_def)
  ultimately have "abandoned {#} (cached p) (ts, p, w)" using r(2) by (simp add: abandoned_def)
  then have "abandoned {#} (cached p) (pool_sched api later (ts, p, w))" by (rule sched_abandoned)
  then show ?thesis using r by (auto simp: abandoned_def split: prod.splits)
qed

theorem pool_shutdown_race_leaks_witness:
  "case pool_sched demo_server (racing_shutdown 3 2 @ [Call 1 CallShutdown, Run 1]) (pool_boot 2 [4, 16] 8 1) of
     (ts, p, w) \<Rightarrow> cached p \<noteq> {#}"
proof -
  from pool_shutdown_race_leaks [OF demo_first demo_fits(2,1), of "[Call 1 CallShutdown, Run 1]"] show ?thesis
    unfolding demo_classes by (rule conjunct2)
qed

end
