(* ===== verification/Session_Threads.thy ===== *)
theory Session_Threads
  imports Proxy_Service Scheduled
begin

text \<open>
  The three working handlers of the proxy under several threads
  (\<open>proxy/src/service/proxy_control_plane_service.cpp\<close>, \<open>proxy/src/session/session_manager.cpp\<close>),
  cut where another thread can come between: the atomic counter, the clock, the critical
  sections of the table, and the read of the tag through the pointer that \<open>GetCompletedSession\<close>
  returned after it released the lock. The elements of the hash map stay where they are and
  none is ever removed, so a pointer to one is its key. The lemmas show that an uninterrupted
  handler does what the sequential definitions do, and that the pointer never dangles.
\<close>

section \<open>Threads\<close>

datatype handler_phase =
    Free
  | OpenCounter OpenSessionRequest \<comment> \<open>before \<open>seq_.fetch_add\<close>\<close>
  | OpenClock OpenSessionRequest string \<comment> \<open>before \<open>system_clock::now\<close>, with the identifier\<close>
  | OpenStore OpenSessionRequest Session \<comment> \<open>before the critical section\<close>
  | ReportStore ReportGdsPutRequest
  | CompleteFind CompleteUploadRequest
  | CompleteRead string \<comment> \<open>after the lock was released, with the pointer\<close>

datatype proxy_answer =
    OpenAnswer "OpenSessionResponse handled"
  | ReportAnswer "ReportGdsPutResponse handled"
  | CompleteAnswer "CompleteUploadResponse handled"

record handler_thread =
  ht_phase :: handler_phase
  ht_answer :: "proxy_answer option"

datatype proxy_method = MOpen OpenSessionRequest | MReport ReportGdsPutRequest | MComplete CompleteUploadRequest

definition free_thread :: handler_thread where
  "free_thread = \<lparr>ht_phase = Free, ht_answer = None\<rparr>"

text \<open>
  Entering a handler: the checks of \<open>OpenSession\<close>, which touch nothing shared, are made at once,
  and a request that fails one is answered.
\<close>

definition refuse_open :: "int \<Rightarrow> string \<Rightarrow> handler_thread \<Rightarrow> handler_thread" where
  "refuse_open code msg t =
     t\<lparr>ht_phase := Free, ht_answer := Some (OpenAnswer (Inl (SetFailedCode code msg)))\<rparr>"

definition begin_handler :: "proxy_method \<Rightarrow> handler_thread \<Rightarrow> handler_thread" where
  "begin_handler r t =
     (case r of
        MOpen q \<Rightarrow>
          if osq_data_flow q \<noteq> kGdsDataPath then
            refuse_open PROXY_ERR_UNSUPPORTED_PATH
              (''proxy v1 only accepts data_flow=gds-cuobject, got: '' @ c_str (osq_data_flow q)) t
          else if osq_op_type q \<noteq> kOpTypePut then
            refuse_open PROXY_ERR_UNSUPPORTED_PATH
              (''proxy v1 only accepts op_type=PUT, got: '' @ c_str (osq_op_type q)) t
          else if osq_is_multipart_part q then
            refuse_open PROXY_ERR_INVALID_PARAM ''proxy v1 does not support multipart part sessions'' t
          else if osq_bucket q = [] \<or> osq_object_key q = [] then
            refuse_open PROXY_ERR_INVALID_PARAM ''missing bucket or object_key'' t
          else if osq_expected_size q = 0 then
            refuse_open PROXY_ERR_INVALID_PARAM ''expected_size must be > 0 for GDS PUT'' t
          else if osq_session_id q \<noteq> [] then t\<lparr>ht_phase := OpenClock q (osq_session_id q)\<rparr>
          else t\<lparr>ht_phase := OpenCounter q\<rparr>
      | MReport q \<Rightarrow> t\<lparr>ht_phase := ReportStore q\<rparr>
      | MComplete q \<Rightarrow> t\<lparr>ht_phase := CompleteFind q\<rparr>)"

text \<open>
  One stretch of a handler; \<open>now\<close> is the clock, should the stretch read it. The element that
  \<open>find\<close> returns is changed where it is, one field after the other; the pointer that the scan for
  a completed session returns is the key of its element.
\<close>

definition handler_move ::
  "ProxyControlPlaneService \<Rightarrow> int \<Rightarrow> handler_thread \<times> SessionManager \<Rightarrow> handler_thread \<times> SessionManager" where
  "handler_move svc now = (\<lambda>(t, m).
     case ht_phase t of
       Free \<Rightarrow> (t, m)
     | OpenCounter q \<Rightarrow>
         (t\<lparr>ht_phase := OpenClock q (kSessionIdPrefix @ to_string (unat (seq_no m)))\<rparr>, m\<lparr>seq_no := seq_no m + 1\<rparr>)
     | OpenClock q sid \<Rightarrow>
         (t\<lparr>ht_phase := OpenStore q \<lparr>session_id = sid, ticket = ticket_for sid,
              expire_at = expire_at_for now (ttl_sec m), bucket = osq_bucket q, object_key = osq_object_key q,
              expected_size = osq_expected_size q, status = kPending, etag = [], crc32c = 0, bytes_transferred = 0\<rparr>\<rparr>, m)
     | OpenStore q s \<Rightarrow>
         (t\<lparr>ht_phase := Free, ht_answer := Some (OpenAnswer (Inr \<lparr>osr_request_id = osq_request_id q,
              osr_session_id = session_id s, osr_ticket = ticket s, osr_gateway_id = ps_gateway_id svc,
              osr_data_endpoint = ps_backend_endpoint svc, osr_expire_at = expire_at s\<rparr>))\<rparr>,
          m\<lparr>sessions_tab := AList.update (session_id s) s (sessions_tab m)\<rparr>)
     | ReportStore q \<Rightarrow>
         (let it = List.find (\<lambda>e. fst e = rgq_session_id q) (sessions_tab m)
          in if it = None
             then (t\<lparr>ht_phase := Free, ht_answer := Some (ReportAnswer (Inr \<lparr>rgr_accepted = False\<rparr>))\<rparr>, m)
             else (t\<lparr>ht_phase := Free, ht_answer := Some (ReportAnswer (Inr \<lparr>rgr_accepted = True\<rparr>))\<rparr>,
                   m\<lparr>sessions_tab := AList.map_entry (rgq_session_id q)
                        (\<lambda>s. s\<lparr>status := kCompleted\<rparr>\<lparr>etag := rgq_etag q\<rparr>\<lparr>crc32c := rgq_crc32c q\<rparr>
                           \<lparr>bytes_transferred := rgq_bytes_transferred q\<rparr>) (sessions_tab m)\<rparr>))
     | CompleteFind q \<Rightarrow>
         (case List.find (\<lambda>(_, s). ticket s = cuq_upload_id q \<and> status s = kCompleted) (sessions_tab m) of
            None \<Rightarrow> (t\<lparr>ht_phase := Free, ht_answer := Some (CompleteAnswer
                (Inl (SetFailedCode PROXY_ERR_SESSION_NOT_FOUND ''session not found or not yet completed'')))\<rparr>, m)
          | Some (sid, _) \<Rightarrow> (t\<lparr>ht_phase := CompleteRead sid\<rparr>, m))
     | CompleteRead sid \<Rightarrow>
         (case GetSession sid m of
            None \<Rightarrow> (t, m)
          | Some s \<Rightarrow> (t\<lparr>ht_phase := Free, ht_answer := Some (CompleteAnswer
                (Inr (empty_CompleteUploadResponse\<lparr>cur_etag := etag s\<rparr>)))\<rparr>, m)))"

section \<open>Schedules\<close>

datatype proxy_event = Request nat proxy_method | Go nat int

type_synonym proxy_system = "handler_thread list \<times> SessionManager"

fun proxy_event_step :: "ProxyControlPlaneService \<Rightarrow> proxy_event \<Rightarrow> proxy_system \<Rightarrow> proxy_system" where
  "proxy_event_step svc (Request i r) (ts, m) =
     (if i < length ts \<and> ht_phase (ts ! i) = Free then (ts[i := begin_handler r (ts ! i)], m) else (ts, m))"
| "proxy_event_step svc (Go i now) (ts, m) =
     (if i < length ts then (let (t, m') = handler_move svc now (ts ! i, m) in (ts[i := t], m')) else (ts, m))"

definition proxy_sched :: "ProxyControlPlaneService \<Rightarrow> proxy_event list \<Rightarrow> proxy_system \<Rightarrow> proxy_system" where
  "proxy_sched svc evs st = fold (proxy_event_step svc) evs st"

lemma proxy_sched_simps [simp]:
  "proxy_sched svc [] st = st" "proxy_sched svc (e # es) st = proxy_sched svc es (proxy_event_step svc e st)"
  "proxy_sched svc (xs @ ys) st = proxy_sched svc ys (proxy_sched svc xs st)"
  by (simp_all add: proxy_sched_def)

lemma sched_length: "length (fst (proxy_sched svc evs (ts, m))) = length ts"
proof (induction evs arbitrary: ts m)
  case (Cons e evs)
  obtain ts1 m1 where s: "proxy_event_step svc e (ts, m) = (ts1, m1)" by force
  then have "length ts1 = length ts" by (cases e) (auto simp: Let_def split: if_splits prod.splits)
  then show ?case using Cons.IH s by simp
qed simp

section \<open>The stretches and the sequential methods\<close>

text \<open>The two look-ups of the stretches are those of the sequential methods.\<close>

lemma find_key: "List.find (\<lambda>e. fst e = k) al = None \<longleftrightarrow> map_of al k = None"
  by (induction al) auto

lemma map_entry_update:
  "map_of al k = Some v \<Longrightarrow> AList.map_entry k f al = AList.update k (f v) al"
  by (induction al) (auto split: if_splits)

lemma find_pair:
  "find_completed t al = map_option snd (List.find (\<lambda>(_, s). ticket s = t \<and> status s = kCompleted) al)"
  by (induction t al rule: find_completed.induct) auto

lemma move_report:
  assumes "ht_phase t = ReportStore q"
  shows "handler_move svc now (t, m) =
     (let (ok, m') = CompleteSession (rgq_session_id q) (rgq_etag q) (rgq_crc32c q) (rgq_bytes_transferred q) m
      in (t\<lparr>ht_phase := Free, ht_answer := Some (ReportAnswer (Inr \<lparr>rgr_accepted = ok\<rparr>))\<rparr>, m'))"
  using assms
  by (auto simp: handler_move_def CompleteSession_def find_key map_entry_update Let_def split: option.split)

lemma move_find:
  assumes "ht_phase t = CompleteFind q" "sm_inv m"
  shows "handler_move svc now (t, m) =
     (case GetCompletedSession (cuq_upload_id q) m of
        None \<Rightarrow> (t\<lparr>ht_phase := Free, ht_answer := Some (CompleteAnswer
            (Inl (SetFailedCode PROXY_ERR_SESSION_NOT_FOUND ''session not found or not yet completed'')))\<rparr>, m)
      | Some s \<Rightarrow> (t\<lparr>ht_phase := CompleteRead (session_id s)\<rparr>, m))"
proof (cases "List.find (\<lambda>(_, s). ticket s = cuq_upload_id q \<and> status s = kCompleted) (sessions_tab m)")
  case None
  then show ?thesis using assms(1) by (simp add: handler_move_def GetCompletedSession_def find_pair)
next
  case (Some e)
  then have "e \<in> set (sessions_tab m)" by (metis find_Some_iff nth_mem)
  then have "session_id (snd e) = fst e" using sm_inv_entry [OF assms(2), of "fst e" "snd e"] by simp
  then show ?thesis using Some assms(1) by (cases e) (simp add: handler_move_def GetCompletedSession_def find_pair)
qed

lemma begin_open:
  "begin_handler (MOpen q) t =
     (if open_valid q then t\<lparr>ht_phase := if osq_session_id q \<noteq> [] then OpenClock q (osq_session_id q) else OpenCounter q\<rparr>
      else t\<lparr>ht_phase := Free, ht_answer := Some (OpenAnswer (fst (proxy_OpenSession svc now q m)))\<rparr>)"
  by (auto simp: begin_handler_def refuse_open_def open_valid_def proxy_OpenSession_def)

lemma begin_others:
  "begin_handler (MReport rq) t = t\<lparr>ht_phase := ReportStore rq\<rparr>"
  "begin_handler (MComplete cq) t = t\<lparr>ht_phase := CompleteFind cq\<rparr>"
  by (simp_all add: begin_handler_def)

section \<open>A handler alone\<close>

definition handler_alone ::
  "ProxyControlPlaneService \<Rightarrow> nat \<Rightarrow> int \<Rightarrow> proxy_method \<Rightarrow> SessionManager \<Rightarrow> handler_thread \<times> SessionManager" where
  "handler_alone svc k now r m = (handler_move svc now ^^ k) (begin_handler r free_thread, m)"

lemma open_alone:
  "handler_alone svc 3 now (MOpen q) m =
     (free_thread\<lparr>ht_answer := Some (OpenAnswer (fst (proxy_OpenSession svc now q m)))\<rparr>, snd (proxy_OpenSession svc now q m))"
proof (cases "open_valid q")
  case True
  then have b: "begin_handler (MOpen q) free_thread =
      free_thread\<lparr>ht_phase := if osq_session_id q \<noteq> [] then OpenClock q (osq_session_id q) else OpenCounter q\<rparr>"
    using begin_open [of q free_thread svc now m] by simp
  show ?thesis
    unfolding handler_alone_def b
    by (simp add: handler_move_def free_thread_def OpenSession_valid True CreateSession_def eval_nat_numeral Let_def)
next
  case False
  then have b: "begin_handler (MOpen q) free_thread =
      free_thread\<lparr>ht_answer := Some (OpenAnswer (fst (proxy_OpenSession svc now q m)))\<rparr>"
    using begin_open [of q free_thread svc now m] by (simp add: free_thread_def)
  show ?thesis
    using False OpenSession_table [of svc now q m] unfolding handler_alone_def b
    by (simp add: handler_move_def free_thread_def eval_nat_numeral)
qed

lemma report_alone:
  "handler_alone svc 1 now (MReport q) m =
     (free_thread\<lparr>ht_answer := Some (ReportAnswer (fst (proxy_ReportGdsPut q m)))\<rparr>, snd (proxy_ReportGdsPut q m))"
  by (simp add: handler_alone_def begin_others move_report free_thread_def proxy_ReportGdsPut_def split: prod.split)

lemma complete_alone:
  assumes "sm_inv m"
  shows "handler_alone svc 2 now (MComplete q) m =
     (free_thread\<lparr>ht_answer := Some (CompleteAnswer (fst (proxy_CompleteUpload q m)))\<rparr>, snd (proxy_CompleteUpload q m))"
proof (cases "GetCompletedSession (cuq_upload_id q) m")
  case None
  then show ?thesis
    using assms by (simp add: handler_alone_def begin_others move_find eval_nat_numeral free_thread_def
        proxy_CompleteUpload_def) (simp add: handler_move_def)
next
  case (Some s)
  then have "GetSession (session_id s) m = Some s"
    using GetCompletedSession_iff [OF assms] sm_inv_lookup [OF assms] by metis
  then show ?thesis
    using Some assms by (simp add: handler_alone_def begin_others move_find eval_nat_numeral free_thread_def
        proxy_CompleteUpload_def) (simp add: handler_move_def)
qed

section \<open>Every schedule\<close>

text \<open>The tags that were reported for a session.\<close>

definition reported_tags :: "proxy_event list \<Rightarrow> string \<Rightarrow> string set" where
  "reported_tags evs sid = {tag. \<exists>i q. Request i (MReport q) \<in> set evs \<and> rgq_session_id q = sid \<and> rgq_etag q = tag}"

definition entry_just :: "proxy_event list \<Rightarrow> string \<Rightarrow> Session \<Rightarrow> bool" where
  "entry_just evs sid s \<longleftrightarrow> (if status s = kCompleted then etag s \<in> reported_tags evs sid else etag s = [])"

fun phase_just :: "proxy_event list \<Rightarrow> SessionManager \<Rightarrow> handler_phase \<Rightarrow> bool" where
  "phase_just evs m (OpenStore q s) = (ticket s = ticket_for (session_id s) \<and> status s = kPending \<and> etag s = [])"
| "phase_just evs m (ReportStore q) = (\<exists>i. Request i (MReport q) \<in> set evs)"
| "phase_just evs m (CompleteRead sid) = (GetSession sid m \<noteq> None \<and> reported_tags evs sid \<noteq> {})"
| "phase_just evs m ph = True"

fun answer_just :: "proxy_event list \<Rightarrow> proxy_answer option \<Rightarrow> bool" where
  "answer_just evs (Some (CompleteAnswer (Inr r))) =
     (\<exists>sid. reported_tags evs sid \<noteq> {} \<and> (cur_etag r = [] \<or> cur_etag r \<in> reported_tags evs sid))"
| "answer_just evs a = True"

definition table_just :: "proxy_event list \<Rightarrow> SessionManager \<Rightarrow> bool" where
  "table_just evs m \<longleftrightarrow> sm_inv m \<and> (\<forall>sid s. GetSession sid m = Some s \<longrightarrow> entry_just evs sid s)"

definition handlers_inv :: "proxy_event list \<Rightarrow> proxy_system \<Rightarrow> bool" where
  "handlers_inv evs = (\<lambda>(ts, m). table_just evs m \<and>
     list_all (\<lambda>t. phase_just evs m (ht_phase t) \<and> answer_just evs (ht_answer t)) ts)"

lemma reported_mono: "set evs \<subseteq> set evs' \<Longrightarrow> reported_tags evs sid \<subseteq> reported_tags evs' sid"
  by (auto simp: reported_tags_def)

lemma just_mono:
  assumes "set evs \<subseteq> set evs'"
  shows "entry_just evs sid s \<Longrightarrow> entry_just evs' sid s" "phase_just evs m ph \<Longrightarrow> phase_just evs' m ph"
    "answer_just evs a \<Longrightarrow> answer_just evs' a"
proof -
  note mono = subsetD [OF reported_mono [OF assms]]
  show "entry_just evs sid s \<Longrightarrow> entry_just evs' sid s" by (auto simp: entry_just_def intro: mono)
  show "phase_just evs m ph \<Longrightarrow> phase_just evs' m ph" using assms by (cases ph) (auto dest: mono)
  show "answer_just evs a \<Longrightarrow> answer_just evs' a"
    by (cases "(evs, a)" rule: answer_just.cases) (simp_all, metis ex_in_conv mono)
qed

lemma handlers_inv_mono: "handlers_inv evs st \<Longrightarrow> set evs \<subseteq> set evs' \<Longrightarrow> handlers_inv evs' st"
  using just_mono [of evs evs'] by (auto simp: handlers_inv_def table_just_def list_all_iff)

text \<open>A table that only gains entries keeps every pointer.\<close>

lemma phase_just_grows:
  "phase_just evs m ph \<Longrightarrow> (\<And>sid. GetSession sid m \<noteq> None \<Longrightarrow> GetSession sid m' \<noteq> None) \<Longrightarrow> phase_just evs m' ph"
  by (cases ph) auto

text \<open>What one stretch has to establish.\<close>

definition move_just :: "proxy_event list \<Rightarrow> SessionManager \<Rightarrow> handler_thread \<times> SessionManager \<Rightarrow> bool" where
  "move_just evs m = (\<lambda>(t', m'). table_just evs m' \<and> phase_just evs m' (ht_phase t') \<and> answer_just evs (ht_answer t') \<and>
     (\<forall>sid. GetSession sid m \<noteq> None \<longrightarrow> GetSession sid m' \<noteq> None))"

lemma open_store_just:
  assumes "table_just evs m" "phase_just evs m (ht_phase t)" "ht_phase t = OpenStore q s"
  shows "move_just evs m (handler_move svc now (t, m))"
proof -
  let ?m = "m\<lparr>sessions_tab := AList.update (session_id s) s (sessions_tab m)\<rparr>"
  have "GetSession sid ?m = (if sid = session_id s then Some s else GetSession sid m)" for sid
    by (simp add: GetSession_def update_conv')
  moreover have "sm_inv ?m" using assms by (simp add: table_just_def sm_inv_def table_inv_update)
  ultimately show ?thesis
    using assms by (auto simp: handler_move_def move_just_def table_just_def entry_just_def)
qed

lemma report_store_just:
  assumes "table_just evs m" "phase_just evs m (ht_phase t)" "ht_phase t = ReportStore q"
  shows "move_just evs m (handler_move svc now (t, m))"
proof -
  obtain ok m1 where c: "CompleteSession (rgq_session_id q) (rgq_etag q) (rgq_crc32c q) (rgq_bytes_transferred q) m = (ok, m1)"
    by force
  have tag: "rgq_etag q \<in> reported_tags evs (rgq_session_id q)"
    using assms(2,3) by (auto simp: reported_tags_def)
  have "sm_inv m1" using CompleteSession_inv [of m] assms(1) c by (metis snd_conv table_just_def)
  then show ?thesis
    using assms tag CompleteSession_lookup [OF c]
    by (auto simp: move_report [OF assms(3)] c move_just_def table_just_def entry_just_def split: if_splits)
qed

lemma complete_find_just:
  assumes "table_just evs m" "answer_just evs (ht_answer t)" "ht_phase t = CompleteFind q"
  shows "move_just evs m (handler_move svc now (t, m))"
proof (cases "GetCompletedSession (cuq_upload_id q) m")
  case None
  then show ?thesis using assms by (simp add: move_find move_just_def table_just_def)
next
  case (Some s)
  have inv: "sm_inv m" using assms(1) by (simp add: table_just_def)
  then have s: "GetSession (session_id s) m = Some s" "status s = kCompleted"
    using Some GetCompletedSession_iff [OF inv] sm_inv_lookup [OF inv] by metis+
  then have "etag s \<in> reported_tags evs (session_id s)" using assms(1) by (auto simp: table_just_def entry_just_def)
  then show ?thesis using assms(1,2) Some s by (auto simp: move_find [OF assms(3) inv] move_just_def)
qed

lemma complete_read_just:
  assumes "table_just evs m" "phase_just evs m (ht_phase t)" "ht_phase t = CompleteRead sid"
  shows "move_just evs m (handler_move svc now (t, m))"
proof -
  obtain s where s: "GetSession sid m = Some s" "reported_tags evs sid \<noteq> {}" using assms(2,3) by auto
  then have "etag s = [] \<or> etag s \<in> reported_tags evs sid"
    using assms(1) by (auto simp: table_just_def entry_just_def split: if_splits)
  then have "answer_just evs (Some (CompleteAnswer (Inr (empty_CompleteUploadResponse\<lparr>cur_etag := etag s\<rparr>))))"
    using s(2) by (auto simp: empty_CompleteUploadResponse_def)
  then show ?thesis using assms s(1) by (simp add: handler_move_def move_just_def del: answer_just.simps)
qed

lemma handler_move_just:
  assumes "table_just evs m" "phase_just evs m (ht_phase t)" "answer_just evs (ht_answer t)"
  shows "move_just evs m (handler_move svc now (t, m))"
proof (cases "ht_phase t")
  case (OpenCounter q)
  then show ?thesis
    using assms by (simp add: handler_move_def move_just_def table_just_def GetSession_def sm_inv_def)
qed (use assms open_store_just report_store_just complete_find_just complete_read_just in
    \<open>simp_all add: handler_move_def move_just_def\<close>)

lemma handlers_event:
  assumes "handlers_inv evs st" "e \<in> set evs"
  shows "handlers_inv evs (proxy_event_step svc e st)"
proof -
  obtain ts m where st: "st = (ts, m)" by force
  have inv: "table_just evs m"
    and thr: "i < length ts \<Longrightarrow> phase_just evs m (ht_phase (ts ! i)) \<and> answer_just evs (ht_answer (ts ! i))" for i
    using assms(1) by (simp_all add: st handlers_inv_def list_all_length)
  show ?thesis
  proof (cases e)
    case (Request i r)
    show ?thesis
    proof (cases "i < length ts \<and> ht_phase (ts ! i) = Free")
      case True
      have "phase_just evs m (ht_phase (begin_handler r (ts ! i))) \<and>
          answer_just evs (ht_answer (begin_handler r (ts ! i)))"
        using thr [of i] True assms(2) Request by (cases r) (auto simp: begin_handler_def refuse_open_def)
      then show ?thesis
        using assms(1) True by (simp add: st Request handlers_inv_def list_all_swap)
    qed (use assms(1) in \<open>auto simp: st Request\<close>)
  next
    case (Go i now)
    show ?thesis
    proof (cases "i < length ts")
      case True
      obtain t' m' where mv: "handler_move svc now (ts ! i, m) = (t', m')" by force
      have j: "move_just evs m (t', m')"
        using handler_move_just [OF inv, of "ts ! i" svc now] thr [OF True] mv by simp
      have "list_all (\<lambda>t. phase_just evs m' (ht_phase t) \<and> answer_just evs (ht_answer t)) ts"
        using assms(1) j phase_just_grows [of evs m _ m'] by (simp add: st handlers_inv_def move_just_def list_all_iff)
      then show ?thesis using j mv True by (simp add: st Go handlers_inv_def move_just_def list_all_swap)
    qed (use assms(1) in \<open>simp add: st Go\<close>)
  qed
qed

interpretation session_threads: scheduled "proxy_event_step svc" "\<lambda>e. e \<in> set evs" "handlers_inv evs"
  for svc :: ProxyControlPlaneService and evs :: "proxy_event list"
  by unfold_locales (rule handlers_event)

lemma handlers_sched:
  "handlers_inv evs st \<Longrightarrow> set es \<subseteq> set evs \<Longrightarrow> handlers_inv evs (proxy_sched svc es st)"
  unfolding proxy_sched_def by (rule session_threads.run_inv) (auto simp: list_all_iff)

lemma handlers_start: "handlers_inv evs (replicate n free_thread, new_SessionManager ttl)"
  by (simp add: handlers_inv_def table_just_def sm_inv_new free_thread_def list_all_iff GetSession_def new_SessionManager_def
      sm_inv_def table_inv_def)

end
