(* ===== verification/Session_Linear.thy ===== *)
theory Session_Linear
  imports Session_Threads Session_Types
begin

text \<open>
  The proxy's handlers under several threads against the whole calls of \<open>Proxy_Service\<close>: a second
  table follows every schedule, one whole call at a time. A call happens at the moment its handler
  ends, so between its beginning and its end; it is the call the client made, it gives the
  handler's answer, and both tables then have the same sessions. Only the successful answers of
  \<open>CompleteUpload\<close>, which are read without the lock, belong to no call.
\<close>

section \<open>Following a schedule\<close>

text \<open>
  The call a handler makes. \<open>OpenSession\<close> is made with the identifier it uses: the one it was
  given, or one made of a number. The shared counter is drawn before the session is stored, so
  another call may store in between; in the whole call the identifier is given.
\<close>

definition named_as :: "OpenSessionRequest \<Rightarrow> string \<Rightarrow> bool" where
  "named_as q sid \<longleftrightarrow> (if osq_session_id q \<noteq> [] then sid = osq_session_id q
     else \<exists>n. sid = kSessionIdPrefix @ to_string n)"

fun serves :: "proxy_method \<Rightarrow> int \<times> proxy_call \<Rightarrow> bool" where
  "serves (MOpen q) c = (\<exists>now. if open_valid q
     then \<exists>sid. named_as q sid \<and> c = (now, CallOpenSession (q\<lparr>osq_session_id := sid\<rparr>))
     else c = (now, CallOpenSession q))"
| "serves (MReport q) c = (\<exists>now. c = (now, CallReportGdsPut q))"
| "serves (MComplete q) c = (\<exists>now. c = (now, CallCompleteUpload q))"

text \<open>The answer of a whole call.\<close>

fun call_answer :: "ProxyControlPlaneService \<Rightarrow> int \<times> proxy_call \<Rightarrow> SessionManager \<Rightarrow> proxy_answer option" where
  "call_answer svc (now, CallOpenSession q) m = Some (OpenAnswer (fst (proxy_OpenSession svc now q m)))"
| "call_answer svc (now, CallReportGdsPut q) m = Some (ReportAnswer (fst (proxy_ReportGdsPut q m)))"
| "call_answer svc (now, CallCompleteUpload q) m = Some (CompleteAnswer (fst (proxy_CompleteUpload q m)))"
| "call_answer svc c m = None"

text \<open>
  The handler that ends with an event, from the system before and after: what it was asked and its
  answer. The read without the lock is not counted.
\<close>

fun ending :: "proxy_event \<Rightarrow> proxy_system \<Rightarrow> proxy_system \<Rightarrow> (proxy_method \<times> proxy_answer option) option" where
  "ending (Request i r) (ts, m) (ts', m') =
     (if i < length ts \<and> ht_phase (ts ! i) = Free \<and> ht_phase (ts' ! i) = Free
      then Some (r, ht_answer (ts' ! i)) else None)"
| "ending (Go i now) (ts, m) (ts', m') =
     (if i < length ts \<and> ht_phase (ts' ! i) = Free
      then (case ht_phase (ts ! i) of
          OpenStore q s \<Rightarrow> Some (MOpen q, ht_answer (ts' ! i))
        | ReportStore q \<Rightarrow> Some (MReport q, ht_answer (ts' ! i))
        | CompleteFind q \<Rightarrow> Some (MComplete q, ht_answer (ts' ! i))
        | _ \<Rightarrow> None)
      else None)"

text \<open>
  The second table \<open>a\<close> follows: it has the same sessions all the time, and whenever a handler ends,
  a whole call for what the handler was asked gives its answer and takes \<open>a\<close> to the next table.
\<close>

fun follows :: "ProxyControlPlaneService \<Rightarrow> proxy_event list \<Rightarrow> proxy_system \<Rightarrow> SessionManager \<Rightarrow> bool" where
  "follows svc [] st a = (sessions_tab (snd st) = sessions_tab a)"
| "follows svc (e # es) st a = (sessions_tab (snd st) = sessions_tab a \<and>
     (let st' = proxy_event_step svc e st
      in case ending e st st' of
           None \<Rightarrow> follows svc es st' a
         | Some (r, ans) \<Rightarrow> (\<exists>c. serves r c \<and> call_answer svc c a = ans \<and> follows svc es st' (proxy_step svc c a))))"

section \<open>The simulation\<close>

fun phase_made :: "int \<Rightarrow> handler_phase \<Rightarrow> bool" where
  "phase_made ttl (OpenCounter q) = (open_valid q \<and> osq_session_id q = [])"
| "phase_made ttl (OpenClock q sid) = (open_valid q \<and> named_as q sid)"
| "phase_made ttl (OpenStore q s) = (\<exists>sid now. open_valid q \<and> named_as q sid \<and>
     s = pending_session sid (expire_at_for now ttl) (osq_bucket q) (osq_object_key q) (osq_expected_size q))"
| "phase_made ttl ph = True"

definition same_table :: "SessionManager \<Rightarrow> SessionManager \<Rightarrow> bool" where
  "same_table m a \<longleftrightarrow> sm_inv a \<and> ttl_sec m = ttl_sec a \<and> sessions_tab m = sessions_tab a"

definition linear_rel :: "proxy_system \<Rightarrow> SessionManager \<Rightarrow> bool" where
  "linear_rel = (\<lambda>(ts, m) a. same_table m a \<and> list_all (\<lambda>t. phase_made (ttl_sec a) (ht_phase t)) ts)"

lemma named_nonempty: "named_as q sid \<Longrightarrow> sid \<noteq> []"
  by (auto simp: named_as_def kSessionIdPrefix_def split: if_splits)

lemma valid_named [simp]: "open_valid (q\<lparr>osq_session_id := sid\<rparr>) = open_valid q"
  by (simp add: open_valid_def)

lemma same_table_inv: "same_table m a \<Longrightarrow> sm_inv m"
  by (simp add: same_table_def sm_inv_def)

lemma linear_swap:
  assumes "linear_rel (ts, m) a" "phase_made (ttl_sec a) (ht_phase t)" "same_table m' a'" "ttl_sec a' = ttl_sec a"
  shows "linear_rel (ts[i := t], m') a'"
  using assms by (simp add: linear_rel_def list_all_swap)

text \<open>What each stretch that changes the table or ends a handler does to both tables.\<close>

lemma open_on_same:
  assumes "same_table m a" "open_valid q" "named_as q sid"
    and "s = pending_session sid (expire_at_for now (ttl_sec a)) (osq_bucket q) (osq_object_key q) (osq_expected_size q)"
  defines "c \<equiv> (now, CallOpenSession (q\<lparr>osq_session_id := sid\<rparr>))"
  shows "same_table (m\<lparr>sessions_tab := AList.update (session_id s) s (sessions_tab m)\<rparr>) (proxy_step svc c a)"
    and "call_answer svc c a = Some (OpenAnswer (Inr
      \<lparr>osr_request_id = osq_request_id q, osr_session_id = session_id s, osr_ticket = ticket s,
       osr_gateway_id = ps_gateway_id svc, osr_data_endpoint = ps_backend_endpoint svc, osr_expire_at = expire_at s\<rparr>))"
  using assms(1,2,4) named_nonempty [OF assms(3)] proxy_step_inv [of a svc c]
  by (simp_all add: c_def same_table_def OpenSession_valid CreateSession_eq created_id_def Let_def)

lemma report_on_same:
  assumes "same_table m a"
    and "CompleteSession (rgq_session_id q) (rgq_etag q) (rgq_crc32c q) (rgq_bytes_transferred q) m = (ok, m')"
  shows "same_table m' (proxy_step svc (0, CallReportGdsPut q) a)"
    and "call_answer svc (0, CallReportGdsPut q) a = Some (ReportAnswer (Inr \<lparr>rgr_accepted = ok\<rparr>))"
  using assms proxy_step_inv [of a svc "(0, CallReportGdsPut q)"]
  by (auto simp: same_table_def proxy_ReportGdsPut_def CompleteSession_def split: option.splits prod.splits)

lemma not_found_on_same:
  assumes "same_table m a" "GetCompletedSession (cuq_upload_id q) m = None"
  shows "call_answer svc (0, CallCompleteUpload q) a =
      Some (CompleteAnswer (Inl (SetFailedCode PROXY_ERR_SESSION_NOT_FOUND ''session not found or not yet completed'')))"
  using assms by (simp add: same_table_def proxy_CompleteUpload_def GetCompletedSession_def)

lemma refuse_on_same:
  "\<not> open_valid q \<Longrightarrow> proxy_step svc (0, CallOpenSession q) a = a"
  by (simp add: OpenSession_table)

text \<open>One event.\<close>

definition step_follows :: "ProxyControlPlaneService \<Rightarrow> proxy_event \<Rightarrow> proxy_system \<Rightarrow> SessionManager \<Rightarrow> bool" where
  "step_follows svc e st a \<longleftrightarrow> (let st' = proxy_event_step svc e st
     in case ending e st st' of
          None \<Rightarrow> linear_rel st' a
        | Some (r, ans) \<Rightarrow> \<exists>c. serves r c \<and> call_answer svc c a = ans \<and> linear_rel st' (proxy_step svc c a))"

lemma step_call:
  assumes "ending e st (proxy_event_step svc e st) = Some (r, ans)" "serves r c" "call_answer svc c a = ans"
    and "linear_rel (proxy_event_step svc e st) (proxy_step svc c a)"
  shows "step_follows svc e st a"
  unfolding step_follows_def Let_def assms(1) option.case prod.case
  using assms(2-4) by (intro exI [of _ c] conjI)

lemma step_quiet:
  assumes "ending e st (proxy_event_step svc e st) = None" "linear_rel (proxy_event_step svc e st) a"
  shows "step_follows svc e st a"
  using assms by (simp add: step_follows_def)

lemma request_follows:
  assumes rel: "linear_rel (ts, m) a"
  shows "step_follows svc (Request i r) (ts, m) a"
proof (cases "i < length ts \<and> ht_phase (ts ! i) = Free")
  case False
  then show ?thesis using rel by (intro step_quiet) auto
next
  case True
  have same: "same_table m a" using rel by (simp add: linear_rel_def)
  note swap = linear_swap [OF rel _ same refl, of _ i]
  show ?thesis
  proof (cases r)
    case (MOpen q)
    show ?thesis
    proof (cases "open_valid q")
      case valid: True
      then have b: "begin_handler r (ts ! i) =
          (ts ! i)\<lparr>ht_phase := if osq_session_id q \<noteq> [] then OpenClock q (osq_session_id q) else OpenCounter q\<rparr>"
        using begin_open [of q "ts ! i" svc 0 a] MOpen by simp
      have "phase_made (ttl_sec a) (if osq_session_id q \<noteq> [] then OpenClock q (osq_session_id q) else OpenCounter q)"
        using valid by (simp add: named_as_def)
      then show ?thesis using True swap by (intro step_quiet) (auto simp: b)
    next
      case False
      then have b: "begin_handler (MOpen q) (ts ! i) =
          (ts ! i)\<lparr>ht_phase := Free, ht_answer := Some (OpenAnswer (fst (proxy_OpenSession svc 0 q a)))\<rparr>"
        using begin_open [of q "ts ! i" svc 0 a] by simp
      show ?thesis
        using True False MOpen swap refuse_on_same [of q svc a]
        by (intro step_call [of _ _ _ r _ "(0, CallOpenSession q)"]) (simp_all add: b)
    qed
  next
    case (MReport q)
    then show ?thesis using True swap by (intro step_quiet) (simp_all add: begin_others)
  next
    case (MComplete q)
    then show ?thesis using True swap by (intro step_quiet) (simp_all add: begin_others)
  qed
qed

lemma go_follows:
  assumes rel: "linear_rel (ts, m) a" and i: "i < length ts"
  shows "step_follows svc (Go i now) (ts, m) a"
proof -
  have same: "same_table m a" and made: "phase_made (ttl_sec a) (ht_phase (ts ! i))"
    using rel i by (simp_all add: linear_rel_def list_all_length)
  note swap = linear_swap [OF rel _ same refl, of _ i]
  note inv = same_table_inv [OF same]
  have ttl: "ttl_sec m = ttl_sec a" using same by (simp add: same_table_def)
  show ?thesis
  proof (cases "ht_phase (ts ! i)")
    case Free
    then show ?thesis using rel i by (intro step_quiet) (simp_all add: handler_move_def)
  next
    case (OpenCounter q)
    have "same_table (m\<lparr>seq_no := seq_no m + 1\<rparr>) a" using same by (simp add: same_table_def)
    note next_rel = linear_swap [OF rel _ this refl, of _ i]
    show ?thesis
      using made i OpenCounter by (intro step_quiet) (auto simp: handler_move_def named_as_def intro!: next_rel)
  next
    case (OpenClock q sid)
    then show ?thesis
      using made i by (intro step_quiet) (auto simp: handler_move_def ttl pending_session_def intro!: swap)
  next
    case (OpenStore q s)
    then obtain sid n where q: "open_valid q" "named_as q sid"
        "s = pending_session sid (expire_at_for n (ttl_sec a)) (osq_bucket q) (osq_object_key q) (osq_expected_size q)"
      using made by auto
    note o = open_on_same [OF same q, of svc]
    show ?thesis
      using q i OpenStore o(2) linear_swap [OF rel _ o(1), of _ i]
      by (intro step_call [of _ _ _ "MOpen q" _ "(n, CallOpenSession (q\<lparr>osq_session_id := sid\<rparr>))"])
        (auto simp: handler_move_def simp del: proxy_step.simps)
  next
    case (ReportStore q)
    obtain ok m' where c: "CompleteSession (rgq_session_id q) (rgq_etag q) (rgq_crc32c q) (rgq_bytes_transferred q) m = (ok, m')"
      by force
    note r = report_on_same [OF same c, of svc]
    show ?thesis
      using i ReportStore r(2) linear_swap [OF rel _ r(1), of _ i]
      by (intro step_call [of _ _ _ "MReport q" _ "(0, CallReportGdsPut q)"])
        (auto simp: move_report [OF ReportStore] c simp del: proxy_step.simps)
  next
    case (CompleteFind q)
    show ?thesis
    proof (cases "GetCompletedSession (cuq_upload_id q) m")
      case None
      then show ?thesis
        using i CompleteFind not_found_on_same [OF same None, of svc] swap
        by (intro step_call [of _ _ _ "MComplete q" _ "(0, CallCompleteUpload q)"])
          (auto simp: move_find [OF CompleteFind inv])
    next
      case (Some s)
      then show ?thesis using i swap by (intro step_quiet) (simp_all add: move_find [OF CompleteFind inv])
    qed
  next
    case (CompleteRead sid)
    then show ?thesis
      using i rel swap by (intro step_quiet) (auto simp: handler_move_def split: option.split)
  qed
qed

lemma event_follows:
  assumes "linear_rel st a"
  shows "step_follows svc e st a"
proof -
  obtain ts m where st: "st = (ts, m)" by force
  show ?thesis
  proof (cases e)
    case (Request i r)
    then show ?thesis using request_follows assms st by simp
  next
    case (Go i now)
    show ?thesis
    proof (cases "i < length ts")
      case True
      then show ?thesis using go_follows assms st Go by simp
    next
      case False
      then show ?thesis using assms by (intro step_quiet) (simp_all add: st Go)
    qed
  qed
qed

lemma linear_follows: "linear_rel st a \<Longrightarrow> follows svc evs st a"
proof (induction evs arbitrary: st a)
  case (Cons e evs)
  have same: "sessions_tab (snd st) = sessions_tab a" using Cons.prems by (auto simp: linear_rel_def same_table_def)
  show ?case
  proof (cases "ending e st (proxy_event_step svc e st)")
    case None
    then show ?thesis
      using event_follows [OF Cons.prems, of svc e] Cons.IH same by (simp add: step_follows_def)
  next
    case (Some x)
    obtain r ans where x: "x = (r, ans)" by force
    obtain c where "serves r c" "call_answer svc c a = ans"
        "linear_rel (proxy_event_step svc e st) (proxy_step svc c a)"
      using event_follows [OF Cons.prems, of svc e] Some x by (auto simp: step_follows_def)
    then show ?thesis unfolding follows.simps Let_def Some x option.case prod.case using Cons.IH same by blast
  qed
qed (auto simp: linear_rel_def same_table_def)

lemma linear_start: "linear_rel (replicate n free_thread, new_SessionManager ttl) (new_SessionManager ttl)"
  by (simp add: linear_rel_def same_table_def sm_inv_new list_all_iff free_thread_def)

end
