(* ===== verification/Session_Thread_Properties.thy ===== *)
theory Session_Thread_Properties
  imports Session_Linear
begin

text \<open>
  The properties of the proxy's handlers under several threads: the sequential definitions are
  what an uninterrupted handler does, and what every schedule amounts to but for one kind of
  answer; the pointer that \<open>CompleteUpload\<close> follows without the lock is always valid, and what can
  change behind it.
\<close>

text \<open>
  C21: a handler that is not interrupted, made of the stretches between the shared accesses (the
  checks, the counter, the clock, the critical sections with the element changed in place, the
  scan that returns a pointer, the read through it), answers and changes the table as its
  sequential definition says, in every table that calls can reach.
\<close>

theorem proxy_handlers_alone:
  "let m = proxy_run svc calls (new_SessionManager ttl) in
   handler_alone svc 3 now (MOpen oq) m =
     (free_thread\<lparr>ht_answer := Some (OpenAnswer (fst (proxy_OpenSession svc now oq m)))\<rparr>, snd (proxy_OpenSession svc now oq m)) \<and>
   handler_alone svc 1 now (MReport rq) m =
     (free_thread\<lparr>ht_answer := Some (ReportAnswer (fst (proxy_ReportGdsPut rq m)))\<rparr>, snd (proxy_ReportGdsPut rq m)) \<and>
   handler_alone svc 2 now (MComplete cq) m =
     (free_thread\<lparr>ht_answer := Some (CompleteAnswer (fst (proxy_CompleteUpload cq m)))\<rparr>, snd (proxy_CompleteUpload cq m))"
  unfolding Let_def
  by (intro conjI open_alone report_alone complete_alone proxy_run_inv sm_inv_new)

text \<open>
  C14: under every schedule of any number of threads, the pointer with which a \<open>CompleteUpload\<close>
  is about to read points to a session of the table for which a report was received, and every
  successful answer of \<open>CompleteUpload\<close> carries a tag that was reported for one session, or the
  empty tag.
\<close>

theorem complete_upload_pointer_valid:
  "case proxy_sched svc evs (replicate n free_thread, new_SessionManager ttl) of (ts, m) \<Rightarrow>
     list_all (\<lambda>t. (case ht_phase t of
         CompleteRead sid \<Rightarrow> GetSession sid m \<noteq> None \<and> reported_tags evs sid \<noteq> {} | _ \<Rightarrow> True) \<and>
       (case ht_answer t of
         Some (CompleteAnswer (Inr r)) \<Rightarrow>
           (\<exists>sid. reported_tags evs sid \<noteq> {} \<and> (if cur_etag r = [] then True else cur_etag r \<in> reported_tags evs sid))
       | _ \<Rightarrow> True)) ts"
proof -
  obtain ts m where r: "proxy_sched svc evs (replicate n free_thread, new_SessionManager ttl) = (ts, m)" by force
  then have "handlers_inv evs (ts, m)" using handlers_sched [OF handlers_start subset_refl] by metis
  then show ?thesis
    unfolding r handlers_inv_def prod.case
    by (auto simp: list_all_iff split: handler_phase.splits option.splits proxy_answer.splits sum.splits)
       (metis answer_just.simps(1))+
qed

text \<open>
  C8: the handlers are linearisable, but for the success of \<open>CompleteUpload\<close>. A second table that
  only whole calls change follows every schedule of any number of threads: it has the same
  sessions all the time, and at the moment a handler ends, one whole call of what its client asked
  (an \<open>OpenSession\<close> with the identifier it was given, or with a generated one) gives exactly the
  handler's answer and the next table. The successful answers of \<open>CompleteUpload\<close>, read without the
  lock, are not counted.
\<close>

theorem proxy_handlers_linearise:
  "follows svc evs (replicate n free_thread, new_SessionManager ttl) (new_SessionManager ttl)"
  by (rule linear_follows [OF linear_start])

section \<open>A session opened again\<close>

text \<open>A completed session found by its ticket, and its session opened again.\<close>

lemma found_session:
  assumes "sm_inv m" "GetCompletedSession t m = Some s"
  shows "GetSession (session_id s) m = Some s" "status s = kCompleted" "ticket s = t"
  using GetCompletedSession_iff [OF assms(1)] sm_inv_lookup [OF assms(1)] assms(2) by metis+

lemma reopened_hidden:
  assumes "sm_inv m" "GetSession i m = Some s" "r = pending_session i e b k n"
  shows "GetCompletedSession (ticket s) (m\<lparr>sessions_tab := AList.update i r (sessions_tab m)\<rparr>) = None"
proof -
  let ?m = "m\<lparr>sessions_tab := AList.update i r (sessions_tab m)\<rparr>"
  have inv: "sm_inv ?m" using assms(1,3) by (simp add: sm_inv_def table_inv_update)
  have "GetCompletedSession (ticket s) ?m \<noteq> Some x" for x
  proof
    assume "GetCompletedSession (ticket s) ?m = Some x"
    then obtain j where j: "GetSession j ?m = Some x" "status x = kCompleted" "ticket x = ticket s"
      using GetCompletedSession_iff [OF inv] by blast
    have "ticket x = ticket_for j" "ticket s = ticket_for i"
      using sm_inv_lookup [OF inv j(1)] sm_inv_lookup [OF assms(1,2)] by simp_all
    then have "j = i" using j(3) by simp
    then have "x = r" using j(1) by (simp add: GetSession_def update_conv')
    then show False using j(2) assms(3) by simp
  qed
  then show ?thesis by (metis option.exhaust)
qed

text \<open>
  The schedule: one thread finds the completed session and releases the lock, another one opens
  the session again under its identifier, and then the first one reads through its pointer.
\<close>

definition reopened_behind ::
  "nat \<Rightarrow> nat \<Rightarrow> CompleteUploadRequest \<Rightarrow> OpenSessionRequest \<Rightarrow> int \<Rightarrow> proxy_event list" where
  "reopened_behind i j cq oq now =
     [Request i (MComplete cq), Go i now, Request j (MOpen oq), Go j now, Go j now, Go i now]"

text \<open>
  C15: after any schedule that leaves two threads free and a completed session in the table, the
  call of \<open>CompleteUpload\<close> for its ticket can succeed with an empty tag: another thread opens the
  session again under its identifier after the look-up and before the read without the lock. In
  neither order of the two whole calls does this happen: before the other call the answer has the
  tag that was reported, after it the session is not found.
\<close>

theorem complete_upload_reads_reopened:
  assumes "proxy_sched svc evs (replicate n free_thread, new_SessionManager ttl) = (ts, m)"
    and "i < n" "j < n" "i \<noteq> j" "ht_phase (ts ! i) = Free" "ht_phase (ts ! j) = Free"
    and "GetCompletedSession (cuq_upload_id cq) m = Some s"
    and "open_valid oq" "osq_session_id oq = session_id s" "session_id s \<noteq> []"
  shows "(case proxy_sched svc (reopened_behind i j cq oq now) (ts, m) of (ts', m') \<Rightarrow>
       ht_answer (ts' ! i) = Some (CompleteAnswer (Inr (empty_CompleteUploadResponse\<lparr>cur_etag := []\<rparr>))) \<and>
       ht_answer (ts' ! j) = Some (OpenAnswer (fst (proxy_OpenSession svc now oq m))) \<and>
       m' = snd (proxy_OpenSession svc now oq m)) \<and>
     fst (proxy_CompleteUpload cq m) = Inr (empty_CompleteUploadResponse\<lparr>cur_etag := etag s\<rparr>) \<and>
     fst (proxy_CompleteUpload cq (snd (proxy_OpenSession svc now oq m))) =
       Inl (SetFailedCode PROXY_ERR_SESSION_NOT_FOUND ''session not found or not yet completed'')"
proof -
  have "handlers_inv evs (ts, m)" using handlers_sched [OF handlers_start subset_refl] assms(1) by metis
  then have inv: "sm_inv m" by (simp add: handlers_inv_def table_just_def)
  have len: "length ts = n" using sched_length [of svc evs "replicate n free_thread" "new_SessionManager ttl"] assms(1) by simp
  note found = found_session [OF inv assms(7)]
  let ?r = "pending_session (session_id s) (expire_at_for now (ttl_sec m)) (osq_bucket oq) (osq_object_key oq) (osq_expected_size oq)"
  let ?m = "m\<lparr>sessions_tab := AList.update (session_id s) ?r (sessions_tab m)\<rparr>"
  have opened: "proxy_OpenSession svc now oq m = (Inr \<lparr>osr_request_id = osq_request_id oq, osr_session_id = session_id s,
      osr_ticket = ticket ?r, osr_gateway_id = ps_gateway_id svc, osr_data_endpoint = ps_backend_endpoint svc,
      osr_expire_at = expire_at ?r\<rparr>, ?m)"
    using assms(8-10) by (simp add: OpenSession_valid CreateSession_eq created_id_def Let_def)
  let ?a = "ts ! i" and ?b = "ts ! j"
  have one: "proxy_sched svc [Request i (MComplete cq), Go i now] (ts, m) =
      (ts[i := ?a\<lparr>ht_phase := CompleteRead (session_id s)\<rparr>], m)"
    using assms(2,5,7) len by (simp add: begin_others move_find [OF _ inv])
  have begun: "begin_handler (MOpen oq) ?b = ?b\<lparr>ht_phase := OpenClock oq (session_id s)\<rparr>"
    using begin_open [of oq ?b svc now m] assms(8-10) by simp
  have two: "proxy_sched svc [Request j (MOpen oq), Go j now, Go j now] (ts[i := ?a\<lparr>ht_phase := CompleteRead (session_id s)\<rparr>], m) =
      (ts[i := ?a\<lparr>ht_phase := CompleteRead (session_id s)\<rparr>,
          j := ?b\<lparr>ht_phase := Free, ht_answer := Some (OpenAnswer (fst (proxy_OpenSession svc now oq m)))\<rparr>], ?m)"
    using assms(3,4,6) len begun unfolding opened
    by (simp add: handler_move_def pending_session_def)
  have three: "proxy_sched svc [Go i now] (ts[i := ?a\<lparr>ht_phase := CompleteRead (session_id s)\<rparr>, j := x], ?m) =
      (ts[i := ?a\<lparr>ht_phase := Free, ht_answer := Some (CompleteAnswer (Inr (empty_CompleteUploadResponse\<lparr>cur_etag := []\<rparr>)))\<rparr>,
          j := x], ?m)" for x
    using assms(2,4) len by (simp add: handler_move_def GetSession_def update_conv' list_update_swap)
  have "proxy_sched svc (reopened_behind i j cq oq now) (ts, m) =
      proxy_sched svc [Go i now] (proxy_sched svc [Request j (MOpen oq), Go j now, Go j now]
        (proxy_sched svc [Request i (MComplete cq), Go i now] (ts, m)))"
    by (simp add: reopened_behind_def)
  also have "\<dots> = (ts[i := ?a\<lparr>ht_phase := Free, ht_answer := Some (CompleteAnswer (Inr (empty_CompleteUploadResponse\<lparr>cur_etag := []\<rparr>)))\<rparr>,
      j := ?b\<lparr>ht_phase := Free, ht_answer := Some (OpenAnswer (fst (proxy_OpenSession svc now oq m)))\<rparr>], ?m)"
    unfolding one two three ..
  finally have race: "proxy_sched svc (reopened_behind i j cq oq now) (ts, m) = \<dots>" .
  show ?thesis
    using assms(2-4,7) len reopened_hidden [OF inv found(1) refl, of "expire_at_for now (ttl_sec m)"] found(3)
    unfolding race opened by (simp add: proxy_CompleteUpload_def)
qed

definition race_open :: OpenSessionRequest where
  "race_open = empty_OpenSessionRequest
     \<lparr>osq_request_id := ''r'', osq_session_id := ''a'', osq_bucket := ''b'', osq_object_key := ''k'',
      osq_op_type := ''PUT'', osq_data_flow := ''gds-cuobject'', osq_expected_size := 5\<rparr>"

definition race_complete :: CompleteUploadRequest where
  "race_complete = \<lparr>cuq_upload_id = ''tkt-a'', cuq_parts = [], cuq_data_flow = []\<rparr>"

definition race_service :: ProxyControlPlaneService where
  "race_service = \<lparr>ps_gateway_id = ''g'', ps_backend_endpoint = ''h:1''\<rparr>"

definition race_start :: "proxy_event list" where
  "race_start = [Request 0 (MOpen race_open), Go 0 0, Go 0 0,
     Request 0 (MReport \<lparr>rgq_session_id = ''a'', rgq_etag = ''e'', rgq_crc32c = 7, rgq_bytes_transferred = 5\<rparr>), Go 0 0]"

lemma two_threads: "replicate 2 free_thread = [free_thread, free_thread]"
  by (simp add: numeral_2_eq_2)

theorem complete_upload_reads_reopened_witness:
  "\<exists>ts m. proxy_sched race_service race_start (replicate 2 free_thread, new_SessionManager 60) = (ts, m) \<and>
     ht_answer (fst (proxy_sched race_service (reopened_behind 1 0 race_complete race_open 0) (ts, m)) ! 1) =
       Some (CompleteAnswer (Inr (empty_CompleteUploadResponse\<lparr>cur_etag := []\<rparr>))) \<and>
     fst (proxy_CompleteUpload race_complete m) = Inr (empty_CompleteUploadResponse\<lparr>cur_etag := ''e''\<rparr>)"
proof -
  obtain ts m s where r: "proxy_sched race_service race_start (replicate 2 free_thread, new_SessionManager 60) = (ts, m)"
      "ht_phase (ts ! 0) = Free" "ht_phase (ts ! 1) = Free" "GetCompletedSession (cuq_upload_id race_complete) m = Some s"
      "session_id s = ''a''" "etag s = ''e''"
    unfolding two_threads
    by (simp add: race_start_def race_open_def race_complete_def free_thread_def begin_handler_def handler_move_def
        empty_OpenSessionRequest_def kGdsDataPath_def kOpTypePut_def new_SessionManager_def GetCompletedSession_def
        ticket_for_def)
  have "open_valid race_open" "osq_session_id race_open = session_id s" "session_id s \<noteq> []"
    by (simp_all add: race_open_def r(5) open_valid_def empty_OpenSessionRequest_def kGdsDataPath_def kOpTypePut_def)
  from complete_upload_reads_reopened [OF r(1) _ _ _ r(3,2,4) this, of 0] show ?thesis
    using r(1,6) by (auto simp: case_prod_unfold)
qed

end
