(* ===== verification/Memory_Thread_Properties.thy ===== *)
theory Memory_Thread_Properties
  imports Memory_Threads Put_Threads Client_Runs Example_Client
begin

text \<open>
  The properties of the client's memory manager under several threads: the books of every
  schedule, what a thread alone does, in the manager and in \<open>PutObject\<close>, and what the gap between
  registering a buffer and taking its token allows.
\<close>

text \<open>The manager as the first call of \<open>Instance\<close> leaves it, and \<open>n\<close> threads outside.\<close>

definition mem_boots :: "'s client_api \<Rightarrow> 's \<Rightarrow> 's mem_state \<Rightarrow> bool" where
  "mem_boots api s st \<longleftrightarrow> Instance api None \<lparr>env = s, events = []\<rparr> = (True, Some (fst st), snd st)"

lemma boots_simps:
  assumes "mem_boots api s (mgr, w)"
  shows "gm_client mgr" "gm_registered mgr = []" "events w = []"
  using assms events_quiet(5) [of api "\<lparr>env = s, events = []\<rparr>"]
  by (auto simp: mem_boots_def Instance_def new_GdsMemoryManager_def Let_def split: prod.splits)

lemma idle_mem [simp]: "thread_tokens idle_mem_thread = []" "mem_thread_wf idle_mem_thread"
  "mt_phase idle_mem_thread = MemOutside" "mt_token idle_mem_thread = null_token"
  by (simp_all add: idle_mem_thread_def thread_tokens_def owned_token_def null_token_def mem_thread_wf_def)

lemma boots_inv:
  assumes "mem_boots api s st"
  shows "memory_inv (replicate n idle_mem_thread, st)"
proof -
  obtain mgr w where st: "st = (mgr, w)" by (cases st)
  show ?thesis
    using boots_simps [OF assms [unfolded st]]
    by (simp add: st memory_inv_def mm_holds_def list_all_iff)
qed

lemma boots_sched_inv:
  assumes "mem_boots api s st"
  shows "memory_inv (mem_sched api evs (replicate n idle_mem_thread, st))"
  unfolding mem_sched_def by (rule memory_books.run_inv [OF boots_inv [OF assms]]) (simp add: list_all_iff)

lemma boots_sched_registered:
  assumes "list_all (\<lambda>e. \<not> unregisters ptr e) evs"
    and "mem_boots api s st"
  shows "unstuck_inv ptr (mem_sched api evs (replicate n idle_mem_thread, st))"
  unfolding mem_sched_def
  by (rule memory_unstuck.run_inv [OF _ assms(1)])
     (use boots_simps(3) [of api s "fst st" "snd st"] assms(2) in
       \<open>cases st; simp add: unstuck_inv_def registered_inv_def past_registration_def list_all_iff list_ex_iff\<close>)

section \<open>A machine for the witnesses\<close>

definition demo_mem :: "nat mem_state" where
  "demo_mem = (\<lparr>gm_client = True, gm_connected = True, gm_registered = []\<rparr>, \<lparr>env = 0, events = []\<rparr>)"

lemma demo_boots: "mem_boots (demo_machine 7) 0 demo_mem"
  by (simp add: mem_boots_def demo_mem_def Instance_def new_GdsMemoryManager_def w_new_client_def world_log_def
      demo_machine_def Let_def)

text \<open>Two threads that both look the buffer up before either of them registers it.\<close>

definition both_look_up :: "mem_event list" where
  "both_look_up = [MemCall 0 (MemAcquire 4096 16 0), MemCall 1 (MemAcquire 4096 16 0),
     MemRun 0, MemRun 1, MemRun 0, MemRun 1]"

lemma two_mem_threads: "replicate 2 x = [x, x]"
  by (simp add: numeral_2_eq_2)

lemma both_run:
  "mem_sched (demo_machine 7) both_look_up (replicate 2 idle_mem_thread, demo_mem) =
     ([idle_mem_thread\<lparr>mt_phase := FetchToken 4096 16 0\<rparr>, idle_mem_thread\<lparr>mt_phase := FetchToken 4096 16 0\<rparr>],
      \<lparr>gm_client = True, gm_connected = True, gm_registered = [(4096, 16)]\<rparr>, \<lparr>env = 0, events = [EvRegistered 4096 16]\<rparr>)"
  unfolding two_mem_threads
  by (simp add: both_look_up_def demo_mem_def enter_memory_def move_lookup move_ensure RegisterBufferUnderLock_def
      w_get_descriptor_def demo_machine_def CU_OBJ_SUCCESS_def world_log_def)

section \<open>Properties\<close>

text \<open>
  C16: under every schedule of any number of threads, what the vendor's library has registered is
  exactly what the manager lists, no address twice, and the buffers whose deregistration failed,
  which the manager has forgotten; the tokens that are out are exactly those the threads hold,
  each given back once. Once the threads hold none, the manager's destructor asks for the
  deregistration of every buffer it lists, each exactly once, and what stays registered are the
  buffers whose deregistration failed, here or before.
\<close>

theorem memory_threads_account:
  assumes "mem_boots api s st"
    and "mem_sched api evs (replicate n idle_mem_thread, st) = (ts, mgr, w)"
  shows "books (events w) = Some (mset (map fst (gm_registered mgr)), mset (map tok_ptr (concat (map thread_tokens ts)))) \<and>
    distinct (map fst (gm_registered mgr)) \<and>
    library_regs (events w) = mset (map fst (gm_registered mgr)) + stuck (events w) \<and>
    (list_all (\<lambda>t. thread_tokens t = []) ts \<longrightarrow>
       (let es = events (end_GdsMemoryManager api (mgr, w))
        in books es = Some ({#}, {#}) \<and> library_regs es = stuck es))"
proof -
  have h: "mm_holds (concat (map thread_tokens ts)) (mgr, w)"
    using boots_sched_inv [OF assms(1), of evs n] assms(2) by (simp add: memory_inv_def)
  have "books (events (end_GdsMemoryManager api (mgr, w))) = Some ({#}, {#})" if "list_all (\<lambda>t. thread_tokens t = []) ts"
  proof -
    have "concat (map thread_tokens ts) = []" using that by (simp add: list_all_iff)
    then have "books (events w) = Some (mset (map fst (gm_registered mgr)), {#})" "gm_client mgr"
      using h by (simp_all add: mm_holds_def)
    then show ?thesis using end_manager_books [of w "gm_registered mgr" "{#}" api] by (simp add: end_GdsMemoryManager_def)
  qed
  then show ?thesis using h library_books [of "events w"] library_books [of "events (end_GdsMemoryManager api (mgr, w))"]
    by (simp add: mm_holds_def Let_def)
qed

text \<open>
  The same machine with a library that never deregisters: the two threads register one buffer, one
  of them unregisters it, and it stays registered although the manager lists nothing.
\<close>

definition stubborn_machine :: "nat client_api" where
  "stubborn_machine = demo_machine 7\<lparr>ca_put_descriptor := \<lambda>p s. (1, s)\<rparr>"

lemma stubborn_boots: "mem_boots stubborn_machine 0 demo_mem"
  by (simp add: mem_boots_def demo_mem_def Instance_def new_GdsMemoryManager_def w_new_client_def world_log_def
      stubborn_machine_def demo_machine_def Let_def)

lemma stubborn_run:
  "mem_sched stubborn_machine [MemCall 0 (MemRegister 4096 16), MemRun 0, MemCall 1 (MemUnregister 4096), MemRun 1]
     (replicate 2 idle_mem_thread, demo_mem) =
     ([leave_memory True idle_mem_thread, leave_memory False idle_mem_thread],
      \<lparr>gm_client = True, gm_connected = True, gm_registered = []\<rparr>,
      \<lparr>env = 0, events = [EvRegistered 4096 16, EvUnregistered 4096 False]\<rparr>)"
  unfolding two_mem_threads
  by (simp add: demo_mem_def enter_memory_def move_register move_unregister RegisterBuffer_def RegisterBufferUnderLock_def
      UnregisterBuffer_def w_get_descriptor_def w_put_descriptor_def stubborn_machine_def demo_machine_def
      CU_OBJ_SUCCESS_def world_log_def)

theorem memory_threads_account_witness:
  "(\<exists>ts mgr w. mem_sched (demo_machine 7) both_look_up (replicate 2 idle_mem_thread, demo_mem) = (ts, mgr, w) \<and>
     books (events w) = Some ({#4096#}, {#}) \<and> books (events (end_GdsMemoryManager (demo_machine 7) (mgr, w))) = Some ({#}, {#})) \<and>
   (\<exists>ts mgr w. mem_sched stubborn_machine [MemCall 0 (MemRegister 4096 16), MemRun 0, MemCall 1 (MemUnregister 4096), MemRun 1]
     (replicate 2 idle_mem_thread, demo_mem) = (ts, mgr, w) \<and>
     gm_registered mgr = [] \<and> library_regs (events w) = {#4096#})"
proof -
  from memory_threads_account [OF stubborn_boots stubborn_run]
  have "library_regs [EvRegistered 4096 16, EvUnregistered 4096 False] = {#4096#}" by (simp add: stuck_def)
  moreover from memory_threads_account [OF demo_boots both_run] have
    "books [EvRegistered 4096 16] = Some ({#4096#}, {#})"
    "books (events (end_GdsMemoryManager (demo_machine 7)
       (\<lparr>gm_client = True, gm_connected = True, gm_registered = [(4096, 16)]\<rparr>, \<lparr>env = 0, events = [EvRegistered 4096 16]\<rparr>))) =
     Some ({#}, {#})"
    by (simp_all add: thread_tokens_def idle_mem_thread_def owned_token_def null_token_def Let_def)
  ultimately show ?thesis unfolding both_run stubborn_run by simp
qed

text \<open>
  A thread that nobody interrupts does in its stretches what the sequential
  \<open>RegisterBuffer\<close>, \<open>UnregisterBuffer\<close>, \<open>AcquireToken\<close> and the destructor of a token do.
\<close>

theorem memory_methods_alone:
  "let t = \<lparr>mt_phase = MemOutside, mt_token = out, mt_ok = b\<rparr>
   in method_alone_mem api 1 (MemRegister ptr sz) (t, st) =
        (let (ok, st') = RegisterBuffer api ptr sz st in (t\<lparr>mt_ok := ok\<rparr>, st')) \<and>
      method_alone_mem api 1 (MemUnregister ptr) (t, st) =
        (let (ok, st') = UnregisterBuffer api ptr st in (t\<lparr>mt_ok := ok\<rparr>, st')) \<and>
      method_alone_mem api 4 (MemAcquire ptr sz off) (t, st) =
        (let (ok, tok, st') = AcquireToken api ptr sz off out st in (t\<lparr>mt_ok := ok, mt_token := tok\<rparr>, st')) \<and>
      method_alone_mem api 1 MemDrop (t, st) =
        (t\<lparr>mt_token := null_token\<rparr>, fst st, Token_end api out (snd st))"
proof -
  let ?t = "\<lparr>mt_phase = MemOutside, mt_token = out, mt_ok = b\<rparr>"
  have t: "mt_phase ?t = MemOutside" "mt_token ?t = out" by simp_all
  have d: "method_alone_mem api 1 MemDrop (?t, st) = (?t\<lparr>mt_token := null_token\<rparr>, fst st, Token_end api out (snd st))"
    using drop_alone [OF t(1), of api "fst st" "snd st", unfolded t(2)] by (simp only: prod.collapse)
  show ?thesis
    unfolding Let_def register_alone [OF t(1)] unregister_alone [OF t(1)] acquire_token_alone [OF t(1)] t(2) d
      case_prod_unfold by (intro conjI refl)
qed

text \<open>
  C20: a thread that nobody interrupts returns from \<open>PutObject\<close> after at most 39 stretches, each
  with one call to the outside or one stretch in the memory manager, with the result, the outcome
  and the effects of the sequential \<open>PutObject\<close>, in whatever state the process is.
\<close>

theorem put_object_alone:
  "map_option (\<lambda>(t', static', w'). (pt_phase t', pt_ok t', pt_out t', static', w'))
     (put_alone api c 39 (enter_put c rq buf out new_put_thread, static, w)) =
   map_option (\<lambda>(ok, out', static', w'). (PutOutside, ok, out', static', w')) (PutObject api c rq buf out (static, w))"
  by (rule put_alone_PutObject) simp_all

text \<open>
  C17: as long as nobody unregisters a buffer, every thread that asks the vendor's library for a
  token of it finds it registered, and registered once, in the manager's list and with the
  library, whatever the other threads do.
\<close>

theorem token_buffer_registered:
  assumes "mem_boots api s st" and "list_all (\<lambda>e. \<not> unregisters ptr e) evs"
    and "mem_sched api evs (replicate n idle_mem_thread, st) = (ts, mgr, w)"
    and "i < length ts" and "mt_phase (ts ! i) = FetchToken ptr sz off"
  shows "map_of (gm_registered mgr) ptr \<noteq> None \<and> (\<exists>ds tks. books (events w) = Some (ds, tks) \<and> count ds ptr = 1) \<and>
    count (library_regs (events w)) ptr = 1"
proof -
  have "list_ex (past_registration ptr) ts"
    using assms(4,5) by (auto simp: list_ex_length past_registration_def)
  then have r: "ptr \<in> fst ` set (gm_registered mgr)"
    using boots_sched_registered [OF assms(2,1), of n] assms(3) by (simp add: registered_inv_def unstuck_inv_def)
  have s: "count (stuck (events w)) ptr = 0"
    using boots_sched_registered [OF assms(2,1), of n] assms(3) by (simp add: unstuck_inv_def not_in_iff)
  have h: "mm_holds (concat (map thread_tokens ts)) (mgr, w)"
    using boots_sched_inv [OF assms(1), of evs n] assms(3) by (simp add: memory_inv_def)
  then have "count (mset (map fst (gm_registered mgr))) ptr = 1"
    using r by (simp add: mm_holds_def distinct_count_atmost_1)
  then show ?thesis
    using r h s library_books [of "events w"] by (simp add: mm_holds_def map_of_eq_None_iff)
qed

theorem token_buffer_registered_witness:
  "\<exists>ts mgr w. mem_sched (demo_machine 7) both_look_up (replicate 2 idle_mem_thread, demo_mem) = (ts, mgr, w) \<and>
     mt_phase (ts ! 1) = FetchToken 4096 16 0 \<and> map_of (gm_registered mgr) 4096 \<noteq> None \<and>
     (\<exists>ds tks. books (events w) = Some (ds, tks) \<and> count ds 4096 = 1) \<and> count (library_regs (events w)) 4096 = 1"
proof -
  have "list_all (\<lambda>e. \<not> unregisters 4096 e) both_look_up" by (simp add: both_look_up_def unregisters_def)
  from token_buffer_registered [OF demo_boots this both_run, of 1 16 0] show ?thesis unfolding both_run by simp
qed

text \<open>
  The schedule in the gap of \<open>AcquireToken\<close>: a thread has registered the buffer and left the
  critical section when another one unregisters it.
\<close>

definition unregister_between :: "u64 \<Rightarrow> u64 \<Rightarrow> mem_event list" where
  "unregister_between ptr sz =
     [MemCall 0 (MemAcquire ptr sz 0), MemRun 0, MemRun 0, MemCall 1 (MemUnregister ptr), MemRun 1]"

lemma gap_run:
  assumes "mem_boots api s (mgr, w)" "ptr \<noteq> 0" "sz \<noteq> 0"
    and "fst (ca_get_descriptor api ptr sz (env w)) = CU_OBJ_SUCCESS"
  obtains t1 mgr2 w2 where
    "mem_sched api (unregister_between ptr sz) (replicate 2 idle_mem_thread, mgr, w) =
       ([idle_mem_thread\<lparr>mt_phase := FetchToken ptr sz 0\<rparr>, t1], mgr2, w2)"
    "gm_registered mgr2 = []" "books (events w2) = Some ({#}, {#})"
proof -
  note b = boots_simps [OF assms(1)]
  obtain s1 where d: "ca_get_descriptor api ptr sz (env w) = (CU_OBJ_SUCCESS, s1)"
    using assms(4) by (metis prod.collapse)
  define w1 where "w1 = world_log [EvRegistered ptr sz] s1 w"
  define mgr1 where "mgr1 = mgr\<lparr>gm_registered := [(ptr, sz)]\<rparr>"
  have r: "RegisterBufferUnderLock api ptr sz (mgr, w) = (True, mgr1, w1)"
    using b(2) d by (simp add: RegisterBufferUnderLock_def w_get_descriptor_def mgr1_def w1_def Let_def)
  obtain rc w2 where u: "w_put_descriptor api ptr w1 = (rc, w2)" by force
  define mgr2 where "mgr2 = mgr1\<lparr>gm_registered := []\<rparr>"
  have ub: "UnregisterBuffer api ptr (mgr1, w1) = (rc = CU_OBJ_SUCCESS, mgr2, w2)"
    using assms(2) u by (simp add: UnregisterBuffer_def mgr1_def mgr2_def Let_def)
  let ?t0 = "idle_mem_thread\<lparr>mt_phase := FetchToken ptr sz 0\<rparr>"
  let ?t1 = "leave_memory (rc = CU_OBJ_SUCCESS) idle_mem_thread"
  have reg: "mem_sched api [MemCall 0 (MemAcquire ptr sz 0), MemRun 0, MemRun 0] ([idle_mem_thread, idle_mem_thread], mgr, w) =
      ([?t0, idle_mem_thread], mgr1, w1)"
    using assms(2,3) b(2) by (simp add: enter_memory_def move_lookup move_ensure r)
  have unreg: "mem_sched api [MemCall 1 (MemUnregister ptr), MemRun 1] ([?t0, idle_mem_thread], mgr1, w1) =
      ([?t0, ?t1], mgr2, w2)"
    using assms(2) by (simp add: enter_memory_def move_unregister ub)
  have "mem_sched api (unregister_between ptr sz) (replicate 2 idle_mem_thread, mgr, w) = ([?t0, ?t1], mgr2, w2)"
    using mem_sched_simps(3) [of api "[MemCall 0 (MemAcquire ptr sz 0), MemRun 0, MemRun 0]"
        "[MemCall 1 (MemUnregister ptr), MemRun 1]"] reg unreg by (simp add: unregister_between_def two_mem_threads)
  moreover have "books (events w2) = Some ({#}, {#})"
    using events_put_descriptor [of api ptr w1] u b(3) by (simp add: w1_def books_def)
  ultimately show ?thesis using that by (simp add: mgr2_def)
qed

text \<open>
  C18: in that schedule the first thread asks for the token of a buffer that the manager does not
  list any more and whose deregistration it has asked for, so that the library has it registered
  only if that failed, and \<open>AcquireToken\<close> returns what the vendor's library makes of it, with the
  buffer left out of the manager's list.
\<close>

theorem token_after_unregister:
  assumes "mem_boots api s st" and "ptr \<noteq> 0" "sz \<noteq> 0"
    and "fst (ca_get_descriptor api ptr sz (env (snd st))) = CU_OBJ_SUCCESS"
  shows "\<exists>ts mgr w. mem_sched api (unregister_between ptr sz) (replicate 2 idle_mem_thread, st) = (ts, mgr, w) \<and>
    mt_phase (ts ! 0) = FetchToken ptr sz 0 \<and> gm_registered mgr = [] \<and> books (events w) = Some ({#}, {#}) \<and>
    library_regs (events w) = stuck (events w) \<and>
    (case mem_sched api [MemRun 0, MemRun 0] (ts, mgr, w) of (ts', mgr', w') \<Rightarrow>
       gm_registered mgr' = [] \<and> mt_phase (ts' ! 0) = MemOutside \<and> (mt_ok (ts' ! 0) \<longleftrightarrow> Token_valid (mt_token (ts' ! 0))) \<and>
       (mt_ok (ts' ! 0) \<longleftrightarrow> (case fst (ca_get_token api ptr sz 0 (env w)) of (rc, tok) \<Rightarrow> rc = CU_OBJ_SUCCESS \<and> tok \<noteq> 0)))"
proof -
  obtain mgr0 w0 where st: "st = (mgr0, w0)" by (cases st)
  have "fst (ca_get_descriptor api ptr sz (env w0)) = CU_OBJ_SUCCESS" using assms(4) st by simp
  from gap_run [OF assms(1) [unfolded st] assms(2,3) this] obtain t1 mgr w where
    all: "mem_sched api (unregister_between ptr sz) (replicate 2 idle_mem_thread, mgr0, w0) =
      ([idle_mem_thread\<lparr>mt_phase := FetchToken ptr sz 0\<rparr>, t1], mgr, w)"
    and e: "gm_registered mgr = []" "books (events w) = Some ({#}, {#})" .
  let ?ts = "[idle_mem_thread\<lparr>mt_phase := FetchToken ptr sz 0\<rparr>, t1]"
  obtain rc tok w' where g: "w_get_token api ptr sz 0 w = ((rc, tok), w')" by (metis prod.collapse)
  then have gt: "fst (ca_get_token api ptr sz 0 (env w)) = (rc, tok)"
    by (auto simp: w_get_token_def Let_def split: prod.splits)
  have rest: "mem_sched api [MemRun 0, MemRun 0] (?ts, mgr, w) =
      ([if rc \<noteq> CU_OBJ_SUCCESS \<or> tok = 0 then leave_memory False idle_mem_thread
        else (leave_memory True idle_mem_thread)\<lparr>mt_token := \<lparr>tok_client = gm_client mgr, tok_ptr = tok\<rparr>\<rparr>, t1], mgr, w')"
    by (simp add: move_fetch g move_store Token_Reset_def null_token_def)
  have "case mem_sched api [MemRun 0, MemRun 0] (?ts, mgr, w) of (ts', mgr', w') \<Rightarrow>
       gm_registered mgr' = [] \<and> mt_phase (ts' ! 0) = MemOutside \<and> (mt_ok (ts' ! 0) \<longleftrightarrow> Token_valid (mt_token (ts' ! 0))) \<and>
       (mt_ok (ts' ! 0) \<longleftrightarrow> (case fst (ca_get_token api ptr sz 0 (env w)) of (rc, tok) \<Rightarrow> rc = CU_OBJ_SUCCESS \<and> tok \<noteq> 0))"
    unfolding gt rest by (simp add: e leave_memory_def Token_valid_def null_token_def)
  moreover have "mt_phase (?ts ! 0) = FetchToken ptr sz 0" by simp
  ultimately show ?thesis
    unfolding st using all e library_books [OF e(2)] by (intro exI [of _ ?ts] exI [of _ mgr] exI [of _ w] conjI) simp_all
qed

theorem token_after_unregister_witness:
  "\<exists>ts mgr w. mem_sched (demo_machine 7) (unregister_between 4096 16 @ [MemRun 0, MemRun 0]) (replicate 2 idle_mem_thread, demo_mem) =
     (ts, mgr, w) \<and> mt_ok (ts ! 0) \<and> gm_registered mgr = []"
proof -
  have "fst (ca_get_descriptor (demo_machine 7) 4096 16 (env (snd demo_mem))) = CU_OBJ_SUCCESS"
    by (simp add: demo_machine_def CU_OBJ_SUCCESS_def)
  note ex = token_after_unregister [OF demo_boots _ _ this]
  have nz: "(4096 :: u64) \<noteq> 0" "(16 :: u64) \<noteq> 0" by simp_all
  have tok: "fst (ca_get_token (demo_machine 7) 4096 16 0 e) = (0, 9)" for e by (simp add: demo_machine_def)
  show ?thesis
    using ex [OF nz]
  proof (elim exE conjE, goal_cases)
    case (1 ts mgr w)
    obtain ts' mgr' w' where r: "mem_sched (demo_machine 7) [MemRun 0, MemRun 0] (ts, mgr, w) = (ts', mgr', w')"
      by (metis prod.collapse)
    have "mt_ok (ts' ! 0)" "gm_registered mgr' = []" using 1(6) unfolding r tok by (auto simp: CU_OBJ_SUCCESS_def)
    then show ?case using r unfolding mem_sched_simps(3) 1(1) by blast
  qed
qed

end
