(* ===== verification/Spec2Isabelle.thy ===== *)
theory Spec2Isabelle
  imports Crc_Properties Proxy_Properties Backend_Properties Client_Properties Example_System
    Program_Properties Bench_Properties Bench_Arg_Properties Bench_Device_Properties Example_Bench
    Pool_Thread_Properties Session_Thread_Properties Memory_Thread_Properties
begin

text \<open>
  \<^bold>\<open>Us3Turbo: uploads of GPU memory to object storage over RDMA\<close>

  The program has four processes. A \<^emph>\<open>client\<close> library (\<open>client/\<close>) uploads a device buffer with
  \<open>PutObject\<close>: it opens a session at the \<^emph>\<open>proxy\<close> (\<open>proxy/\<close>), registers the buffer with the RDMA
  library, gets a token for it and calls \<open>GdsPut\<close> at the \<^emph>\<open>backend\<close> (\<open>backend/\<close>), which pulls the
  bytes into a leased host buffer, computes their checksum, answers, and reports the completed
  session to the proxy; there \<open>CompleteUpload\<close> can be asked for it. The fourth kind are the example
  programs (\<open>examples/gds\<close>): a single upload, and a benchmark with threads of its own. The bytes
  are discarded by this version of the backend.

  \<^bold>\<open>What is modelled where\<close> (files under \<open>src/\<close>)

  \<^item> Shared: \<open>Prelude\<close> (word types, decimal and hexadecimal text as the C library prints and reads
    it, generic lemmas, the collections \<open>store_simps\<close>, \<open>pool_simps\<close>, \<open>client_simps\<close>), \<open>Scheduled\<close>
    (invariants of event-driven systems, a locale), \<open>Stretches\<close> (code cut into stretches against
    the code as a whole, a locale), \<open>Double_Round\<close> (rounding to \<open>double\<close>), \<open>Messages\<close>
    (\<open>proto/control_plane.proto\<close>), \<open>Error_Codes\<close>
    (\<open>include/us3_turbo/common/error_code.h\<close>, \<open>proxy/src/common/errors.h\<close>).
  \<^item> Checksums: \<open>Crc_Algebra\<close> (the bit-serial specification), \<open>Backend_Crc32c\<close> and \<open>Base64_Crc\<close>
    (\<open>backend/src/common/crc32c.cpp\<close>), \<open>Client_Crc32c\<close> (\<open>client/src/data/crc32c.cpp\<close>).
  \<^item> Backend: \<open>Cuobj_Server\<close> (the vendor's server library as a parameter, every call recorded, and
    the ledger that replays the calls), \<open>Pool_Interface\<close> (the contract of a pool, a locale),
    \<open>Buffer_Pool\<close> (\<open>backend/src/gds/buffer_pool.cpp\<close>), \<open>Pool_Threads\<close> and \<open>Pool_Interleaving\<close> (the same
    methods cut at every shared access, and run by any number of threads under any schedule),
    \<open>Gds_Sink\<close> (\<open>backend_gds_sink.cpp\<close>, \<open>gds/cuobj_resources.h\<close>), \<open>Data_Plane_Service\<close>
    (\<open>backend_data_plane_service.cpp\<close>).
  \<^item> Proxy: \<open>Utc_Time\<close> (\<open>gmtime_r\<close> and \<open>strftime\<close> as far as they are used), \<open>Utc_Calendar\<close> (a
    reference calendar and a reader of the timestamps), \<open>Session_Interface\<close> (the contract of a
    session table, a locale), \<open>Session_Types\<close> (well-formed sessions), \<open>Session_Manager\<close> (\<open>session/session_manager.cpp\<close>),
    \<open>Proxy_Service\<close> (\<open>service/proxy_control_plane_service.cpp\<close>), \<open>Session_Threads\<close> (the three working
    handlers cut at every shared access), \<open>Session_Linear\<close> (their schedules against sequences of whole
    calls).
  \<^item> Client: \<open>Client_World\<close> (everything the client calls outside the repository, as one parameter,
    with a log), \<open>Client_Contracts\<close> (\<open>options.h\<close>, \<open>types.h\<close>, \<open>contracts/\<close>), \<open>Client_Rpc\<close> (\<open>rpc_base.h\<close>,
    \<open>meta_rpc.cpp\<close>, \<open>chunk_rpc.cpp\<close>), \<open>Token_Interface\<close> (the contract of a token manager, a locale),
    \<open>Gds_Memory\<close> (\<open>gds_memory_manager.cpp\<close>), \<open>Memory_Threads\<close> (the same methods cut at every
    critical section and library call, and run by any number of threads), \<open>Client_Retry\<close> (the retry loop of \<open>client.cpp\<close>, with a
    locale for what it is used with), \<open>Put_Client\<close> (the rest of \<open>client.cpp\<close>), \<open>Put_Threads\<close> and
    \<open>Put_Thread_Books\<close> (\<open>PutObject\<close> cut into the stretches between its calls, and what each does
    to the memory manager and to the world), \<open>Client_Runs\<close>,
    \<open>Client_Device\<close> and \<open>Client_Contract\<close> (what the client's methods keep, in any order).
  \<^item> Programs: \<open>Programs\<close> (the two \<open>main.cpp\<close>), \<open>Put_Example\<close> (\<open>gds_put_example.cpp\<close>), \<open>Bench_Args\<close>
    and \<open>Bench_Run\<close> (\<open>gds_bench_example.cpp\<close>; a worker's PUT is a thread of \<open>Put_Threads\<close>, so the
    PUTs of the workers overlap), \<open>Bench_Control\<close> and \<open>Bench_Lemmas\<close> (its workers as a
    transition system, which every schedule of them implements), \<open>Bench_Times\<close> (a machine with a
    monotone clock, a locale, and the workers' times on it), \<open>Bench_Devices\<close> (a machine with an
    allocator of device memory, a locale, and the workers' buffers on it).
  \<^item> Together: \<open>End_To_End\<close> puts a client, a proxy and a backend into one state, with a network that
    may lose a call before or after it took effect and may repeat it; \<open>Bench_System\<close> puts the
    benchmark in the place of the client.
  \<^item> \<open>Example_Client\<close>, \<open>Example_Server\<close>, \<open>Example_System\<close> and \<open>Example_Bench\<close> are concrete libraries and a system on
    which the hypotheses of the properties hold.

  State is passed explicitly: a component's members are a record and each method is a function
  from its arguments and the state to its result and the new state. Errors are values of a sum
  type; a null dereference is \<open>None\<close>. Machine integers have their width. Code outside the
  repository (RPC runtime, CUDA, the RDMA libraries, clocks, random generators) is a record of
  functions over a state of its own, an argument of everything that uses it.

  \<^bold>\<open>What the lemmas show\<close>

  \<^item> The whole system: with checksums on, the bytes that arrived for a PUT that answers true have the
    CRC-32C of the device buffer (how many arrived is not checked), and the proxy answers for its
    session; when the client is the benchmark with its overlapping PUTs, whatever the network does,
    stopping the backend frees everything exactly once.
  \<^item> \<open>Crc_Properties\<close>: the table-driven checksum is the polynomial division, detects bursts, can be
    computed in pieces; the header decoder and its round trip.
  \<^item> \<open>Backend_Properties\<close>, \<open>Pool_Thread_Properties\<close>: leases fit, buffers, registrations and channels
    are neither lost nor released twice, sequentially and under every schedule; one schedule of
    \<open>Release\<close> and \<open>Shutdown\<close> leaks, and the condition under which none does; what \<open>GdsPut\<close> answers on
    every path.
  \<^item> \<open>Proxy_Properties\<close>, \<open>Session_Thread_Properties\<close>: the life of a session, no completion without a
    report, fresh identifiers, every error branch; every session of a reachable table is
    well-formed, a completed one keeps its answer (past its expiry as well), and the expiry is the
    right instant of the calendar; every schedule of the handlers leaves the sessions and gives the
    answers of some sequence of whole calls, but for the success of \<open>CompleteUpload\<close>: the pointer read
    without the lock never dangles, but can see a session that was opened again.
  \<^item> \<open>Client_Properties\<close>: no null dereference in any order of calls, every token is given back once and
    every registration followed by one deregistration call, the protocol of one attempt, the number
    and length of the pauses.
  \<^item> \<open>Memory_Thread_Properties\<close>: the same balance under every schedule of the memory manager's threads,
    and what the library has registered: what the manager lists and what it refused to deregister,
    which the manager forgets; a token is asked for a registered buffer as long as nobody unregisters it,
    and one schedule shows that the condition is needed; a thread alone in \<open>PutObject\<close> does what the
    sequential method does.
  \<^item> \<open>Program_Properties\<close>, \<open>Bench_Properties\<close>, \<open>Bench_Arg_Properties\<close>, \<open>Bench_Device_Properties\<close>:
    clean-up and exit codes of the programs; the benchmark's workers claim every object once, its
    totals add up, its times fit together, it ends under every fair schedule when all workers are
    set up, and never ends when only some are; every worker's buffer is its own, registered while
    its PUTs run, deregistered before it is freed (the program goes on when the library refuses),
    and freed in the end.

  Two accounts of the client's log are kept apart: \<open>books\<close> is what the client still has to do, one
  deregistration call for every registration and one return of every token, and \<open>library_regs\<close> is
  what the library has registered, where a deregistration that failed counts for nothing. They
  differ by \<open>stuck\<close>, the failed deregistrations (\<open>library_books\<close>).

  \<^bold>\<open>Bounds and fuel\<close>

  No loop is cut off by fuel: the loops of the sources are recursions that are proved to end. The
  numbers of stretches in \<open>Pool_Threads\<close> (5 for \<open>Acquire\<close> and \<open>Release\<close>, a sum over the free lists for
  \<open>Shutdown\<close>) and in \<open>Put_Threads\<close> (39 for \<open>PutObject\<close>: one for the deadline, at most three
  attempts of 12 and the two pauses between them) are those after which the method has returned;
  further ones do nothing. The rounds in the benchmark's termination theorem are bounded by the
  warm-ups, the objects and the workers: at most 41 steps for a PUT with its two readings of the
  clock, one more to claim an object, and 46 for a worker's set-up, its end and a PUT it is in. A
  network call may be repeated any finite number of times. \<open>bench_sane\<close> excludes a count so close
  to \<open>2 ^ 64\<close> that the shared counter would wrap.

  \<^bold>\<open>Not modelled\<close>

  \<^item> Log messages, latency traces and the benchmark's printed text, which nothing reads. The
    benchmark's figures are exact fractions of the times; their roundings in \<open>double\<close> are not
    modelled.
  \<^item> The RPC runtime beyond request, answer, loss and repetition; \<open>protobuf\<close>'s wire format; the
    parsing of the flags and the wait for a signal in the two servers.
  \<^item> Failing allocation of ordinary memory, and data races as such: the threads of
    \<open>Pool_Threads\<close>, \<open>Session_Threads\<close>, \<open>Memory_Threads\<close>, \<open>Put_Threads\<close> and \<open>Bench_Run\<close> are interleaved
    at their shared accesses and calls, in a sequentially consistent memory. A call over the network
    is one step there: the handlers of proxy and backend are interleaved at their own shared accesses
    in their own thread models.
  \<^item> The bytes of device memory between the registration and the transfer: the copy the client
    checks and the copy that was sent are two reads of the device.
\<close>

section \<open>Properties of the whole system\<close>

text \<open>
  C1: in a system with checksums on at both ends, when \<open>PutObject\<close> answers true, then the client
  made a call, and the backend answered it, for that object and the session the client reports,
  with the size of the buffer and a token the RDMA library had issued for it; the backend was
  between requests and the proxy's table the result of calls. The bytes that the backend's
  transfer for this call put in the leased buffer, as many as the server library counted, have
  the same CRC-32C as the copy of the device buffer that the client made right after the answer,
  and the client reports that checksum and its tag. If as many bytes arrived as
  the copy has, then they differ from it, if at all, in more than four consecutive bytes. Nothing
  checks that as many arrived: a transfer that stopped early passes if the checksums agree.
\<close>

theorem put_verified_end_to_end:
  fixes d :: "('c, 's) deployment"
  assumes "fresh_system d ttl True y" and "system_run d opts calls y = Some (c, static, w)"
    and "verify_crc32c (cl_options c)"
    and "PutObject (system_api d) c rq buffer out (static, w) = Some (True, out', static', w')"
  shows "\<exists>q y0 resp y1 bytes host c'. put_call d rq buffer (to_session_id out') q \<and>
     EvPut (to_session_id out') (gcq_rdma_token q) True \<in> set (events w') \<and>
     sys_inv d (new_SessionManager ttl) True y0 \<and> h_put d q y0 = (Inr resp, y1) \<and>
     landed d q y0 = Some bytes \<and>
     ca_memcpy (dp_machine d) (cbv_data buffer) (cbv_size buffer) (sys_client y1) = ((cudaSuccess, host), c') \<and>
     Crc32c bytes = Crc32c host \<and> to_crc32c out' = Crc32c host \<and> to_etag out' = BuildEtag (Crc32c host) \<and>
     (length bytes = length host \<longrightarrow> (\<forall>pre xs ys post. host = pre @ xs @ post \<and> bytes = pre @ ys @ post \<and>
        length xs = length ys \<and> length xs \<le> 4 \<longrightarrow> bytes = host))"
proof -
  have inv: "sys_inv d (new_SessionManager ttl) True (env w)"
    using system_run_inv [OF assms(1,2)] .
  obtain meta chunk st mgr where st: "sys_inv d (new_SessionManager ttl) True (env (snd (snd st)))"
      "PutOnce (system_api d) (cl_options c) meta chunk rq buffer st = (True, out', mgr, w')"
    using whole_system.PutObject_I(2) [OF inv assms(4)] by blast
  obtain o1 m1 w1 where s: "st = (o1, m1, w1)" by (metis prod.collapse)
  obtain q y0 resp y1 bytes host c' where b: "put_call d rq buffer (to_session_id out') q"
      "sys_inv d (new_SessionManager ttl) True y0" "h_put d q y0 = (Inr resp, y1)" "landed d q y0 = Some bytes"
      "EvPut (gcq_session_id q) (gcq_rdma_token q) True \<in> set (events w')"
      "to_crc32c out' = Crc32c bytes" "to_etag out' = BuildEtag (Crc32c bytes)"
      "ca_memcpy (dp_machine d) (cbv_data buffer) (cbv_size buffer) (sys_client y1) = ((cudaSuccess, host), c')"
      "Crc32c host = Crc32c bytes"
    using PutOnce_landed [OF st(2) [unfolded s]] st(1) assms(3) unfolding s snd_conv by blast
  have "bytes = host" if "host = pre @ xs @ post" "bytes = pre @ ys @ post" "length xs = length ys"
      "length xs \<le> 4" for pre xs ys post
    using backend_crc.burst_detected [OF that(3,4), of pre post] b(9) that(1,2)
    by (simp add: Crc32c_def)
  then show ?thesis
    using b by (intro exI [of _ q] exI [of _ y0] exI [of _ resp] exI [of _ y1] exI [of _ bytes] exI [of _ host]
        exI [of _ c']) (simp add: put_call_def)
qed

theorem put_verified_end_to_end_witness:
  "\<exists>c static w out' static' w' q y0 resp y1 bytes host c'.
     system_run demo_deployment demo_options [CallInitialize] demo_system = Some (c, static, w) \<and>
     PutObject (system_api demo_deployment) c demo_request demo_buffer empty_outcome (static, w) =
       Some (True, out', static', w') \<and>
     put_call demo_deployment demo_request demo_buffer (to_session_id out') q \<and>
     h_put demo_deployment q y0 = (Inr resp, y1) \<and> landed demo_deployment q y0 = Some bytes \<and>
     ca_memcpy (demo_machine 0) 256 3 (sys_client y1) = ((cudaSuccess, host), c') \<and>
     Crc32c bytes = Crc32c host \<and> to_crc32c out' = Crc32c host"
proof -
  obtain c static w out' static' w' where r: "system_run demo_deployment demo_options [CallInitialize]
      demo_system = Some (c, static, w)" "verify_crc32c (cl_options c)"
      "PutObject (system_api demo_deployment) c demo_request demo_buffer empty_outcome (static, w) =
         Some (True, out', static', w')" using demo_put_true by blast
  have m: "dp_machine demo_deployment = demo_machine 0" "cbv_data demo_buffer = 256" "cbv_size demo_buffer = 3"
    by (simp_all add: demo_deployment_def demo_buffer_def)
  from put_verified_end_to_end [OF demo_fresh r, unfolded m] show ?thesis
  proof (elim exE conjE, goal_cases)
    case (1 q y0 resp y1 bytes host c')
    show ?case by (intro exI conjI) (fact r(1,3) 1)+
  qed
qed

text \<open>
  C2: when \<open>PutObject\<close> answers true and the backend's reports reach the proxy, however often,
  the proxy holds the session as completed with the tag and the checksum the client was given,
  and answers \<open>CompleteUpload\<close> for the session's ticket with that tag.
\<close>

theorem put_completes_session:
  assumes "fresh_system d ttl crc y" and "system_run d opts calls y = Some (c, static, w)"
    and "reports_arrive d"
    and "PutObject (system_api d) c rq buffer out (static, w) = Some (True, out', static', w')"
  shows "completed_in (to_session_id out') (to_etag out') (to_crc32c out') (env w') \<and>
     proxy_CompleteUpload
       \<lparr>cuq_upload_id = ticket_for (to_session_id out'), cuq_parts = parts, cuq_data_flow = flow\<rparr>
       (sys_proxy (env w')) =
     (Inr (empty_CompleteUploadResponse\<lparr>cur_etag := to_etag out'\<rparr>), sys_proxy (env w'))"
proof -
  have inv: "sys_inv d (new_SessionManager ttl) crc (env w)" using system_run_inv [OF assms(1,2)] .
  obtain meta chunk st mgr where
      st: "PutOnce (system_api d) (cl_options c) meta chunk rq buffer st = (True, out', mgr, w')"
    using whole_system.PutObject_I(2) [OF inv assms(4)] by blast
  obtain o1 m1 w1 where s: "st = (o1, m1, w1)" by (metis prod.collapse)
  have fin: "completed_in (to_session_id out') (to_etag out') (to_crc32c out') (env w')"
    using PutOnce_reported [OF st [unfolded s] assms(3)] .
  have "sys_inv d (new_SessionManager ttl) crc (env w')"
    using whole_system.PutObject_I(1) [OF inv assms(4)] .
  then have "sm_inv (sys_proxy (env w'))" by (rule sys_inv_table) (rule sm_inv_new)
  from completed_answers [OF this fin] fin show ?thesis by simp
qed

theorem put_completes_session_witness:
  "\<exists>c static w out' static' w'.
     system_run demo_deployment demo_options [CallInitialize] demo_system = Some (c, static, w) \<and>
     PutObject (system_api demo_deployment) c demo_request demo_buffer empty_outcome (static, w) =
       Some (True, out', static', w') \<and>
     completed_in (to_session_id out') (to_etag out') (to_crc32c out') (env w')"
proof -
  obtain c static w out' static' w' where r: "system_run demo_deployment demo_options [CallInitialize]
      demo_system = Some (c, static, w)"
      "PutObject (system_api demo_deployment) c demo_request demo_buffer empty_outcome (static, w) =
         Some (True, out', static', w')" using demo_put_true by blast
  have "reports_arrive demo_deployment" by (simp add: reports_arrive_def demo_deployment_def)
  from put_completes_session [OF demo_fresh r(1) this r(2)] r show ?thesis by blast
qed

text \<open>
  C9: when the benchmark runs against the whole system, on a device whose allocator hands out
  addresses that are not in use, then at every moment of every schedule, and whatever the network
  does with the calls, the proxy's table is the result of a sequence of calls of its handlers,
  stopping the backend frees every host buffer, registration and channel exactly once, and what
  is allocated on the device in addition to what was before are the workers' buffers. When all
  workers have returned, that is nothing, every registration was followed by one deregistration
  call and every token given back, once, and the RDMA library still has registered exactly the
  buffers whose deregistration failed.
\<close>

theorem system_bench_clean:
  fixes d :: "('c, 's) deployment"
  assumes "deployed_device d live" and "fresh_system d ttl crc y"
    and "bench_begins (system_api d) argv y a c st"
    and "bench_sched (system_api d) a c (bench_pattern a) sched st = Some (wks, sh)"
  shows "let y' = env (sh_world sh)
     in (\<exists>calls. sys_proxy y' = proxy_run (dp_proxy d) calls (new_SessionManager ttl)) \<and>
        ledger_of (srv_calls (snd (Sink_Stop (dp_server d) (sys_sink y', sys_server y')))) = Some empty_ledger \<and>
        live (sys_client y') = live (sys_client y) \<union> set (map wk_dev (filter holds_buffer wks)) \<and>
        (list_all (\<lambda>wk. wk_phase wk = Ended) wks \<longrightarrow>
           live (sys_client y') = live (sys_client y) \<and> books (events (sh_world sh)) = Some ({#}, {#}) \<and>
           library_regs (events (sh_world sh)) = stuck (events (sh_world sh)))"
proof -
  have inv: "sys_inv d (new_SessionManager ttl) crc (env (sh_world sh))"
    using bench_keeps_system [OF fresh_system_inv [OF assms(2)] assms(3,4)] .
  have dev: "device_env (system_api d) (live \<circ> sys_client)" by (rule deployed_device_system [OF assms(1)])
  note lists = device_inv_lists [OF begins_device(2) [OF dev assms(3,4), unfolded device_of_def]]
  have ended: "live (sys_client (env (sh_world sh))) = live (sys_client y) \<and> books (events (sh_world sh)) = Some ({#}, {#}) \<and>
      library_regs (events (sh_world sh)) = stuck (events (sh_world sh))"
    if e: "list_all (\<lambda>wk. wk_phase wk = Ended) wks"
  proof -
    have "filter has_registered wks = []" "filter holds_buffer wks = []"
      using e by (auto simp: list_all_iff filter_empty_conv holds_buffer_def has_registered_def)
    then have "books (events (sh_world sh)) = Some ({#}, {#})"
      using lists(4) ended_books [OF begun_shared [OF assms(3,4)] e] by simp
    then show ?thesis
      using lists(2) library_books [of "events (sh_world sh)"] \<open>filter holds_buffer wks = []\<close> by simp
  qed
  have "ledger_of (srv_calls (snd (Sink_Stop (dp_server d) (sys_sink (env (sh_world sh)), sys_server (env (sh_world sh)))))) =
      Some empty_ledger" using inv by (intro Stop_clean) (simp add: sys_inv_def)
  then show ?thesis using inv lists(2) ended unfolding sys_inv_def Let_def comp_def by blast
qed

theorem system_bench_clean_witness:
  "\<exists>sched c st wks sh. bench_begins (system_api bench_deployment) small_bench bench_world small_args c st \<and>
     bench_sched (system_api bench_deployment) small_args c (bench_pattern small_args) sched st = Some (wks, sh) \<and>
     snd (sys_client (env (sh_world sh))) = [] \<and> books (events (sh_world sh)) = Some ({#}, {#})"
proof -
  obtain c st sched wks sh where r: "bench_begins (system_api bench_deployment) small_bench bench_world small_args c st"
    "bench_sched (system_api bench_deployment) small_args c (bench_pattern small_args) sched st = Some (wks, sh)"
    "list_all (\<lambda>wk. wk_phase wk = Ended) wks" using bench_world_runs .
  from system_bench_clean [OF bench_device.deployed_device_axioms bench_world_fresh r(1,2)] r(3)
  have "(set \<circ> snd) (sys_client (env (sh_world sh))) = (set \<circ> snd) (sys_client bench_world)"
    "books (events (sh_world sh)) = Some ({#}, {#})" unfolding Let_def by blast+
  then have "snd (sys_client (env (sh_world sh))) = []" by (simp add: bench_world_def case_prod_unfold Let_def)
  then show ?thesis using r(1,2) \<open>books (events (sh_world sh)) = Some ({#}, {#})\<close> by blast
qed

end
